(* ===== verification/Trv1_Prelude.thy ===== *)
theory Trv1_Prelude
  imports Main "HOL-Library.AList" "HOL-Library.Word" "HOL-Library.Multiset"
    "HOL-Library.List_Lexorder" "HOL-Library.Product_Lexorder"
begin

text \<open>
  What every component shares: the machine integers of the source, the result type of fallible
  code, hash maps, and the generic induction over runs of a state machine.

  Unsigned integers are natural numbers with the width written at each operation that can leave
  it: \<open>wadd 64\<close> is the release-mode \<^verbatim>\<open>+\<close> on \<^verbatim>\<open>u64\<close> (the workspace's release profile sets no
  overflow checks, so it wraps), \<open>sat_add 64\<close> is \<^verbatim>\<open>saturating_add\<close>, \<open>checked_add 64\<close> is
  \<^verbatim>\<open>checked_add\<close>. \<^verbatim>\<open>saturating_sub\<close> is the truncating subtraction of the natural numbers.
  Bytes are 8-bit words; public keys, hashes and signatures are byte strings, ordered
  lexicographically as the arrays of the source are.
  A \<^verbatim>\<open>HashMap\<close> is an association list whose order is the order in which the map is iterated.
\<close>

section \<open>Types of the source\<close>

type_synonym u8 = "8 word"
type_synonym u16 = nat
type_synonym u32 = nat
type_synonym u64 = nat
type_synonym u128 = nat
type_synonym i64 = int
type_synonym i128 = int
type_synonym bytes = "u8 list"
type_synonym pubkey = bytes
type_synonym hash = bytes
type_synonym signature = bytes
type_synonym ('k, 'v) hashmap = "('k \<times> 'v) list"

named_theorems machine_int \<open>definitions of the machine-integer operations\<close>

section \<open>Machine integers\<close>

definition umax :: "nat \<Rightarrow> nat" where
  "umax w = 2 ^ w - 1"

definition wadd :: "nat \<Rightarrow> nat \<Rightarrow> nat \<Rightarrow> nat" where
  "wadd w a b = (a + b) mod 2 ^ w"

definition wmul :: "nat \<Rightarrow> nat \<Rightarrow> nat \<Rightarrow> nat" where
  "wmul w a b = (a * b) mod 2 ^ w"

definition sat_add :: "nat \<Rightarrow> nat \<Rightarrow> nat \<Rightarrow> nat" where
  "sat_add w a b = min (a + b) (umax w)"

definition sat_mul :: "nat \<Rightarrow> nat \<Rightarrow> nat \<Rightarrow> nat" where
  "sat_mul w a b = min (a * b) (umax w)"

definition checked_add :: "nat \<Rightarrow> nat \<Rightarrow> nat \<Rightarrow> nat option" where
  "checked_add w a b = (if a + b < 2 ^ w then Some (a + b) else None)"

definition checked_sub :: "nat \<Rightarrow> nat \<Rightarrow> nat option" where
  "checked_sub a b = (if b \<le> a then Some (a - b) else None)"

definition checked_mul :: "nat \<Rightarrow> nat \<Rightarrow> nat \<Rightarrow> nat option" where
  "checked_mul w a b = (if a * b < 2 ^ w then Some (a * b) else None)"

definition checked_div :: "nat \<Rightarrow> nat \<Rightarrow> nat option" where
  "checked_div a b = (if b = 0 then None else Some (a div b))"

definition checked_iadd :: "nat \<Rightarrow> int \<Rightarrow> int \<Rightarrow> int option" where
  "checked_iadd w a b =
     (if - (2 ^ (w - 1)) \<le> a + b \<and> a + b < 2 ^ (w - 1) then Some (a + b) else None)"

definition checked_imul :: "nat \<Rightarrow> int \<Rightarrow> int \<Rightarrow> int option" where
  "checked_imul w a b =
     (if - (2 ^ (w - 1)) \<le> a * b \<and> a * b < 2 ^ (w - 1) then Some (a * b) else None)"

definition sat_iadd :: "nat \<Rightarrow> int \<Rightarrow> int \<Rightarrow> int" where
  "sat_iadd w a b = max (- (2 ^ (w - 1))) (min (2 ^ (w - 1) - 1) (a + b))"

text \<open>\<^verbatim>\<open>Iterator::sum\<close> of unsigned values in release mode.\<close>

definition wsum :: "nat \<Rightarrow> nat list \<Rightarrow> nat" where
  "wsum w xs = foldl (wadd w) 0 xs"

declare umax_def [machine_int] wadd_def [machine_int] wmul_def [machine_int]
  sat_add_def [machine_int] sat_mul_def [machine_int] checked_add_def [machine_int]
  checked_sub_def [machine_int] checked_mul_def [machine_int] checked_div_def [machine_int]
  checked_iadd_def [machine_int] checked_imul_def [machine_int] sat_iadd_def [machine_int]

lemma wadd_less [simp]: "wadd w a b < 2 ^ w"
  by (simp add: wadd_def)

lemma wadd_exact: "a + b < 2 ^ w \<Longrightarrow> wadd w a b = a + b"
  by (simp add: wadd_def)

lemma wmul_exact: "a * b < 2 ^ w \<Longrightarrow> wmul w a b = a * b"
  by (simp add: wmul_def)

lemma less_umax_iff: "0 < w \<Longrightarrow> x \<le> umax w \<longleftrightarrow> x < 2 ^ w"
  using one_less_power [of "2::nat" w] by (auto simp: umax_def)

lemma sat_add_le_umax [simp]: "sat_add w a b \<le> umax w"
  by (simp add: sat_add_def)

lemma sat_add_exact: "a + b \<le> umax w \<Longrightarrow> sat_add w a b = a + b"
  by (simp add: sat_add_def)

lemma sat_mul_exact: "a * b \<le> umax w \<Longrightarrow> sat_mul w a b = a * b"
  by (simp add: sat_mul_def)

lemma sat_add_mono: "a \<le> a' \<Longrightarrow> b \<le> b' \<Longrightarrow> sat_add w a b \<le> sat_add w a' b'"
  by (simp add: sat_add_def min_def)

lemma checked_add_Some [simp]: "checked_add w a b = Some c \<longleftrightarrow> c = a + b \<and> a + b < 2 ^ w"
  by (auto simp: checked_add_def)

lemma checked_sub_Some [simp]: "checked_sub a b = Some c \<longleftrightarrow> c = a - b \<and> b \<le> a"
  by (auto simp: checked_sub_def)

lemma checked_mul_Some [simp]: "checked_mul w a b = Some c \<longleftrightarrow> c = a * b \<and> a * b < 2 ^ w"
  by (auto simp: checked_mul_def)

lemma checked_div_Some [simp]: "checked_div a b = Some c \<longleftrightarrow> c = a div b \<and> b \<noteq> 0"
  by (auto simp: checked_div_def)

lemma foldl_wadd: "foldl (wadd w) (a mod 2 ^ w) xs = (a + sum_list xs) mod 2 ^ w"
proof (induction xs arbitrary: a)
  case Nil
  then show ?case by simp
next
  case (Cons x xs)
  have "foldl (wadd w) (a mod 2 ^ w) (x # xs) = foldl (wadd w) ((a + x) mod 2 ^ w) xs"
    by (simp add: wadd_def mod_add_left_eq)
  then show ?case by (simp add: Cons.IH add.assoc)
qed

lemma wsum_mod: "wsum w xs = sum_list xs mod 2 ^ w"
  using foldl_wadd [of w 0 xs] by (simp add: wsum_def)

lemma wsum_exact: "sum_list xs < 2 ^ w \<Longrightarrow> wsum w xs = sum_list xs"
  by (simp add: wsum_mod)

section \<open>Fallible code\<close>

text \<open>\<open>Inl\<close> is \<^verbatim>\<open>Err\<close>, \<open>Inr\<close> is \<^verbatim>\<open>Ok\<close>; \<open>res_bind\<close> is the \<^verbatim>\<open>?\<close> operator.\<close>

definition res_bind :: "'e + 'a \<Rightarrow> ('a \<Rightarrow> 'e + 'b) \<Rightarrow> 'e + 'b" where
  "res_bind r f = (case r of Inl e \<Rightarrow> Inl e | Inr x \<Rightarrow> f x)"

definition ok_or :: "'e \<Rightarrow> 'a option \<Rightarrow> 'e + 'a" where
  "ok_or e r = (case r of None \<Rightarrow> Inl e | Some x \<Rightarrow> Inr x)"

definition is_ok :: "'e + 'a \<Rightarrow> bool" where
  "is_ok r = (case r of Inl _ \<Rightarrow> False | Inr _ \<Rightarrow> True)"

lemma res_bind_simps [simp]:
  "res_bind (Inl e) f = Inl e" "res_bind (Inr x) f = f x"
  by (simp_all add: res_bind_def)

lemma ok_or_simps [simp]: "ok_or e None = Inl e" "ok_or e (Some x) = Inr x"
  by (simp_all add: ok_or_def)

lemma is_ok_simps [simp]: "is_ok (Inl e) = False" "is_ok (Inr x) = True"
  by (simp_all add: is_ok_def)

lemma res_bind_Inr: "res_bind r f = Inr y \<longleftrightarrow> (\<exists>x. r = Inr x \<and> f x = Inr y)"
  by (cases r) auto

lemma res_bind_Inl:
  "res_bind r f = Inl e \<longleftrightarrow> r = Inl e \<or> (\<exists>x. r = Inr x \<and> f x = Inl e)"
  by (cases r) auto

lemma ok_or_Inr [simp]: "ok_or e r = Inr x \<longleftrightarrow> r = Some x"
  by (cases r) auto

lemma ok_or_Inl: "ok_or e r = Inl e' \<longleftrightarrow> r = None \<and> e' = e"
  by (cases r) auto

lemma res_bind_InrE [elim!]:
  assumes "res_bind r f = Inr y"
  obtains x where "r = Inr x" "f x = Inr y"
  using assms by (auto simp: res_bind_Inr)

lemma is_ok_iff: "is_ok r \<longleftrightarrow> (\<exists>x. r = Inr x)"
  by (cases r) auto

lemma is_ok_bind: "is_ok (res_bind r f) \<longleftrightarrow> (\<exists>x. r = Inr x \<and> is_ok (f x))"
  by (cases r) auto

section \<open>Hash maps\<close>

abbreviation hm_get :: "('k, 'v) hashmap \<Rightarrow> 'k \<Rightarrow> 'v option" where
  "hm_get \<equiv> map_of"

abbreviation hm_insert :: "'k \<Rightarrow> 'v \<Rightarrow> ('k, 'v) hashmap \<Rightarrow> ('k, 'v) hashmap" where
  "hm_insert \<equiv> AList.update"

abbreviation hm_keys :: "('k, 'v) hashmap \<Rightarrow> 'k list" where
  "hm_keys m \<equiv> map fst m"

text \<open>A hash map holds each key once.\<close>

definition hm_wf :: "('k, 'v) hashmap \<Rightarrow> bool" where
  "hm_wf m \<longleftrightarrow> distinct (hm_keys m)"

definition hm_retain :: "('k \<Rightarrow> 'v \<Rightarrow> bool) \<Rightarrow> ('k, 'v) hashmap \<Rightarrow> ('k, 'v) hashmap" where
  "hm_retain p m = filter (\<lambda>(k, v). p k v) m"

text \<open>\<^verbatim>\<open>*map.entry(k).or_default() += x\<close> on unsigned counters.\<close>

definition hm_bump :: "nat \<Rightarrow> 'k \<Rightarrow> nat \<Rightarrow> ('k, nat) hashmap \<Rightarrow> ('k, nat) hashmap" where
  "hm_bump w k x m = hm_insert k (wadd w (case hm_get m k of None \<Rightarrow> 0 | Some y \<Rightarrow> y) x) m"

lemma hm_get_insert [simp]: "hm_get (hm_insert k v m) = (hm_get m)(k \<mapsto> v)"
  by (rule update_conv')

lemma hm_wf_insert [simp, intro]: "hm_wf m \<Longrightarrow> hm_wf (hm_insert k v m)"
  by (simp add: hm_wf_def distinct_update)

lemma hm_wf_Nil [simp, intro]: "hm_wf []"
  by (simp add: hm_wf_def)

lemma hm_wf_retain [simp, intro]: "hm_wf m \<Longrightarrow> hm_wf (hm_retain p m)"
  by (induction m) (auto simp: hm_wf_def hm_retain_def)

lemma hm_get_retain:
  "hm_wf m \<Longrightarrow> hm_get (hm_retain p m) k =
     (case hm_get m k of None \<Rightarrow> None | Some v \<Rightarrow> if p k v then Some v else None)"
  by (induction m) (auto simp: hm_wf_def hm_retain_def map_of_eq_None_iff image_iff split: option.splits)

lemma hm_keys_insert: "set (hm_keys (hm_insert k v m)) = insert k (set (hm_keys m))"
  using dom_map_of_conv_image_fst [of "hm_insert k v m"] dom_map_of_conv_image_fst [of m] by simp

lemma hm_get_iff: "hm_wf m \<Longrightarrow> hm_get m k = Some v \<longleftrightarrow> (k, v) \<in> set m"
  by (simp add: hm_wf_def)

lemma hm_wf_perm: "mset m = mset m' \<Longrightarrow> hm_wf m = hm_wf m'"
  unfolding hm_wf_def by (metis mset_eq_imp_distinct_iff mset_map)

lemma hm_insert_all:
  "hm_wf m \<Longrightarrow> \<forall>(k, x) \<in> set m. P k x \<Longrightarrow> P k' x' \<Longrightarrow> \<forall>(k, x) \<in> set (hm_insert k' x' m). P k x"
  by (auto simp: hm_get_iff [symmetric] split: if_splits)

lemma hm_get_key: "hm_get m k = Some x \<Longrightarrow> k \<in> set (hm_keys m)"
  by (metis map_of_eq_None_iff option.distinct(1) set_map)

lemma hm_insert_length:
  "length (hm_insert k x m) = (if hm_get m k = None then Suc (length m) else length m)"
  by (induction m) auto

lemma hm_wf_delete: "hm_wf m \<Longrightarrow> hm_wf (AList.delete k m)"
  unfolding hm_wf_def by (rule distinct_delete)

lemma hm_delete_le: "set (AList.delete k m) \<subseteq> set m" "length (AList.delete k m) \<le> length m"
  by (auto simp: AList.delete_eq)

lemma hm_get_perm: "mset m = mset m' \<Longrightarrow> hm_wf m \<Longrightarrow> hm_get m = hm_get m'"
  by (rule ext) (metis hm_get_iff hm_wf_perm mset_eq_setD not_None_eq)

text \<open>Counters accumulated over a list of increments.\<close>

lemma hm_bump_fold_get:
  "hm_get (foldl (\<lambda>m (k, x). hm_bump w k x m) [] xs) k =
     (if k \<in> fst ` set xs then Some (sum_list (map snd (filter (\<lambda>(k', _). k' = k) xs)) mod 2 ^ w) else None)"
proof (induction xs rule: rev_induct)
  case (snoc x xs)
  obtain a b where x: "x = (a, b)" by (cases x)
  have none: "filter (\<lambda>(k', _). k' = a) xs = []" if "a \<notin> fst ` set xs"
    using that by (force simp: filter_empty_conv)
  show ?case
  proof (cases "k = a")
    case True
    then show ?thesis using snoc none by (auto simp: x hm_bump_def wadd_def mod_add_left_eq)
  next
    case False
    then show ?thesis using snoc by (auto simp: x hm_bump_def)
  qed
qed simp

lemma hm_bump_fold_wf: "hm_wf (foldl (\<lambda>m (k, x). hm_bump w k x m) [] xs)"
  by (induction xs rule: rev_induct) (auto simp: hm_bump_def split: prod.splits)

text \<open>
  The interface the components use of a map: what a lookup returns after each operation, and that
  the operations keep the map well formed.
\<close>

locale finite_map =
  fixes get :: "'m \<Rightarrow> 'k \<Rightarrow> 'v option"
    and ins :: "'k \<Rightarrow> 'v \<Rightarrow> 'm \<Rightarrow> 'm"
    and ret :: "('k \<Rightarrow> 'v \<Rightarrow> bool) \<Rightarrow> 'm \<Rightarrow> 'm"
    and emp :: 'm
    and wf :: "'m \<Rightarrow> bool"
  assumes get_emp: "get emp k = None"
    and get_ins: "wf m \<Longrightarrow> get (ins k v m) k' = (if k' = k then Some v else get m k')"
    and get_ret: "wf m \<Longrightarrow>
       get (ret p m) k = (case get m k of None \<Rightarrow> None | Some v \<Rightarrow> if p k v then Some v else None)"
    and wf_emp: "wf emp"
    and wf_ins: "wf m \<Longrightarrow> wf (ins k v m)"
    and wf_ret: "wf m \<Longrightarrow> wf (ret p m)"
begin

lemma get_ret_keep: "wf m \<Longrightarrow> get m k = Some v \<Longrightarrow> p k v \<Longrightarrow> get (ret p m) k = Some v"
  by (simp add: get_ret)

lemma get_ret_drop: "wf m \<Longrightarrow> (\<And>v. get m k = Some v \<Longrightarrow> \<not> p k v) \<Longrightarrow> get (ret p m) k = None"
  by (auto simp: get_ret split: option.splits)

lemma get_ret_Some: "wf m \<Longrightarrow> get (ret p m) k = Some v \<Longrightarrow> get m k = Some v \<and> p k v"
  by (auto simp: get_ret split: option.splits if_splits)

end

interpretation hm: finite_map "hm_get" "hm_insert" "hm_retain" "[]" "hm_wf"
  by unfold_locales (auto simp: hm_get_retain)

section \<open>Runs of a state machine\<close>

text \<open>
  A component with a step function keeps an invariant over every run when each step does; the
  guarded form is for components whose caller promises something of each event.
\<close>

locale invariant_system =
  fixes step :: "'s \<Rightarrow> 'e \<Rightarrow> 's"
    and inv :: "'s \<Rightarrow> bool"
  assumes step_inv: "inv s \<Longrightarrow> inv (step s e)"
begin

lemma run_inv: "inv s \<Longrightarrow> inv (foldl step s es)"
  by (induction es arbitrary: s) (simp_all add: step_inv)

end

fun guarded_run :: "('s \<Rightarrow> 'e \<Rightarrow> 's) \<Rightarrow> ('s \<Rightarrow> 'e \<Rightarrow> bool) \<Rightarrow> 's \<Rightarrow> 'e list \<Rightarrow> bool" where
  "guarded_run step ok s [] = True"
| "guarded_run step ok s (e # es) = (ok s e \<and> guarded_run step ok (step s e) es)"

locale guarded_system =
  fixes step :: "'s \<Rightarrow> 'e \<Rightarrow> 's"
    and ok :: "'s \<Rightarrow> 'e \<Rightarrow> bool"
    and inv :: "'s \<Rightarrow> bool"
  assumes guarded_step: "inv s \<Longrightarrow> ok s e \<Longrightarrow> inv (step s e)"
begin

lemma guarded_inv: "inv s \<Longrightarrow> guarded_run step ok s es \<Longrightarrow> inv (foldl step s es)"
  by (induction es arbitrary: s) (simp_all add: guarded_step)

end

section \<open>Lists\<close>

lemma sum_list_filter_le: "sum_list (map f (filter P xs)) \<le> sum_list (map (f :: _ \<Rightarrow> nat) xs)"
  by (induction xs) auto

lemma sum_list_filter_split:
  "sum_list (map f (filter P xs)) + sum_list (map f (filter (\<lambda>x. \<not> P x) xs)) =
   sum_list (map (f :: _ \<Rightarrow> nat) xs)"
  by (induction xs) auto

lemma sum_list_distinct_le:
  assumes "distinct xs" "set xs \<subseteq> A" "finite A"
  shows "sum_list (map (f :: _ \<Rightarrow> nat) xs) \<le> sum f A"
  using assms sum_mono2 [of A "set xs" f] by (simp add: sum_list_distinct_conv_sum_set)

lemma sum_list_update_nat:
  "i < length xs \<Longrightarrow> sum_list (xs[i := x]) + xs ! i = sum_list xs + (x :: nat)"
  by (induction xs arbitrary: i) (auto split: nat.splits)

text \<open>The little-endian bytes of an integer, two's complement for the signed ones.\<close>

definition le_bytes :: "nat \<Rightarrow> int \<Rightarrow> bytes" where
  "le_bytes n x = map (\<lambda>i. word_of_int (x div 256 ^ i)) [0..<n]"

lemma length_le_bytes [simp]: "length (le_bytes n x) = n"
  by (simp add: le_bytes_def)

end
