(* ===== verification/Float64.thy ===== *)
theory Float64
  imports Complex_Main Trv1_Prelude
begin

text \<open>
  The \<^verbatim>\<open>f64\<close> arithmetic the source uses. A finite double is the rational number it denotes, and
  an operation rounds the exact result to the nearest double, ties to even. The values of the
  modelled code stay between the smallest subnormal and \<open>2 ^ 64 * 16\<close>, so the exponent range is
  bounded below only; infinities and NaN do not arise from finite operands here.

  Shown: the rounding error is at most half a unit in the last place (a relative \<open>2 ^ -53\<close> for
  normal values), integers up to \<open>2 ^ 53\<close> are exact, rounding keeps the sign.
\<close>

section \<open>Rounding\<close>

type_synonym f64 = rat

definition round_half_even :: "rat \<Rightarrow> rat" where
  "round_half_even x =
     (let f = \<lfloor>x\<rfloor>; d = x - of_int f in
      if d < 1 / 2 then of_int f
      else if 1 / 2 < d then of_int (f + 1)
      else if even f then of_int f else of_int (f + 1))"

text \<open>
  A magnitude below \<open>2 ^ 52\<close> is scaled up until its integer part has 53 bits or the exponent is at
  its minimum (\<open>n\<close> counts the remaining exponents), one at or above \<open>2 ^ 53\<close> is scaled down.
\<close>

fun rnd_small :: "nat \<Rightarrow> rat \<Rightarrow> rat" where
  "rnd_small 0 x = round_half_even x"
| "rnd_small (Suc n) x = (if x < 2 ^ 52 then rnd_small n (2 * x) / 2 else round_half_even x)"

function rnd_mag :: "rat \<Rightarrow> rat" where
  "rnd_mag x = (if x < 2 ^ 53 then rnd_small 1074 x else 2 * rnd_mag (x / 2))"
  by pat_completeness auto
termination
proof (relation "measure (\<lambda>x. nat \<lfloor>x\<rfloor>)")
  show "wf (measure (\<lambda>x :: rat. nat \<lfloor>x\<rfloor>))" by simp
next
  fix x :: rat assume "\<not> x < 2 ^ 53"
  then have x: "2 ^ 53 \<le> x" by simp
  have "\<lfloor>x / 2\<rfloor> < \<lfloor>x\<rfloor>"
  proof -
    have "of_int \<lfloor>x / 2\<rfloor> \<le> x / 2" by (rule of_int_floor_le)
    moreover have "x - 1 < of_int \<lfloor>x\<rfloor>" by linarith
    moreover have "x / 2 \<le> x - 1" using x by simp
    ultimately have "(of_int \<lfloor>x / 2\<rfloor> :: rat) < of_int \<lfloor>x\<rfloor>" by linarith
    then show ?thesis by simp
  qed
  then show "(x / 2, x) \<in> measure (\<lambda>x. nat \<lfloor>x\<rfloor>)" using x by simp
qed

declare rnd_mag.simps [simp del]

definition f64_round :: "rat \<Rightarrow> f64" where
  "f64_round x = (if x < 0 then - rnd_mag (- x) else rnd_mag x)"

section \<open>Operations\<close>

definition f64_of_nat :: "nat \<Rightarrow> f64" where
  "f64_of_nat n = f64_round (of_nat n)"

definition f64_add :: "f64 \<Rightarrow> f64 \<Rightarrow> f64" where
  "f64_add x y = f64_round (x + y)"

definition f64_sub :: "f64 \<Rightarrow> f64 \<Rightarrow> f64" where
  "f64_sub x y = f64_round (x - y)"

definition f64_mul :: "f64 \<Rightarrow> f64 \<Rightarrow> f64" where
  "f64_mul x y = f64_round (x * y)"

definition f64_div :: "f64 \<Rightarrow> f64 \<Rightarrow> f64" where
  "f64_div x y = f64_round (x / y)"

text \<open>
  \<^verbatim>\<open>as u64\<close> truncates and saturates; \<^verbatim>\<open>ceil\<close> and \<^verbatim>\<open>round\<close> (half away from zero) are exact on
  finite doubles.
\<close>

definition f64_to_u64 :: "f64 \<Rightarrow> u64" where
  "f64_to_u64 x = min (nat \<lfloor>x\<rfloor>) (umax 64)"

definition f64_ceil :: "f64 \<Rightarrow> f64" where
  "f64_ceil x = of_int \<lceil>x\<rceil>"

definition f64_nearest :: "f64 \<Rightarrow> f64" where
  "f64_nearest x = (if x < 0 then - of_int \<lfloor>- x + 1 / 2\<rfloor> else of_int \<lfloor>x + 1 / 2\<rfloor>)"

section \<open>Rounding error\<close>

lemma round_half_even_cases:
  "round_half_even x = of_int \<lfloor>x\<rfloor> \<and> x - of_int \<lfloor>x\<rfloor> \<le> 1 / 2 \<or>
   round_half_even x = of_int \<lfloor>x\<rfloor> + 1 \<and> 1 / 2 \<le> x - of_int \<lfloor>x\<rfloor>"
  by (auto simp: round_half_even_def Let_def)

lemma round_half_even_error: "\<bar>round_half_even x - x\<bar> \<le> 1 / 2"
proof -
  have "of_int \<lfloor>x\<rfloor> \<le> x" "x < of_int \<lfloor>x\<rfloor> + 1" by linarith+
  then show ?thesis using round_half_even_cases [of x] by linarith
qed

lemma round_half_even_int: "round_half_even (of_int k) = of_int k"
  by (simp add: round_half_even_def)

lemma round_half_even_nonneg: "0 \<le> x \<Longrightarrow> 0 \<le> round_half_even x"
  using round_half_even_cases [of x] by force

lemma rnd_small_nonneg: "0 \<le> x \<Longrightarrow> 0 \<le> rnd_small n x"
  by (induction n x rule: rnd_small.induct) (auto simp: round_half_even_nonneg)

lemma rnd_mag_nonneg: "0 \<le> x \<Longrightarrow> 0 \<le> rnd_mag x"
proof (induction x rule: rnd_mag.induct)
  case (1 x)
  then show ?case by (subst rnd_mag.simps) (auto simp: rnd_small_nonneg)
qed

lemma rel_of_half: "2 ^ 52 \<le> (x :: rat) \<Longrightarrow> \<bar>round_half_even x - x\<bar> \<le> x / 2 ^ 53"
  using round_half_even_error [of x] by simp

lemma rnd_small_error:
  "2 ^ 52 \<le> x * 2 ^ n \<Longrightarrow> 0 \<le> x \<Longrightarrow> \<bar>rnd_small n x - x\<bar> \<le> x / 2 ^ 53"
proof (induction n x rule: rnd_small.induct)
  case (1 x)
  then show ?case using rel_of_half [of x] by simp
next
  case (2 n x)
  show ?case
  proof (cases "x < 2 ^ 52")
    case True
    have "2 ^ 52 \<le> 2 * x * 2 ^ n" using "2.prems" by (simp add: mult.commute mult.left_commute)
    then have "\<bar>rnd_small n (2 * x) - 2 * x\<bar> \<le> 2 * x / 2 ^ 53"
      using "2.IH" [OF True] "2.prems" by simp
    then have "\<bar>rnd_small n (2 * x) / 2 - x\<bar> \<le> x / 2 ^ 53" by linarith
    then show ?thesis using True by simp
  next
    case False
    then show ?thesis using rel_of_half [of x] by simp
  qed
qed

text \<open>The smallest normal double.\<close>

definition f64_min_normal :: rat where
  "f64_min_normal = 1 / 2 ^ 1022"

lemma f64_min_normal_pos: "0 < f64_min_normal"
  unfolding f64_min_normal_def by (intro divide_pos_pos zero_less_power) simp_all

lemma f64_min_normal_small: "f64_min_normal \<le> 1 / 2 ^ 100"
  unfolding f64_min_normal_def
  by (intro divide_left_mono power_increasing mult_pos_pos zero_less_power) simp_all

lemma f64_min_normal_scaled: "f64_min_normal * 2 ^ 1074 = 2 ^ 52"
proof -
  have "(2 :: rat) ^ 1074 = 2 ^ 1022 * 2 ^ 52" by (simp only: power_add [symmetric]) simp
  moreover have "(2 :: rat) ^ 1022 \<noteq> 0" by (rule power_not_zero) simp
  ultimately show ?thesis
    by (metis f64_min_normal_def mult_1_left nonzero_mult_div_cancel_left times_divide_eq_left)
qed

lemma rnd_mag_error: "f64_min_normal \<le> x \<Longrightarrow> \<bar>rnd_mag x - x\<bar> \<le> x / 2 ^ 53"
proof (induction x rule: rnd_mag.induct)
  case (1 x)
  show ?case
  proof (cases "x < 2 ^ 53")
    case True
    have "(2 :: rat) ^ 52 = f64_min_normal * 2 ^ 1074"
      by (rule f64_min_normal_scaled [symmetric])
    also have "\<dots> \<le> x * 2 ^ 1074" using "1.prems" by (rule mult_right_mono) (rule zero_le_power, simp)
    finally have "2 ^ 52 \<le> x * 2 ^ 1074" .
    moreover have "0 \<le> x" using "1.prems" f64_min_normal_pos by linarith
    ultimately have "\<bar>rnd_small 1074 x - x\<bar> \<le> x / 2 ^ 53" by (rule rnd_small_error)
    then show ?thesis using True by (simp only: rnd_mag.simps [of x] if_True)
  next
    case False
    have "f64_min_normal \<le> x / 2" using False f64_min_normal_small by simp
    then have "\<bar>rnd_mag (x / 2) - x / 2\<bar> \<le> x / 2 / 2 ^ 53" by (rule "1.IH" [OF False])
    then have "\<bar>2 * rnd_mag (x / 2) - x\<bar> \<le> x / 2 ^ 53" by linarith
    then show ?thesis using False by (simp only: rnd_mag.simps [of x] if_False)
  qed
qed

lemma f64_round_0 [simp]: "f64_round 0 = 0"
proof -
  have "rnd_small n 0 = 0" for n
    by (induction n) (simp_all add: round_half_even_def)
  then show ?thesis by (simp add: f64_round_def rnd_mag.simps [of 0])
qed

lemma f64_round_minus [simp]: "f64_round (- x) = - f64_round x"
proof (cases "x = 0")
  case False
  then show ?thesis by (cases "x < 0") (simp_all add: f64_round_def)
qed simp

lemma f64_round_nonneg [simp]: "0 \<le> x \<Longrightarrow> 0 \<le> f64_round x"
  by (simp add: f64_round_def rnd_mag_nonneg)

lemma f64_round_error:
  "x = 0 \<or> f64_min_normal \<le> \<bar>x\<bar> \<Longrightarrow> \<bar>f64_round x - x\<bar> \<le> \<bar>x\<bar> / 2 ^ 53"
proof -
  assume a: "x = 0 \<or> f64_min_normal \<le> \<bar>x\<bar>"
  have p: "\<bar>f64_round y - y\<bar> \<le> y / 2 ^ 53" if "f64_min_normal \<le> y" for y
    using that rnd_mag_error [of y] f64_min_normal_pos by (simp add: f64_round_def)
  consider "x = 0" | "f64_min_normal \<le> x" | "f64_min_normal \<le> - x" "x < 0"
    using a by (cases "x < 0") auto
  then show ?thesis
  proof cases
    case 3
    then show ?thesis using p [of "- x"] by simp
  next
    case 2
    then show ?thesis using p [OF 2] f64_min_normal_pos by simp
  qed simp
qed

lemma f64_round_bounds:
  assumes "1 / 2 ^ 100 \<le> x"
  shows "x * (1 - 1 / 2 ^ 53) \<le> f64_round x" "f64_round x \<le> x * (1 + 1 / 2 ^ 53)"
proof -
  have x: "0 < x" using assms by (simp add: order_less_le_trans [rotated])
  have "f64_min_normal \<le> \<bar>x\<bar>" using f64_min_normal_small assms x by linarith
  then have "\<bar>f64_round x - x\<bar> \<le> x / 2 ^ 53"
    using f64_round_error [of x] x by simp
  then have "f64_round x - x \<le> x / 2 ^ 53" "x - f64_round x \<le> x / 2 ^ 53"
    by linarith+
  then show "x * (1 - 1 / 2 ^ 53) \<le> f64_round x" "f64_round x \<le> x * (1 + 1 / 2 ^ 53)"
    by (simp_all add: algebra_simps)
qed

text \<open>A coarse form of the rounding bounds, whose constants stay small.\<close>

lemma f64_round_coarse:
  assumes "1 / 1000000 \<le> x"
  shows "x * (999999 / 1000000) \<le> f64_round x" "f64_round x \<le> x * (1000001 / 1000000)"
proof -
  have "(1 :: rat) / 2 ^ 100 \<le> 1 / 1000000" by simp
  then have x: "1 / 2 ^ 100 \<le> x" using assms by (rule order_trans)
  have "x * (999999 / 1000000) \<le> x * (1 - 1 / 2 ^ 53)" using assms by (intro mult_left_mono) simp_all
  then show "x * (999999 / 1000000) \<le> f64_round x" using f64_round_bounds(1) [OF x] by (rule order_trans)
  have "x * (1 + 1 / 2 ^ 53) \<le> x * (1000001 / 1000000)" using assms by (intro mult_left_mono) simp_all
  with f64_round_bounds(2) [OF x] show "f64_round x \<le> x * (1000001 / 1000000)" by (rule order_trans)
qed

text \<open>The error of one rounding, with the unit roundoff as a symbol.\<close>

definition f64_ulp :: rat where
  "f64_ulp = 1 / 2 ^ 53"

lemma f64_ulp_bounds: "0 < f64_ulp" "f64_ulp \<le> 1 / 1000000"
  by (simp_all add: f64_ulp_def)

lemma f64_round_ulp:
  assumes "x = 0 \<or> 1 / 1000000000000 \<le> \<bar>x\<bar>"
  shows "\<bar>f64_round x - x\<bar> \<le> \<bar>x\<bar> * f64_ulp"
proof -
  have "(1 :: rat) / 2 ^ 100 \<le> 1 / 1000000000000" by simp
  then have "x = 0 \<or> f64_min_normal \<le> \<bar>x\<bar>" using assms f64_min_normal_small by linarith
  from f64_round_error [OF this] show ?thesis by (simp add: f64_ulp_def)
qed

text \<open>Below \<open>2 ^ 53\<close> a rounding moves by at most a half.\<close>

lemma rnd_small_half: "\<bar>rnd_small n x - x\<bar> \<le> 1 / 2"
proof (induction n x rule: rnd_small.induct)
  case (1 x)
  show ?case unfolding rnd_small.simps by (rule round_half_even_error)
next
  case (2 n x)
  show ?case
  proof (cases "x < 2 ^ 52")
    case True
    then show ?thesis using 2 [OF True] by (simp only: rnd_small.simps if_True)
  qed (simp only: rnd_small.simps if_False round_half_even_error)
qed

lemma f64_round_half:
  assumes "0 \<le> x" "x < 2 ^ 53"
  shows "f64_round x \<le> x + 1 / 2"
proof -
  have "f64_round x = rnd_small 1074 x" using assms by (simp add: f64_round_def rnd_mag.simps [of x])
  then show ?thesis using rnd_small_half [of 1074 x] by linarith
qed

section \<open>Exact integers\<close>

lemma rnd_small_int: "rnd_small n (of_int j) = of_int j"
proof (induction n arbitrary: j)
  case 0
  then show ?case by (simp add: round_half_even_int)
next
  case (Suc n)
  have "rnd_small n (2 * of_int j) = 2 * of_int j" using Suc [of "2 * j"] by simp
  then show ?case by (simp add: round_half_even_int)
qed

lemma f64_of_nat_exact: "n \<le> 2 ^ 53 \<Longrightarrow> f64_of_nat n = of_nat n"
proof -
  assume n: "n \<le> 2 ^ 53"
  have small: "rnd_small 1074 (of_nat m) = of_nat m" for m
    using rnd_small_int [of 1074 "int m"] by simp
  show ?thesis
  proof (cases "n = 2 ^ 53")
    case True
    have "rnd_mag (2 ^ 52) = 2 ^ 52"
      using small [of "2 ^ 52"] by (subst rnd_mag.simps) simp
    then have "rnd_mag (2 ^ 53) = 2 ^ 53" by (subst rnd_mag.simps) simp
    then show ?thesis using True by (simp add: f64_of_nat_def f64_round_def)
  next
    case False
    then have "of_nat n < (of_nat (2 ^ 53) :: rat)" using n by (simp only: of_nat_less_iff)
    then have "of_nat n < (2 ^ 53 :: rat)" by simp
    then show ?thesis using small [of n]
      by (simp add: f64_of_nat_def f64_round_def rnd_mag.simps [of "of_nat n"])
  qed
qed

lemma f64_of_nat_0 [simp]: "f64_of_nat 0 = 0"
  by (simp add: f64_of_nat_def)

lemma f64_of_nat_nonneg [simp]: "0 \<le> f64_of_nat n"
  by (simp add: f64_of_nat_def)

lemma f64_of_nat_bounds:
  "of_nat n * (1 - 1 / 2 ^ 53) \<le> f64_of_nat n" "f64_of_nat n \<le> of_nat n * (1 + 1 / 2 ^ 53)"
proof -
  have "of_nat n * (1 - 1 / 2 ^ 53) \<le> f64_of_nat n \<and> f64_of_nat n \<le> of_nat n * (1 + 1 / 2 ^ 53)"
  proof (cases "n = 0")
    case False
    then have "(1 :: rat) \<le> of_nat n" by simp
    then have "(1 :: rat) / 2 ^ 100 \<le> of_nat n" by simp
    then show ?thesis unfolding f64_of_nat_def using f64_round_bounds by blast
  qed simp
  then show "of_nat n * (1 - 1 / 2 ^ 53) \<le> f64_of_nat n" "f64_of_nat n \<le> of_nat n * (1 + 1 / 2 ^ 53)"
    by auto
qed

lemma f64_to_u64_le: "x < of_nat n + 1 \<Longrightarrow> f64_to_u64 x \<le> n"
proof -
  assume "x < of_nat n + 1"
  then have "\<lfloor>x\<rfloor> < int n + 1" by (subst floor_less_iff) simp
  then show ?thesis by (simp add: f64_to_u64_def)
qed

lemma f64_to_u64_upper: "0 \<le> x \<Longrightarrow> of_nat (f64_to_u64 x) \<le> x"
proof -
  assume "0 \<le> x"
  then have "of_nat (nat \<lfloor>x\<rfloor>) \<le> x" by (simp add: of_nat_nat)
  moreover have "(of_nat (f64_to_u64 x) :: rat) \<le> of_nat (nat \<lfloor>x\<rfloor>)"
    by (simp add: f64_to_u64_def)
  ultimately show ?thesis by (rule order_trans [rotated])
qed

lemma f64_to_u64_umax [simp]: "f64_to_u64 x \<le> umax 64"
  by (simp add: f64_to_u64_def)

section \<open>Evaluation on literals\<close>

lemma floor_rat_numeral [simp]:
  "\<lfloor>(numeral a / numeral b :: rat)\<rfloor> = numeral a div numeral b"
  "\<lfloor>(1 / numeral b :: rat)\<rfloor> = 1 div numeral b"
  by (metis floor_divide_of_int_eq of_int_numeral) (metis floor_divide_of_int_eq of_int_1 of_int_numeral)

lemma ceiling_rat_numeral [simp]:
  "\<lceil>(numeral a / numeral b :: rat)\<rceil> = - (- numeral a div numeral b)"
proof -
  have "\<lfloor>- (numeral a / numeral b :: rat)\<rfloor> = - numeral a div numeral b"
    using floor_divide_of_int_eq [of "- numeral a" "numeral b", where 'a = rat] by simp
  then show ?thesis by (simp add: ceiling_def)
qed

lemma rnd_small_unfold:
  "rnd_small n x =
     (if n = 0 \<or> 2 ^ 52 \<le> x then round_half_even x else rnd_small (n - 1) (2 * x) / 2)"
  by (cases n) auto

lemmas f64_eval = f64_round_def rnd_small_unfold round_half_even_def Let_def

end
