(* ===== verification/Bft_Types.thy ===== *)
theory Bft_Types
  imports Float64
begin

text \<open>
  The data of the consensus protocol: \<^verbatim>\<open>consensus-bft/src/config.rs\<close> (parameters and their
  validation) and \<^verbatim>\<open>consensus-bft/src/types.rs\<close> (messages, blocks, the per-height state).

  The SHA-256 of \<^verbatim>\<open>ProposedBlock::hash\<close> lives in an external crate: it is the parameter \<open>hashv\<close>
  of \<open>block_hash\<close>. Transactions are kept as their serialised bytes; the engine never looks inside.
\<close>

section \<open>Configuration\<close>

record BftConfig =
  block_time_ms :: u64
  prevote_timeout_ms :: u64
  precommit_timeout_ms :: u64
  finality_threshold :: f64
  max_rounds_per_height :: u32
  propose_timeout_base_ms :: u64
  propose_timeout_delta_ms :: u64

datatype ConfigError = InvalidBlockTime | InvalidFinalityThreshold f64 | InvalidMaxRounds

definition BftConfig_default :: BftConfig where
  "BftConfig_default =
     \<lparr> block_time_ms = 1000, prevote_timeout_ms = 1000, precommit_timeout_ms = 1000,
       finality_threshold = f64_round (667 / 1000), max_rounds_per_height = 5,
       propose_timeout_base_ms = 3000, propose_timeout_delta_ms = 500 \<rparr>"

definition propose_timeout :: "BftConfig \<Rightarrow> u32 \<Rightarrow> u64" where
  "propose_timeout c r =
     wadd 64 (propose_timeout_base_ms c) (wmul 64 (propose_timeout_delta_ms c) r)"

definition config_validate :: "BftConfig \<Rightarrow> ConfigError + unit" where
  "config_validate c =
     (if block_time_ms c = 0 then Inl InvalidBlockTime
      else if finality_threshold c < 1 / 2 \<or> finality_threshold c > 1
        then Inl (InvalidFinalityThreshold (finality_threshold c))
      else if max_rounds_per_height c = 0 then Inl InvalidMaxRounds
      else Inr ())"

section \<open>Blocks and messages\<close>

record ProposedBlock =
  parent_hash :: hash
  blk_height :: u64
  timestamp :: i64
  transactions :: "bytes list"
  state_root :: hash
  blk_proposer :: pubkey

definition block_hash :: "(bytes list \<Rightarrow> hash) \<Rightarrow> ProposedBlock \<Rightarrow> hash" where
  "block_hash hashv b =
     hashv [parent_hash b, le_bytes 8 (int (blk_height b)), le_bytes 8 (timestamp b),
            state_root b, blk_proposer b]"

record CommittedBlock =
  cb_block :: ProposedBlock
  commit_signatures :: "(pubkey \<times> signature) list"
  commit_round :: u32

datatype ConsensusMessage =
    Proposal (msg_height: u64) (msg_round: u32) (msg_block: ProposedBlock) (msg_proposer: pubkey)
      (msg_signature: signature) (msg_valid_round: "u32 option")
  | Prevote (msg_height: u64) (msg_round: u32) (msg_hash: "hash option") (msg_voter: pubkey)
      (msg_signature: signature)
  | Precommit (msg_height: u64) (msg_round: u32) (msg_hash: "hash option") (msg_voter: pubkey)
      (msg_signature: signature)

definition msg_sender :: "ConsensusMessage \<Rightarrow> pubkey" where
  "msg_sender m = (case m of Proposal _ _ _ p _ _ \<Rightarrow> p | Prevote _ _ _ v _ \<Rightarrow> v | Precommit _ _ _ v _ \<Rightarrow> v)"

section \<open>Steps and state\<close>

datatype ConsensusStep = NewRound | Propose | PrevoteStep | PrecommitStep | Commit

fun step_ord :: "ConsensusStep \<Rightarrow> nat" where
  "step_ord NewRound = 0"
| "step_ord Propose = 1"
| "step_ord PrevoteStep = 2"
| "step_ord PrecommitStep = 3"
| "step_ord Commit = 4"

instantiation ConsensusStep :: linorder
begin

definition less_eq_ConsensusStep :: "ConsensusStep \<Rightarrow> ConsensusStep \<Rightarrow> bool" where
  "less_eq_ConsensusStep s t \<longleftrightarrow> step_ord s \<le> step_ord t"

definition less_ConsensusStep :: "ConsensusStep \<Rightarrow> ConsensusStep \<Rightarrow> bool" where
  "less_ConsensusStep s t \<longleftrightarrow> step_ord s < step_ord t"

instance
proof
  fix x y z :: ConsensusStep
  show "x < y \<longleftrightarrow> x \<le> y \<and> \<not> y \<le> x"
    by (auto simp: less_eq_ConsensusStep_def less_ConsensusStep_def)
  show "x \<le> x" "x \<le> y \<Longrightarrow> y \<le> z \<Longrightarrow> x \<le> z" "x \<le> y \<or> y \<le> x"
    by (auto simp: less_eq_ConsensusStep_def)
  show "x \<le> y \<Longrightarrow> y \<le> x \<Longrightarrow> x = y"
    by (cases x; cases y) (auto simp: less_eq_ConsensusStep_def)
qed

end

lemmas ConsensusStep_order = less_eq_ConsensusStep_def less_ConsensusStep_def

record ConsensusState =
  height :: u64
  cround :: u32
  cstep :: ConsensusStep
  locked_value :: "hash option"
  locked_round :: "u32 option"
  valid_value :: "hash option"
  valid_round :: "u32 option"
  prevotes :: "(pubkey, hash option) hashmap"
  precommits :: "(pubkey, hash option) hashmap"
  proposal :: "ProposedBlock option"

definition ConsensusState_new :: "u64 \<Rightarrow> ConsensusState" where
  "ConsensusState_new h =
     \<lparr> height = h, cround = 0, cstep = NewRound, locked_value = None, locked_round = None,
       valid_value = None, valid_round = None, prevotes = [], precommits = [], proposal = None \<rparr>"

definition advance_round :: "u32 \<Rightarrow> ConsensusState \<Rightarrow> ConsensusState" where
  "advance_round new_round s =
     s\<lparr> cround := new_round, cstep := NewRound, prevotes := [], precommits := [], proposal := None \<rparr>"

lemma advance_round_sel [simp]:
  "height (advance_round r s) = height s" "cround (advance_round r s) = r"
  "cstep (advance_round r s) = NewRound" "prevotes (advance_round r s) = []"
  "precommits (advance_round r s) = []" "proposal (advance_round r s) = None"
  "locked_value (advance_round r s) = locked_value s"
  "locked_round (advance_round r s) = locked_round s"
  "valid_value (advance_round r s) = valid_value s"
  "valid_round (advance_round r s) = valid_round s"
  by (simp_all add: advance_round_def)

lemma ConsensusState_new_sel [simp]:
  "height (ConsensusState_new h) = h" "cround (ConsensusState_new h) = 0"
  "cstep (ConsensusState_new h) = NewRound" "prevotes (ConsensusState_new h) = []"
  "precommits (ConsensusState_new h) = []" "proposal (ConsensusState_new h) = None"
  "locked_value (ConsensusState_new h) = None" "locked_round (ConsensusState_new h) = None"
  by (simp_all add: ConsensusState_new_def)

section \<open>The default threshold\<close>

definition default_threshold :: f64 where
  "default_threshold = finality_threshold BftConfig_default"

lemma default_threshold_value: "default_threshold = 3003900951456121 / 4503599627370496"
  by (simp add: default_threshold_def BftConfig_default_def f64_eval rnd_mag.simps [of "667 / 1000"])

lemma default_threshold_bounds: "2 / 3 + 1 / 4000 < default_threshold" "default_threshold < 1"
  by (simp_all add: default_threshold_value)

end
