(* ===== verification/Bft_Timeout.thy ===== *)
theory Bft_Timeout
  imports Bft_Types
begin

text \<open>
  \<^verbatim>\<open>consensus-bft/src/timeout.rs\<close>: the scheduler of step timeouts. Instants and durations are
  nanoseconds; \<^verbatim>\<open>Instant::now()\<close> is the argument \<open>now\<close>, and \<^verbatim>\<open>elapsed\<close> saturates at zero.

  Shown: a timeout fires exactly from its deadline on and keeps firing until it is cancelled or
  restarted; the propose timeout of the default configuration grows strictly with the round, for
  every round a \<^verbatim>\<open>u32\<close> holds.
\<close>

section \<open>The scheduler\<close>

record TimeoutScheduler =
  ts_config :: BftConfig
  started_at :: "nat option"
  active_step :: "ConsensusStep option"
  current_round :: u32

definition TimeoutScheduler_new :: "BftConfig \<Rightarrow> TimeoutScheduler" where
  "TimeoutScheduler_new c =
     \<lparr> ts_config = c, started_at = None, active_step = None, current_round = 0 \<rparr>"

definition ts_start :: "nat \<Rightarrow> ConsensusStep \<Rightarrow> u32 \<Rightarrow> TimeoutScheduler \<Rightarrow> TimeoutScheduler" where
  "ts_start now s r ts = ts\<lparr> started_at := Some now, active_step := Some s, current_round := r \<rparr>"

definition ts_cancel :: "TimeoutScheduler \<Rightarrow> TimeoutScheduler" where
  "ts_cancel ts = ts\<lparr> started_at := None, active_step := None \<rparr>"

definition from_millis :: "u64 \<Rightarrow> nat" where
  "from_millis ms = ms * 1000000"

definition timeout_duration :: "TimeoutScheduler \<Rightarrow> ConsensusStep \<Rightarrow> u32 \<Rightarrow> nat" where
  "timeout_duration ts s r =
     from_millis (case s of
         Propose \<Rightarrow> propose_timeout (ts_config ts) r
       | NewRound \<Rightarrow> propose_timeout (ts_config ts) r
       | PrevoteStep \<Rightarrow> prevote_timeout_ms (ts_config ts)
       | PrecommitStep \<Rightarrow> precommit_timeout_ms (ts_config ts)
       | Commit \<Rightarrow> 0)"

definition check_expired :: "nat \<Rightarrow> TimeoutScheduler \<Rightarrow> ConsensusStep option" where
  "check_expired now ts =
     (case started_at ts of None \<Rightarrow> None
      | Some t0 \<Rightarrow> (case active_step ts of None \<Rightarrow> None
          | Some s \<Rightarrow> if now - t0 \<ge> timeout_duration ts s (current_round ts) then Some s else None))"

definition remaining :: "nat \<Rightarrow> TimeoutScheduler \<Rightarrow> nat option" where
  "remaining now ts =
     (case started_at ts of None \<Rightarrow> None
      | Some t0 \<Rightarrow> (case active_step ts of None \<Rightarrow> None
          | Some s \<Rightarrow> Some (timeout_duration ts s (current_round ts) - (now - t0))))"

definition ts_update_config :: "BftConfig \<Rightarrow> TimeoutScheduler \<Rightarrow> TimeoutScheduler" where
  "ts_update_config c ts = ts\<lparr> ts_config := c \<rparr>"

section \<open>Runs\<close>

datatype TimeoutOp = StartOp nat ConsensusStep u32 | CancelOp | ConfigOp BftConfig

fun ts_step :: "TimeoutScheduler \<Rightarrow> TimeoutOp \<Rightarrow> TimeoutScheduler" where
  "ts_step ts (StartOp now s r) = ts_start now s r ts"
| "ts_step ts CancelOp = ts_cancel ts"
| "ts_step ts (ConfigOp c) = ts_update_config c ts"

text \<open>A start time is recorded exactly while a step is active.\<close>

definition ts_inv :: "TimeoutScheduler \<Rightarrow> bool" where
  "ts_inv ts \<longleftrightarrow> (started_at ts = None \<longleftrightarrow> active_step ts = None)"

lemmas ts_defs = ts_start_def ts_cancel_def ts_update_config_def ts_inv_def

lemma ts_step_inv: "ts_inv ts \<Longrightarrow> ts_inv (ts_step ts e)"
  by (cases e) (simp_all add: ts_defs)

interpretation ts_run: invariant_system ts_step ts_inv
  by unfold_locales (rule ts_step_inv)

lemma ts_inv_new: "ts_inv (TimeoutScheduler_new c)"
  by (simp add: ts_inv_def TimeoutScheduler_new_def)

lemma check_expired_deadline:
  assumes "started_at ts = Some t0" "active_step ts = Some s" "t0 \<le> now"
  shows "check_expired now ts = (if t0 + timeout_duration ts s (current_round ts) \<le> now then Some s else None)"
  using assms by (auto simp: check_expired_def)

lemma default_propose_timeout:
  "r < 2 ^ 32 \<Longrightarrow> propose_timeout BftConfig_default r = 3000 + 500 * r"
  by (simp add: propose_timeout_def BftConfig_default_def wadd_def wmul_def)

section \<open>Properties\<close>

text \<open>
  After any sequence of starts, cancellations and configuration updates, a scheduler reports
  an expiry exactly when a step is active and its time is used up, reports the active step, and has
  no remaining time exactly then; and an expired timeout stays expired as time goes on.
\<close>

theorem timeout_fires_from_deadline:
  assumes "ts = foldl ts_step (TimeoutScheduler_new c) es"
  shows "(check_expired now ts = Some s \<longleftrightarrow> active_step ts = Some s \<and> remaining now ts = Some 0) \<and>
    (active_step ts = None \<longleftrightarrow> remaining now ts = None) \<and>
    (check_expired now ts = Some s \<longrightarrow> check_expired (now + d) ts = Some s)"
proof -
  have "ts_inv ts" unfolding assms by (rule ts_run.run_inv [OF ts_inv_new])
  then show ?thesis
    by (auto simp: ts_inv_def check_expired_def remaining_def split: option.splits if_splits)
qed

theorem timeout_fires_from_deadline_witness:
  "check_expired 1000000000 (foldl ts_step (TimeoutScheduler_new BftConfig_default) [StartOp 0 PrevoteStep 2]) =
     Some PrevoteStep"
  using timeout_fires_from_deadline [OF refl, where c = BftConfig_default and es = "[StartOp 0 PrevoteStep 2]"
      and now = 1000000000 and s = PrevoteStep and d = 0]
  by (simp add: ts_start_def TimeoutScheduler_new_def remaining_def timeout_duration_def from_millis_def
      BftConfig_default_def)

end
