(* ===== verification/Validator_Set.thy ===== *)
theory Validator_Set
  imports Bft_Types
begin

text \<open>
  \<^verbatim>\<open>consensus-bft/src/validator_set.rs\<close> and \<^verbatim>\<open>consensus-bft/src/proposer.rs\<close>: the weighted validator
  set, the quorum computed from a floating-point threshold, and the proposer of a round.

  Shown: the constructors keep the set sorted, without duplicates and consistent with its index,
  and \<open>upsert\<close> refines the update of a stake map; the quorum of the default threshold lies strictly
  above two thirds of the stake and never above all of it, for every total a \<^verbatim>\<open>u64\<close> holds; a
  validator proposes in exactly as many of \<open>total_stake\<close> consecutive heights as it has stake.
\<close>

section \<open>Validators\<close>

record ValidatorInfo =
  vi_pubkey :: pubkey
  vi_stake :: u64

record ValidatorSet =
  validators :: "ValidatorInfo list"
  vs_index :: "(pubkey, nat) hashmap"
  total_stake :: u64

text \<open>Stake descending, then public key ascending; \<^verbatim>\<open>sort_by\<close> and \<open>sort_key\<close> are both stable.\<close>

definition validator_key :: "ValidatorInfo \<Rightarrow> int \<times> pubkey" where
  "validator_key v = (- int (vi_stake v), vi_pubkey v)"

definition build_index :: "ValidatorInfo list \<Rightarrow> (pubkey, nat) hashmap" where
  "build_index infos =
     foldl (\<lambda>m (i, v). hm_insert (vi_pubkey v) i m) [] (zip [0..<length infos] infos)"

definition ValidatorSet_of :: "ValidatorInfo list \<Rightarrow> ValidatorSet" where
  "ValidatorSet_of infos =
     \<lparr> validators = infos, vs_index = build_index infos,
       total_stake = wsum 64 (map vi_stake infos) \<rparr>"

definition ValidatorSet_new :: "(pubkey \<times> u64) list \<Rightarrow> ValidatorSet" where
  "ValidatorSet_new vs =
     (let infos = map (\<lambda>(pk, s). \<lparr> vi_pubkey = pk, vi_stake = s \<rparr>) (filter (\<lambda>(_, s). s > 0) vs)
      in ValidatorSet_of (sort_key validator_key infos))"

definition vs_len :: "ValidatorSet \<Rightarrow> nat" where
  "vs_len vs = length (validators vs)"

definition vs_is_empty :: "ValidatorSet \<Rightarrow> bool" where
  "vs_is_empty vs \<longleftrightarrow> validators vs = []"

definition vs_get :: "ValidatorSet \<Rightarrow> nat \<Rightarrow> ValidatorInfo option" where
  "vs_get vs i = (if i < length (validators vs) then Some (validators vs ! i) else None)"

definition get_by_pubkey :: "ValidatorSet \<Rightarrow> pubkey \<Rightarrow> ValidatorInfo option" where
  "get_by_pubkey vs pk = map_option (\<lambda>i. validators vs ! i) (hm_get (vs_index vs) pk)"

definition stake_of :: "ValidatorSet \<Rightarrow> pubkey \<Rightarrow> u64" where
  "stake_of vs pk = (case map_option vi_stake (get_by_pubkey vs pk) of None \<Rightarrow> 0 | Some s \<Rightarrow> s)"

definition vs_contains :: "ValidatorSet \<Rightarrow> pubkey \<Rightarrow> bool" where
  "vs_contains vs pk \<longleftrightarrow> hm_get (vs_index vs) pk \<noteq> None"

definition quorum_stake :: "ValidatorSet \<Rightarrow> f64 \<Rightarrow> u64" where
  "quorum_stake vs threshold =
     (let q = f64_to_u64 (f64_ceil (f64_mul (f64_of_nat (total_stake vs)) threshold)) in max q 1)"

definition vs_pubkeys :: "ValidatorSet \<Rightarrow> pubkey list" where
  "vs_pubkeys vs = map vi_pubkey (validators vs)"

definition upsert :: "pubkey \<Rightarrow> u64 \<Rightarrow> ValidatorSet \<Rightarrow> ValidatorSet" where
  "upsert pk s vs =
     (let kept = filter (\<lambda>v. vi_pubkey v \<noteq> pk) (validators vs);
          pushed = (if s > 0 then kept @ [\<lparr> vi_pubkey = pk, vi_stake = s \<rparr>] else kept)
      in ValidatorSet_of (sort_key validator_key pushed))"

definition vs_remove :: "pubkey \<Rightarrow> ValidatorSet \<Rightarrow> ValidatorSet" where
  "vs_remove pk vs = upsert pk 0 vs"

section \<open>Proposer selection\<close>

fun walk_stakes :: "u64 \<Rightarrow> u64 \<Rightarrow> ValidatorInfo list \<Rightarrow> pubkey option" where
  "walk_stakes target acc [] = None"
| "walk_stakes target acc (v # vs) =
     (let acc' = sat_add 64 acc (vi_stake v)
      in if acc' > target then Some (vi_pubkey v) else walk_stakes target acc' vs)"

definition proposer_for_round :: "ValidatorSet \<Rightarrow> u64 \<Rightarrow> u32 \<Rightarrow> pubkey option" where
  "proposer_for_round vs h r =
     (if vs_is_empty vs \<or> total_stake vs = 0 then None
      else let seed = wadd 64 h r; target = seed mod total_stake vs in
        (case walk_stakes target 0 (validators vs) of
           Some p \<Rightarrow> Some p
         | None \<Rightarrow> map_option vi_pubkey (vs_get vs 0)))"

definition is_proposer :: "ValidatorSet \<Rightarrow> pubkey \<Rightarrow> u64 \<Rightarrow> u32 \<Rightarrow> bool" where
  "is_proposer vs identity h r =
     (case proposer_for_round vs h r of Some p \<Rightarrow> p = identity | None \<Rightarrow> False)"

section \<open>The index\<close>

lemma build_index_Nil [simp]: "build_index [] = []"
  by (simp add: build_index_def)

lemma build_index_snoc:
  "build_index (vs @ [v]) = hm_insert (vi_pubkey v) (length vs) (build_index vs)"
  by (simp add: build_index_def)

lemma build_index_wf: "hm_wf (build_index vs)"
  by (induction vs rule: rev_induct) (auto simp: build_index_snoc)

lemma build_index_dom: "hm_get (build_index vs) pk = None \<longleftrightarrow> pk \<notin> vi_pubkey ` set vs"
  by (induction vs rule: rev_induct) (auto simp: build_index_snoc)

lemma build_index_range:
  "hm_get (build_index vs) pk = Some i \<Longrightarrow> i < length vs \<and> vi_pubkey (vs ! i) = pk"
proof (induction vs arbitrary: i rule: rev_induct)
  case (snoc v vs)
  then show ?case
    by (cases "pk = vi_pubkey v") (auto simp: build_index_snoc nth_append split: if_splits)
qed simp

section \<open>Well-formed sets\<close>

definition vs_wf :: "ValidatorSet \<Rightarrow> bool" where
  "vs_wf vs \<longleftrightarrow>
     vs = ValidatorSet_of (validators vs) \<and>
     distinct (vs_pubkeys vs) \<and>
     sorted (map validator_key (validators vs)) \<and>
     (\<forall>v \<in> set (validators vs). 0 < vi_stake v)"

text \<open>The stakes add up to a \<^verbatim>\<open>u64\<close>, as the token supply guarantees.\<close>

definition vs_fits :: "ValidatorSet \<Rightarrow> bool" where
  "vs_fits vs \<longleftrightarrow> sum_list (map vi_stake (validators vs)) < 2 ^ 64"

lemma ValidatorSet_of_sel [simp]:
  "validators (ValidatorSet_of vs) = vs" "vs_index (ValidatorSet_of vs) = build_index vs"
  "total_stake (ValidatorSet_of vs) = wsum 64 (map vi_stake vs)"
  by (simp_all add: ValidatorSet_of_def)

lemma vs_wf_sel:
  assumes "vs_wf vs"
  shows "vs_index vs = build_index (validators vs)"
    "total_stake vs = wsum 64 (map vi_stake (validators vs))"
    "distinct (map vi_pubkey (validators vs))"
    "\<And>v. v \<in> set (validators vs) \<Longrightarrow> 0 < vi_stake v"
proof -
  have "vs = ValidatorSet_of (validators vs)" using assms by (simp add: vs_wf_def)
  then show "vs_index vs = build_index (validators vs)"
    "total_stake vs = wsum 64 (map vi_stake (validators vs))"
    by (metis ValidatorSet_of_sel(2), metis ValidatorSet_of_sel(3))
qed (use assms in \<open>auto simp: vs_wf_def vs_pubkeys_def\<close>)

lemma distinct_map_sort_key: "distinct (map f (sort_key k xs)) \<longleftrightarrow> distinct (map f xs)"
proof -
  have "mset (map f (sort_key k xs)) = mset (map f xs)" by simp
  then show ?thesis by (metis mset_eq_imp_distinct_iff)
qed

lemma vs_wf_sort:
  assumes "distinct (map vi_pubkey infos)" "\<forall>v \<in> set infos. 0 < vi_stake v"
  shows "vs_wf (ValidatorSet_of (sort_key validator_key infos))"
  using assms by (simp add: vs_wf_def vs_pubkeys_def distinct_map_sort_key)

lemma map_pk_filter:
  "map vi_pubkey (map (\<lambda>(pk, s). \<lparr> vi_pubkey = pk, vi_stake = s \<rparr>) (filter P vs)) = map fst (filter P vs)"
  by auto

lemma distinct_map_filter_fst: "distinct (map fst vs) \<Longrightarrow> distinct (map fst (filter P vs))"
  by (rule distinct_map_filter)

lemma ValidatorSet_new_wf: "distinct (map fst vs) \<Longrightarrow> vs_wf (ValidatorSet_new vs)"
  unfolding ValidatorSet_new_def Let_def
  by (rule vs_wf_sort) (auto simp only: map_pk_filter distinct_map_filter_fst, auto)

lemma upsert_wf: "vs_wf vs \<Longrightarrow> vs_wf (upsert pk s vs)"
  unfolding upsert_def Let_def
  by (rule vs_wf_sort) (auto simp: vs_wf_def vs_pubkeys_def distinct_map_filter)

lemma vs_contains_iff: "vs_wf vs \<Longrightarrow> vs_contains vs pk \<longleftrightarrow> pk \<in> set (vs_pubkeys vs)"
  by (auto simp: vs_contains_def vs_wf_sel build_index_dom vs_pubkeys_def
      dest!: build_index_range)

lemma stake_of_none: "vs_wf vs \<Longrightarrow> pk \<notin> set (vs_pubkeys vs) \<Longrightarrow> stake_of vs pk = 0"
  using build_index_dom [of "validators vs" pk]
  by (simp add: stake_of_def get_by_pubkey_def vs_wf_sel vs_pubkeys_def)

lemma stake_of_member:
  assumes "vs_wf vs" "v \<in> set (validators vs)"
  shows "stake_of vs (vi_pubkey v) = vi_stake v"
proof -
  obtain i where i: "hm_get (vs_index vs) (vi_pubkey v) = Some i"
    using assms build_index_dom [of "validators vs" "vi_pubkey v"] by (auto simp: vs_wf_sel)
  then have "i < length (validators vs)" "vi_pubkey (validators vs ! i) = vi_pubkey v"
    using build_index_range assms by (auto simp: vs_wf_sel)
  then have "validators vs ! i = v"
    using assms(2) vs_wf_sel(3) [OF assms(1)] by (meson distinct_map inj_onD nth_mem)
  then show ?thesis using i by (simp add: stake_of_def get_by_pubkey_def)
qed

lemma stake_of_pos: "vs_wf vs \<Longrightarrow> 0 < stake_of vs pk \<longleftrightarrow> pk \<in> set (vs_pubkeys vs)"
  using stake_of_none [of vs pk]
  by (cases "pk \<in> set (vs_pubkeys vs)") (auto simp: vs_pubkeys_def stake_of_member vs_wf_sel(4))

lemma total_stake_sum:
  assumes "vs_wf vs" "vs_fits vs"
  shows "total_stake vs = (\<Sum>pk \<in> set (vs_pubkeys vs). stake_of vs pk)"
proof -
  have "total_stake vs = sum_list (map vi_stake (validators vs))"
    using assms by (simp add: vs_wf_sel wsum_exact vs_fits_def)
  also have "\<dots> = sum_list (map (stake_of vs) (vs_pubkeys vs))"
    using stake_of_member [OF assms(1)] by (auto simp: vs_pubkeys_def intro!: arg_cong [of _ _ sum_list])
  also have "\<dots> = (\<Sum>pk \<in> set (vs_pubkeys vs). stake_of vs pk)"
    using assms(1) by (simp add: sum_list_distinct_conv_sum_set vs_wf_def)
  finally show ?thesis .
qed

section \<open>Upsert refines a stake map\<close>

lemma validators_upsert:
  "set (validators (upsert pk s vs)) =
     {v \<in> set (validators vs). vi_pubkey v \<noteq> pk} \<union>
     (if 0 < s then {\<lparr> vi_pubkey = pk, vi_stake = s \<rparr>} else {})"
  by (auto simp: upsert_def Let_def)

lemma stake_of_upsert:
  assumes "vs_wf vs"
  shows "stake_of (upsert pk s vs) = (stake_of vs)(pk := s)"
proof
  fix k
  have wf: "vs_wf (upsert pk s vs)" by (rule upsert_wf [OF assms])
  show "stake_of (upsert pk s vs) k = ((stake_of vs)(pk := s)) k"
  proof (cases "k \<in> set (vs_pubkeys (upsert pk s vs))")
    case True
    then obtain v where v: "v \<in> set (validators (upsert pk s vs))" "k = vi_pubkey v"
      by (auto simp: vs_pubkeys_def)
    then show ?thesis using stake_of_member [OF wf v(1)] stake_of_member [OF assms]
      by (auto simp: validators_upsert split: if_splits)
  next
    case False
    have "k \<notin> set (vs_pubkeys vs)" if "k \<noteq> pk"
      using False that by (auto simp: vs_pubkeys_def validators_upsert)
    moreover have "s = 0" if "k = pk"
      using False that by (auto simp: vs_pubkeys_def validators_upsert split: if_splits)
    ultimately show ?thesis using False stake_of_none [OF wf] stake_of_none [OF assms] by auto
  qed
qed

section \<open>The quorum\<close>

lemma quorum_pos [simp]: "0 < quorum_stake vs th"
  by (simp add: quorum_stake_def Let_def)

lemma f64_ceil_to_u64:
  assumes "0 \<le> x" "x \<le> of_nat n" "n \<le> umax 64"
  shows "f64_to_u64 (f64_ceil x) = nat \<lceil>x\<rceil>" "nat \<lceil>x\<rceil> \<le> n"
proof -
  have "\<lceil>x\<rceil> \<le> int n" using assms(2) by (subst ceiling_le_iff) simp
  then show "nat \<lceil>x\<rceil> \<le> n" by simp
  then show "f64_to_u64 (f64_ceil x) = nat \<lceil>x\<rceil>"
    using assms(3) by (simp add: f64_to_u64_def f64_ceil_def)
qed

lemma default_product_bounds:
  assumes "0 < t"
  shows "of_nat t * (2 / 3) < f64_mul (f64_of_nat t) default_threshold"
    "f64_mul (f64_of_nat t) default_threshold \<le> of_nat t"
proof -
  define u :: rat where "u = of_nat t"
  define f where "f = f64_of_nat t"
  define c where "c = default_threshold"
  have u: "1 \<le> u" using assms by (simp add: u_def)
  have c: "8003 / 12000 \<le> c" "c \<le> 668 / 1000"
    by (simp_all add: c_def default_threshold_value)
  have f: "u * (999999 / 1000000) \<le> f" "f \<le> u * (1000001 / 1000000)"
    using f64_round_coarse [of u] u by (simp_all add: u_def f_def f64_of_nat_def)
  have p: "u * (999999 / 1000000) * (8003 / 12000) \<le> f * c"
    "f * c \<le> u * (1000001 / 1000000) * (668 / 1000)"
    by (rule mult_mono [OF f(1) c(1)], use f(1) u in linarith, simp)
      (rule mult_mono [OF f(2) c(2)], use u c(1) in simp_all)
  have "1 / 1000000 \<le> f * c" using p(1) u by linarith
  note r = f64_round_coarse [OF this]
  show "of_nat t * (2 / 3) < f64_mul (f64_of_nat t) default_threshold"
    using p(1) r(1) u unfolding f64_mul_def u_def [symmetric] f_def [symmetric] c_def [symmetric]
    by linarith
  show "f64_mul (f64_of_nat t) default_threshold \<le> of_nat t"
    using p(2) r(2) u unfolding f64_mul_def u_def [symmetric] f_def [symmetric] c_def [symmetric]
    by linarith
qed

lemma quorum_default_bounds:
  assumes "0 < total_stake vs" "total_stake vs < 2 ^ 64"
  shows "2 * total_stake vs < 3 * quorum_stake vs default_threshold"
    "quorum_stake vs default_threshold \<le> total_stake vs"
proof -
  let ?t = "total_stake vs" and ?m = "f64_mul (f64_of_nat (total_stake vs)) default_threshold"
  note m = default_product_bounds [OF assms(1)]
  have m0: "0 \<le> ?m" using m(1) by (rule order_trans [OF _ less_imp_le, rotated]) simp
  have u: "?t \<le> umax 64" using assms(2) by (simp add: umax_def)
  have q: "quorum_stake vs default_threshold = max (nat \<lceil>?m\<rceil>) 1"
    using f64_ceil_to_u64(1) [OF m0 m(2) u] by (simp add: quorum_stake_def Let_def)
  show "quorum_stake vs default_threshold \<le> ?t"
    unfolding q using f64_ceil_to_u64(2) [OF m0 m(2) u] assms(1) by simp
  have "of_nat ?t * (2 / 3) < (of_int \<lceil>?m\<rceil> :: rat)" using m(1) le_of_int_ceiling [of ?m] by linarith
  then have "(of_int (2 * int ?t) :: rat) < of_int (3 * \<lceil>?m\<rceil>)" by simp
  then have "2 * int ?t < 3 * \<lceil>?m\<rceil>" by (simp only: of_int_less_iff)
  then show "2 * ?t < 3 * quorum_stake vs default_threshold" unfolding q by linarith
qed

section \<open>Weighted quorums\<close>

text \<open>
  What the protocol needs of a validator set: two sets of voters that both reach the quorum share
  voters whose weight is more than a third of the total.
\<close>

locale weighted_quorum =
  fixes members :: "'vs \<Rightarrow> 'k set"
    and weight :: "'vs \<Rightarrow> 'k \<Rightarrow> nat"
    and total :: "'vs \<Rightarrow> nat"
    and quorum :: "'vs \<Rightarrow> nat"
    and ok :: "'vs \<Rightarrow> bool"
  assumes members_finite: "ok vs \<Longrightarrow> finite (members vs)"
    and total_weight: "ok vs \<Longrightarrow> total vs = sum (weight vs) (members vs)"
    and outside_weight: "ok vs \<Longrightarrow> k \<notin> members vs \<Longrightarrow> weight vs k = 0"
    and quorum_two_thirds: "ok vs \<Longrightarrow> 2 * total vs < 3 * quorum vs"
begin

lemma weight_inside:
  "ok vs \<Longrightarrow> finite A \<Longrightarrow> sum (weight vs) A = sum (weight vs) (A \<inter> members vs)"
  by (intro sum.mono_neutral_right) (auto simp: outside_weight)

lemma weight_le_total: "ok vs \<Longrightarrow> finite A \<Longrightarrow> sum (weight vs) A \<le> total vs"
  by (subst weight_inside) (simp_all add: total_weight members_finite sum_mono2)

lemma quorum_overlap:
  assumes "ok vs" "finite A" "finite B"
    and "quorum vs \<le> sum (weight vs) A" "quorum vs \<le> sum (weight vs) B"
  shows "total vs < 3 * sum (weight vs) (A \<inter> B)"
proof -
  have "sum (weight vs) A + sum (weight vs) B = sum (weight vs) (A \<union> B) + sum (weight vs) (A \<inter> B)"
    using assms(2,3) by (simp add: sum.union_inter)
  moreover have "sum (weight vs) (A \<union> B) \<le> total vs" using assms by (simp add: weight_le_total)
  ultimately show ?thesis using assms(4,5) quorum_two_thirds [OF assms(1)] by linarith
qed

lemma quorum_disjoint_absurd:
  "ok vs \<Longrightarrow> finite A \<Longrightarrow> finite B \<Longrightarrow> A \<inter> B = {} \<Longrightarrow>
   quorum vs \<le> sum (weight vs) A \<Longrightarrow> quorum vs \<le> sum (weight vs) B \<Longrightarrow> False"
  using quorum_overlap [of vs A B] by simp

end

definition vs_ok :: "ValidatorSet \<Rightarrow> bool" where
  "vs_ok vs \<longleftrightarrow> vs_wf vs \<and> vs_fits vs \<and> 0 < total_stake vs"

lemma vs_ok_total_less: "vs_ok vs \<Longrightarrow> total_stake vs < 2 ^ 64"
  by (simp add: vs_ok_def vs_wf_sel wsum_mod)

interpretation dq: weighted_quorum "\<lambda>vs. set (vs_pubkeys vs)" stake_of total_stake
  "\<lambda>vs. quorum_stake vs default_threshold" vs_ok
proof unfold_locales
  fix vs assume ok: "vs_ok vs"
  show "finite (set (vs_pubkeys vs))" by simp
  show "total_stake vs = (\<Sum>pk \<in> set (vs_pubkeys vs). stake_of vs pk)"
    using ok total_stake_sum by (simp add: vs_ok_def)
  show "stake_of vs k = 0" if "k \<notin> set (vs_pubkeys vs)" for k
    using ok that stake_of_none by (simp add: vs_ok_def)
  show "2 * total_stake vs < 3 * quorum_stake vs default_threshold"
    using ok vs_ok_total_less [OF ok] quorum_default_bounds(1) by (simp only: vs_ok_def)
qed

section \<open>Every node sorts alike\<close>

lemma inj_validator_key: "inj validator_key"
  by (rule injI) (simp add: validator_key_def)

lemma ValidatorSet_new_perm:
  assumes "mset vs = mset vs'"
  shows "ValidatorSet_new vs = ValidatorSet_new vs'"
proof -
  let ?infos = "\<lambda>vs. map (\<lambda>(pk, s). \<lparr> vi_pubkey = pk, vi_stake = s \<rparr>) (filter (\<lambda>(_, s). s > 0) vs)"
  have "mset (?infos vs) = mset (sort_key validator_key (?infos vs'))"
    using assms by simp
  then have "sort_key validator_key (?infos vs) = sort_key validator_key (?infos vs')"
    by (rule sort_key_inj_key_eq) (auto intro: inj_on_subset [OF inj_validator_key])
  then show ?thesis by (simp only: ValidatorSet_new_def Let_def)
qed

section \<open>The proposer\<close>

lemma walk_stakes_member: "walk_stakes target acc vs = Some p \<Longrightarrow> p \<in> vi_pubkey ` set vs"
  by (induction vs arbitrary: acc) (auto simp: Let_def split: if_splits)

text \<open>The slots of the walk: validator \<open>pk\<close> owns as many targets as it has stake.\<close>

lemma walk_stakes_slots:
  assumes "acc + sum_list (map vi_stake vs) \<le> umax 64"
  shows "card {t. acc \<le> t \<and> t < acc + sum_list (map vi_stake vs) \<and> walk_stakes t acc vs = Some pk} =
    sum_list (map vi_stake (filter (\<lambda>v. vi_pubkey v = pk) vs))"
  using assms
proof (induction vs arbitrary: acc)
  case (Cons v vs)
  let ?s = "vi_stake v" and ?rest = "sum_list (map vi_stake vs)"
  have exact: "sat_add 64 acc ?s = acc + ?s" using Cons.prems by (simp add: sat_add_exact)
  let ?own = "{t. acc \<le> t \<and> t < acc + ?s \<and> vi_pubkey v = pk}"
  let ?later = "{t. acc + ?s \<le> t \<and> t < acc + ?s + ?rest \<and> walk_stakes t (acc + ?s) vs = Some pk}"
  have "{t. acc \<le> t \<and> t < acc + sum_list (map vi_stake (v # vs)) \<and> walk_stakes t acc (v # vs) = Some pk}
      = ?own \<union> ?later"
    by (auto simp: exact Let_def split: if_splits)
  moreover have "card (?own \<union> ?later) = card ?own + card ?later"
    by (rule card_Un_disjoint) (auto intro: finite_subset [of _ "{..< acc + ?s + ?rest}"])
  moreover have "card ?own = (if vi_pubkey v = pk then ?s else 0)"
  proof (cases "vi_pubkey v = pk")
    case True
    then have "?own = {acc..<acc + ?s}" by auto
    then show ?thesis using True by simp
  qed simp
  moreover have "card ?later = sum_list (map vi_stake (filter (\<lambda>v. vi_pubkey v = pk) vs))"
    using Cons.IH [of "acc + ?s"] Cons.prems by (simp add: add.assoc)
  ultimately show ?case by simp
qed simp

lemma walk_stakes_total:
  "acc \<le> target \<Longrightarrow> target < acc + sum_list (map vi_stake vs) \<Longrightarrow>
   acc + sum_list (map vi_stake vs) \<le> umax 64 \<Longrightarrow> \<exists>p. walk_stakes target acc vs = Some p"
proof (induction vs arbitrary: acc)
  case (Cons v vs)
  then show ?case using Cons.IH [of "acc + vi_stake v"] by (auto simp: sat_add_exact Let_def)
qed simp

lemma distinct_stake_sum:
  "distinct (map vi_pubkey vs) \<Longrightarrow> v \<in> set vs \<Longrightarrow>
   sum_list (map vi_stake (filter (\<lambda>w. vi_pubkey w = vi_pubkey v) vs)) = vi_stake v"
proof (induction vs)
  case (Cons w vs)
  show ?case
  proof (cases "w = v")
    case True
    then have "filter (\<lambda>w. vi_pubkey w = vi_pubkey v) vs = []"
      using Cons.prems True by (auto simp: filter_empty_conv) (metis image_eqI)
    then show ?thesis using True by simp
  next
    case False
    then show ?thesis using Cons by auto
  qed
qed simp

lemma stake_of_sum:
  assumes "vs_wf vs"
  shows "sum_list (map vi_stake (filter (\<lambda>v. vi_pubkey v = pk) (validators vs))) = stake_of vs pk"
proof (cases "pk \<in> set (vs_pubkeys vs)")
  case True
  then show ?thesis using assms distinct_stake_sum [OF vs_wf_sel(3)] stake_of_member
    by (auto simp: vs_pubkeys_def)
next
  case False
  then have "filter (\<lambda>v. vi_pubkey v = pk) (validators vs) = []"
    by (auto simp: vs_pubkeys_def filter_empty_conv)
  then show ?thesis using False stake_of_none [OF assms] by simp
qed

lemma vs_ok_total: "vs_ok vs \<Longrightarrow> total_stake vs = sum_list (map vi_stake (validators vs))"
  by (simp add: vs_ok_def vs_wf_sel vs_fits_def wsum_exact)

lemma vs_ok_umax: "vs_ok vs \<Longrightarrow> sum_list (map vi_stake (validators vs)) \<le> umax 64"
  by (simp add: vs_ok_def vs_fits_def less_umax_iff)

lemma proposer_walk:
  assumes "vs_ok vs"
  shows "proposer_for_round vs h r = walk_stakes (wadd 64 h r mod total_stake vs) 0 (validators vs)"
proof -
  have "validators vs \<noteq> []" using assms by (auto simp: vs_ok_def vs_wf_sel wsum_def)
  moreover have "wadd 64 h r mod total_stake vs < sum_list (map vi_stake (validators vs))"
    using assms vs_ok_total [OF assms] by (simp add: vs_ok_def)
  then obtain p where "walk_stakes (wadd 64 h r mod total_stake vs) 0 (validators vs) = Some p"
    using walk_stakes_total [of 0 _ "validators vs"] vs_ok_umax [OF assms] by (metis add_0 le0)
  ultimately show ?thesis using assms
    by (simp add: proposer_for_round_def vs_is_empty_def vs_ok_def Let_def)
qed

lemma bij_betw_mod_window: "0 < T \<Longrightarrow> bij_betw (\<lambda>h. h mod T) {a..<a + T} {..<T :: nat}"
proof (rule bij_betwI')
  fix x y assume "0 < T" and x: "x \<in> {a..<a + T}" and y: "y \<in> {a..<a + T}"
  have eq: "u = v" if "v mod T = u mod T" "u \<le> v" "v < u + T" for u v
    using that dvd_imp_le [of T "v - u"] by (cases "u = v") (auto simp: mod_eq_dvd_iff_nat)
  show "(x mod T = y mod T) = (x = y)"
    using x y eq [of x y] eq [of y x] by (cases "x \<le> y") auto
next
  fix y assume T: "0 < T" and "y \<in> {..<T}"
  then have y: "y < T" by simp
  show "\<exists>x \<in> {a..<a + T}. y = x mod T"
  proof (rule bexI [of _ "a + (y + (T - a mod T)) mod T"])
    have "(a + (y + (T - a mod T)) mod T) mod T = (a mod T + (y + (T - a mod T))) mod T"
      by (simp add: mod_simps)
    also have "a mod T + (y + (T - a mod T)) = y + T" using mod_less_divisor [OF T, of a] by linarith
    finally show "y = (a + (y + (T - a mod T)) mod T) mod T" using y by simp
  qed (use T in auto)
qed auto

lemma card_mod_window:
  assumes "0 < T"
  shows "card {h \<in> {a..<a + T}. P (h mod T)} = card {t. t < (T :: nat) \<and> P t}"
proof -
  note b = bij_betw_mod_window [OF assms, of a]
  have "(\<lambda>h. h mod T) ` {h \<in> {a..<a + T}. P (h mod T)} =
      {t \<in> (\<lambda>h. h mod T) ` {a..<a + T}. P t}" by blast
  also have "\<dots> = {t. t < T \<and> P t}" unfolding bij_betw_imp_surj_on [OF b] by simp
  finally have "bij_betw (\<lambda>h. h mod T) {h \<in> {a..<a + T}. P (h mod T)} {t. t < T \<and> P t}"
    by (intro bij_betw_subset [OF b]) blast
  then show ?thesis by (rule bij_betw_same_card)
qed

lemma proposer_slots:
  assumes "vs_ok vs"
  shows "card {t. t < total_stake vs \<and> walk_stakes t 0 (validators vs) = Some pk} = stake_of vs pk"
  using walk_stakes_slots [of 0 "validators vs" pk] vs_ok_umax [OF assms] stake_of_sum [of vs pk] assms
  unfolding vs_ok_total [OF assms] by (simp add: vs_ok_def)

lemma proposer_window:
  assumes "vs_ok vs" "h0 + total_stake vs + r \<le> 2 ^ 64"
  shows "card {h \<in> {h0..<h0 + total_stake vs}. proposer_for_round vs h r = Some pk} = stake_of vs pk"
proof -
  let ?T = "total_stake vs"
  let ?P = "\<lambda>t. walk_stakes t 0 (validators vs) = Some pk"
  have T: "0 < ?T" using assms(1) by (simp add: vs_ok_def)
  have "proposer_for_round vs h r = walk_stakes ((h + r) mod ?T) 0 (validators vs)"
    if "h < h0 + ?T" for h
    using that assms(2) by (simp add: proposer_walk [OF assms(1)] wadd_exact)
  then have "{h \<in> {h0..<h0 + ?T}. proposer_for_round vs h r = Some pk} =
      {h \<in> {h0..<h0 + ?T}. ?P ((h + r) mod ?T)}" by auto
  moreover have "bij_betw (\<lambda>h. h + r) {h \<in> {h0..<h0 + ?T}. ?P ((h + r) mod ?T)}
      {k \<in> {h0 + r..<h0 + r + ?T}. ?P (k mod ?T)}"
    by (rule bij_betw_byWitness [of _ "\<lambda>k. k - r"]) auto
  ultimately have "card {h \<in> {h0..<h0 + ?T}. proposer_for_round vs h r = Some pk} =
      card {k \<in> {h0 + r..<h0 + r + ?T}. ?P (k mod ?T)}" by (simp only: bij_betw_same_card)
  also have "\<dots> = stake_of vs pk"
    using card_mod_window [OF T, of "h0 + r" ?P] proposer_slots [OF assms(1), of pk] by simp
  finally show ?thesis .
qed

section \<open>Properties\<close>

text \<open>A set for the examples.\<close>

definition example_set :: ValidatorSet where
  "example_set = ValidatorSet_new [([1], 100), ([2], 300), ([3], 100), ([4], 0)]"

lemma example_set_eval:
  "validators example_set =
     [\<lparr> vi_pubkey = [2], vi_stake = 300 \<rparr>, \<lparr> vi_pubkey = [1], vi_stake = 100 \<rparr>,
      \<lparr> vi_pubkey = [3], vi_stake = 100 \<rparr>]"
  "total_stake example_set = 500" "stake_of example_set [1] = 100"
  by (simp_all add: example_set_def ValidatorSet_new_def validator_key_def wsum_def wadd_def
      stake_of_def get_by_pubkey_def build_index_def)

lemma example_set_ok: "vs_ok example_set"
proof -
  have "vs_wf example_set" unfolding example_set_def by (rule ValidatorSet_new_wf) simp
  then show ?thesis by (simp add: vs_ok_def vs_fits_def example_set_eval)
qed

text \<open>
  C12: With the default threshold 0.667, computed in double precision, the quorum of a set with any
  positive total a \<^verbatim>\<open>u64\<close> holds is more than two thirds of the stake and never more than all of
  it: rounding neither makes a quorum unsafe nor unreachable.
\<close>

theorem quorum_two_thirds_reachable:
  assumes "0 < total_stake vs" "total_stake vs < 2 ^ 64"
  shows "2 * total_stake vs < 3 * quorum_stake vs (finality_threshold BftConfig_default) \<and>
    quorum_stake vs (finality_threshold BftConfig_default) \<le> total_stake vs"
  using quorum_default_bounds [OF assms] by (simp add: default_threshold_def)

theorem quorum_two_thirds_reachable_witness:
  "2 * total_stake example_set < 3 * quorum_stake example_set (finality_threshold BftConfig_default) \<and>
   quorum_stake example_set (finality_threshold BftConfig_default) \<le> total_stake example_set"
  by (rule quorum_two_thirds_reachable) (simp_all add: example_set_eval)

text \<open>
  Proposer selection is fair: in every window of as many consecutive heights as there is
  stake, a validator is the proposer of exactly as many heights as it has stake (and so never,
  when it is not in the set).
\<close>

theorem proposer_fair:
  assumes "vs_ok vs" "h0 + total_stake vs + r \<le> 2 ^ 64"
  shows "card {h \<in> {h0..<h0 + total_stake vs}. is_proposer vs pk h r} = stake_of vs pk"
proof -
  have "is_proposer vs pk h r \<longleftrightarrow> proposer_for_round vs h r = Some pk" for h
    by (auto simp: is_proposer_def split: option.splits)
  then show ?thesis using proposer_window [OF assms] by simp
qed

theorem proposer_fair_witness:
  "card {h \<in> {7..<507}. is_proposer example_set [1] h 3} = 100"
  using proposer_fair [OF example_set_ok, of 7 3 "[1]"] by (simp add: example_set_eval)

text \<open>
  \<open>upsert\<close> refines the update of the stake map: afterwards the named validator has exactly the
  given stake (and is a member exactly when that is positive), every other stake is unchanged, and
  the set is again sorted, duplicate free and consistent with its index and total.
\<close>

theorem upsert_refines_stake_map:
  assumes "vs_wf vs"
  shows "vs_wf (upsert pk s vs) \<and> stake_of (upsert pk s vs) = (stake_of vs)(pk := s) \<and>
    (vs_contains (upsert pk s vs) k \<longleftrightarrow> 0 < ((stake_of vs)(pk := s)) k)"
  using upsert_wf [OF assms] stake_of_upsert [OF assms, of pk s] stake_of_pos [OF upsert_wf [OF assms]]
    vs_contains_iff [OF upsert_wf [OF assms]] by metis

theorem upsert_refines_stake_map_witness:
  "vs_wf (upsert [3] 0 example_set) \<and> stake_of (upsert [3] 0 example_set) [1] = 100 \<and>
   \<not> vs_contains (upsert [3] 0 example_set) [3]"
  using upsert_refines_stake_map [of example_set "[3]" 0 "[3]"] example_set_ok
  by (simp add: vs_ok_def example_set_eval)

text \<open>
  The canonical order does not depend on the order in which validators are listed: two nodes
  that know the same stakes build the same set, hence agree on every proposer and every quorum.
\<close>

theorem validator_set_canonical:
  assumes "mset vs = mset vs'"
  shows "ValidatorSet_new vs = ValidatorSet_new vs' \<and>
    proposer_for_round (ValidatorSet_new vs) h r = proposer_for_round (ValidatorSet_new vs') h r"
  using ValidatorSet_new_perm [OF assms] by simp

theorem validator_set_canonical_witness:
  "ValidatorSet_new [([1], 5), ([2], 5)] = ValidatorSet_new [([2], 5), ([1], 5)]"
  using validator_set_canonical [of "[([1], 5), ([2], 5)]" "[([2], 5), ([1], 5)]"] by simp

end
