(* ===== verification/Evidence.thy ===== *)
theory Evidence
  imports Bft_Types
begin

text \<open>
  \<^verbatim>\<open>consensus-bft/src/evidence.rs\<close>: detection of validators that sign two conflicting votes for the
  same height, round and vote type.

  Shown: the collector is sound (every piece of evidence consists of two votes it was given, of the
  same validator, height, round and type, for different values) and complete (two conflicting votes
  above the pruning height always leave evidence against their voter), over any sequence of its
  operations.
\<close>

section \<open>Data\<close>

datatype EvidenceKind = ConflictingPrevote | ConflictingPrecommit

record DoubleSignEvidence =
  ev_validator :: pubkey
  ev_height :: u64
  ev_round :: u32
  ev_kind :: EvidenceKind
  vote_a :: "hash option \<times> signature"
  vote_b :: "hash option \<times> signature"

datatype VoteType = PrevoteType | PrecommitType

record VoteKey =
  vk_height :: u64
  vk_round :: u32
  vk_voter :: pubkey
  vk_kind :: VoteType

record StoredVote =
  sv_hash :: "hash option"
  sv_signature :: signature

record EvidenceCollector =
  ec_votes :: "(VoteKey, StoredVote) hashmap"
  ec_evidence :: "DoubleSignEvidence list"
  ec_min_height :: u64

section \<open>Operations\<close>

definition EvidenceCollector_new :: EvidenceCollector where
  "EvidenceCollector_new = \<lparr> ec_votes = [], ec_evidence = [], ec_min_height = 0 \<rparr>"

fun vote_entry :: "ConsensusMessage \<Rightarrow> (VoteKey \<times> StoredVote) option" where
  "vote_entry (Prevote h r bh v sg) =
     Some (\<lparr> vk_height = h, vk_round = r, vk_voter = v, vk_kind = PrevoteType \<rparr>,
           \<lparr> sv_hash = bh, sv_signature = sg \<rparr>)"
| "vote_entry (Precommit h r bh v sg) =
     Some (\<lparr> vk_height = h, vk_round = r, vk_voter = v, vk_kind = PrecommitType \<rparr>,
           \<lparr> sv_hash = bh, sv_signature = sg \<rparr>)"
| "vote_entry (Proposal _ _ _ _ _ _) = None"

fun evidence_kind :: "VoteType \<Rightarrow> EvidenceKind" where
  "evidence_kind PrevoteType = ConflictingPrevote"
| "evidence_kind PrecommitType = ConflictingPrecommit"

definition make_evidence :: "VoteKey \<Rightarrow> StoredVote \<Rightarrow> StoredVote \<Rightarrow> DoubleSignEvidence" where
  "make_evidence key existing current =
     \<lparr> ev_validator = vk_voter key, ev_height = vk_height key, ev_round = vk_round key,
       ev_kind = evidence_kind (vk_kind key),
       vote_a = (sv_hash existing, sv_signature existing),
       vote_b = (sv_hash current, sv_signature current) \<rparr>"

definition check_and_record ::
    "ConsensusMessage \<Rightarrow> EvidenceCollector \<Rightarrow> EvidenceCollector \<times> DoubleSignEvidence option" where
  "check_and_record msg c =
     (case vote_entry msg of
        None \<Rightarrow> (c, None)
      | Some (key, current) \<Rightarrow>
          if vk_height key < ec_min_height c then (c, None)
          else (case hm_get (ec_votes c) key of
              Some existing \<Rightarrow>
                if sv_hash existing \<noteq> sv_hash current
                then let ev = make_evidence key existing current
                     in (c\<lparr> ec_evidence := ec_evidence c @ [ev] \<rparr>, Some ev)
                else (c, None)
            | None \<Rightarrow> (c\<lparr> ec_votes := hm_insert key current (ec_votes c) \<rparr>, None)))"

definition prune :: "u64 \<Rightarrow> EvidenceCollector \<Rightarrow> EvidenceCollector" where
  "prune mh c =
     c\<lparr> ec_min_height := mh, ec_votes := hm_retain (\<lambda>k _. vk_height k \<ge> mh) (ec_votes c) \<rparr>"

definition drain_evidence :: "EvidenceCollector \<Rightarrow> EvidenceCollector \<times> DoubleSignEvidence list" where
  "drain_evidence c = (c\<lparr> ec_evidence := [] \<rparr>, ec_evidence c)"

definition tracked_votes :: "EvidenceCollector \<Rightarrow> nat" where
  "tracked_votes c = length (ec_votes c)"

definition has_evidence_against :: "EvidenceCollector \<Rightarrow> pubkey \<Rightarrow> bool" where
  "has_evidence_against c v = list_ex (\<lambda>e. ev_validator e = v) (ec_evidence c)"

section \<open>Runs of the collector\<close>

datatype EvidenceOp = CheckOp ConsensusMessage | PruneOp u64 | DrainOp

fun ec_step :: "EvidenceCollector \<Rightarrow> EvidenceOp \<Rightarrow> EvidenceCollector" where
  "ec_step c (CheckOp m) = fst (check_and_record m c)"
| "ec_step c (PruneOp h) = prune h c"
| "ec_step c DrainOp = fst (drain_evidence c)"

lemmas ec_defs = check_and_record_def prune_def drain_evidence_def

text \<open>The history of a collector: the votes it was given so far.\<close>

type_synonym vote_log = "(VoteKey \<times> StoredVote) set"

fun ec_hist_step :: "vote_log \<times> EvidenceCollector \<Rightarrow> EvidenceOp \<Rightarrow> vote_log \<times> EvidenceCollector" where
  "ec_hist_step (L, c) (CheckOp m) = (L \<union> set_option (vote_entry m), ec_step c (CheckOp m))"
| "ec_hist_step (L, c) e = (L, ec_step c e)"

text \<open>A piece of evidence that the log justifies.\<close>

definition justified :: "vote_log \<Rightarrow> DoubleSignEvidence \<Rightarrow> bool" where
  "justified L ev \<longleftrightarrow>
     (\<exists>key va vb. (key, va) \<in> L \<and> (key, vb) \<in> L \<and> sv_hash va \<noteq> sv_hash vb \<and>
        ev = make_evidence key va vb)"

definition ec_sound :: "vote_log \<times> EvidenceCollector \<Rightarrow> bool" where
  "ec_sound = (\<lambda>(L, c). hm_wf (ec_votes c) \<and> set (ec_votes c) \<subseteq> L \<and>
     (\<forall>(k, v) \<in> set (ec_votes c). ec_min_height c \<le> vk_height k) \<and>
     (\<forall>ev \<in> set (ec_evidence c). justified L ev))"

lemma justified_mono: "justified L ev \<Longrightarrow> L \<subseteq> L' \<Longrightarrow> justified L' ev"
  by (auto simp: justified_def)

lemma set_hm_insert_fresh: "hm_get m k = None \<Longrightarrow> set (hm_insert k v m) = insert (k, v) (set m)"
  by (induction m) (auto split: if_splits)

lemma check_and_record_sound:
  assumes "ec_sound (L, c)"
  shows "ec_sound (L \<union> set_option (vote_entry m), fst (check_and_record m c))"
proof (cases "vote_entry m")
  case None
  then show ?thesis using assms by (simp add: check_and_record_def)
next
  case (Some kv)
  obtain key cur where kv: "kv = (key, cur)" by (cases kv)
  have old: "\<forall>ev \<in> set (ec_evidence c). justified (insert (key, cur) L) ev"
    using assms by (auto simp: ec_sound_def intro: justified_mono)
  show ?thesis
  proof (cases "hm_get (ec_votes c) key")
    case None
    then show ?thesis using assms Some kv old
      by (auto simp: ec_sound_def check_and_record_def set_hm_insert_fresh)
  next
    case (Some ex)
    then have "(key, ex) \<in> L" using assms by (auto simp: ec_sound_def dest: map_of_SomeD)
    then have "sv_hash ex \<noteq> sv_hash cur \<Longrightarrow> justified (insert (key, cur) L) (make_evidence key ex cur)"
      by (auto simp: justified_def)
    then show ?thesis using assms Some \<open>vote_entry m = Some kv\<close> kv old
      by (auto simp: ec_sound_def check_and_record_def Let_def)
  qed
qed

lemma prune_sound: "ec_sound (L, c) \<Longrightarrow> ec_sound (L, prune h c)"
  by (auto simp: ec_sound_def prune_def hm_retain_def hm_wf_def distinct_map_filter)

lemma ec_hist_step_sound: "ec_sound s \<Longrightarrow> ec_sound (ec_hist_step s e)"
proof (cases s, cases e)
  fix L c
  assume s: "ec_sound s" "s = (L, c)"
  show "ec_sound (ec_hist_step s e)" if "e = CheckOp m" for m
    using check_and_record_sound s that by simp
  show "ec_sound (ec_hist_step s e)" if "e = PruneOp h" for h
    using prune_sound s that by simp
  show "ec_sound (ec_hist_step s e)" if "e = DrainOp"
    using s that by (simp add: ec_sound_def drain_evidence_def)
qed

interpretation ev_run: invariant_system ec_hist_step ec_sound
  by unfold_locales (rule ec_hist_step_sound)

lemma ec_sound_new: "ec_sound ({}, EvidenceCollector_new)"
  by (simp add: ec_sound_def EvidenceCollector_new_def)

definition op_votes :: "EvidenceOp list \<Rightarrow> vote_log" where
  "op_votes es = (\<Union>e \<in> set es. case e of CheckOp m \<Rightarrow> set_option (vote_entry m) | _ \<Rightarrow> {})"

lemma op_votesE:
  assumes "kv \<in> op_votes es"
  obtains m where "CheckOp m \<in> set es" "vote_entry m = Some kv"
proof -
  obtain e where e: "e \<in> set es" "kv \<in> (case e of CheckOp m \<Rightarrow> set_option (vote_entry m) | _ \<Rightarrow> {})"
    using assms by (auto simp: op_votes_def)
  show thesis by (cases e) (use e that in auto)
qed

lemma ec_hist_run:
  "foldl ec_hist_step (L, c) es = (L \<union> op_votes es, foldl ec_step c es)"
proof (induction es arbitrary: L c)
  case (Cons e es)
  then show ?case by (cases e) (auto simp: op_votes_def)
qed (simp add: op_votes_def)

lemma ec_run_sound: "ec_sound (op_votes es, foldl ec_step EvidenceCollector_new es)"
  using ev_run.run_inv [OF ec_sound_new, of es] by (simp add: ec_hist_run)

section \<open>Completeness\<close>

text \<open>Operations that keep the votes of a height: no pruning above it.\<close>

fun keeps_height :: "u64 \<Rightarrow> EvidenceOp \<Rightarrow> bool" where
  "keeps_height h (PruneOp mh) \<longleftrightarrow> mh \<le> h"
| "keeps_height h _ \<longleftrightarrow> True"

definition tracks :: "VoteKey \<Rightarrow> EvidenceCollector \<Rightarrow> bool" where
  "tracks key c \<longleftrightarrow> hm_wf (ec_votes c) \<and> ec_min_height c \<le> vk_height key"

lemma tracks_step: "tracks key c \<Longrightarrow> keeps_height (vk_height key) e \<Longrightarrow> tracks key (ec_step c e)"
  by (cases e) (auto simp: tracks_def ec_defs Let_def split: option.splits)

lemma tracks_run:
  "tracks key c \<Longrightarrow> list_all (keeps_height (vk_height key)) es \<Longrightarrow> tracks key (foldl ec_step c es)"
  by (induction es arbitrary: c) (simp_all add: tracks_step)

lemma stored_step:
  "tracks key c \<Longrightarrow> keeps_height (vk_height key) e \<Longrightarrow> hm_get (ec_votes c) key = Some v \<Longrightarrow>
   hm_get (ec_votes (ec_step c e)) key = Some v"
  by (cases e) (auto simp: tracks_def ec_defs Let_def hm_get_retain split: option.splits)

lemma stored_run:
  "tracks key c \<Longrightarrow> list_all (keeps_height (vk_height key)) es \<Longrightarrow> hm_get (ec_votes c) key = Some v \<Longrightarrow>
   hm_get (ec_votes (foldl ec_step c es)) key = Some v"
  by (induction es arbitrary: c) (simp_all add: stored_step tracks_step)

lemma evidence_step:
  "has_evidence_against c v \<Longrightarrow> e \<noteq> DrainOp \<Longrightarrow> has_evidence_against (ec_step c e) v"
  by (cases e) (auto simp: has_evidence_against_def ec_defs Let_def split: option.splits)

lemma evidence_run:
  "has_evidence_against c v \<Longrightarrow> DrainOp \<notin> set es \<Longrightarrow> has_evidence_against (foldl ec_step c es) v"
  by (induction es arbitrary: c) (auto simp: evidence_step)

lemma check_stores_or_accuses:
  assumes "tracks key c" "vote_entry m = Some (key, v)"
  shows "\<exists>w. hm_get (ec_votes (ec_step c (CheckOp m))) key = Some w \<and>
    (sv_hash w = sv_hash v \<or> has_evidence_against (ec_step c (CheckOp m)) (vk_voter key))"
  using assms
  by (cases "hm_get (ec_votes c) key")
    (auto simp: tracks_def check_and_record_def Let_def has_evidence_against_def make_evidence_def)

lemma check_conflict_accuses:
  assumes "tracks key c" "vote_entry m = Some (key, v)" "hm_get (ec_votes c) key = Some w"
    "sv_hash w \<noteq> sv_hash v"
  shows "has_evidence_against (ec_step c (CheckOp m)) (vk_voter key)"
  using assms by (auto simp: tracks_def check_and_record_def Let_def has_evidence_against_def make_evidence_def)

section \<open>Properties\<close>

text \<open>
  C10: No false accusation: after any sequence of checks, prunings and drains, each piece of
  evidence held by the collector is made of two votes that were both given to it, by the accused
  validator, at the recorded height and round and of the recorded type, for different values.
\<close>

theorem evidence_sound:
  assumes "ev \<in> set (ec_evidence (foldl ec_step EvidenceCollector_new es))"
  shows "\<exists>m1 m2 key va vb. CheckOp m1 \<in> set es \<and> CheckOp m2 \<in> set es \<and>
    vote_entry m1 = Some (key, va) \<and> vote_entry m2 = Some (key, vb) \<and>
    fst (vote_a ev) \<noteq> fst (vote_b ev) \<and> ev = make_evidence key va vb"
proof -
  have "justified (op_votes es) ev" using assms ec_run_sound [of es] by (simp add: ec_sound_def)
  then obtain key va vb where L: "(key, va) \<in> op_votes es" "(key, vb) \<in> op_votes es"
    and ev: "sv_hash va \<noteq> sv_hash vb" "ev = make_evidence key va vb" by (auto simp: justified_def)
  obtain m1 where m1: "CheckOp m1 \<in> set es" "vote_entry m1 = Some (key, va)" using L(1) by (rule op_votesE)
  obtain m2 where m2: "CheckOp m2 \<in> set es" "vote_entry m2 = Some (key, vb)" using L(2) by (rule op_votesE)
  have "fst (vote_a ev) \<noteq> fst (vote_b ev)" using ev by (simp add: make_evidence_def)
  with m1 m2 ev(2) show ?thesis by blast
qed

theorem evidence_sound_witness:
  "\<exists>m1 m2 key va vb. CheckOp m1 \<in> {CheckOp (Prevote 3 0 (Some [1]) [9] []), CheckOp (Prevote 3 0 None [9] [7])} \<and>
    CheckOp m2 \<in> {CheckOp (Prevote 3 0 (Some [1]) [9] []), CheckOp (Prevote 3 0 None [9] [7])} \<and>
    vote_entry m1 = Some (key, va) \<and> vote_entry m2 = Some (key, vb) \<and> vk_voter key = [9]"
proof -
  let ?es = "[CheckOp (Prevote 3 0 (Some [1]) [9] []), CheckOp (Prevote 3 0 None [9] [7])]"
  let ?ev = "\<lparr> ev_validator = [9], ev_height = 3, ev_round = 0, ev_kind = ConflictingPrevote,
    vote_a = (Some [1], []), vote_b = (None, [7]) \<rparr>"
  have "?ev \<in> set (ec_evidence (foldl ec_step EvidenceCollector_new ?es))"
    by (simp add: EvidenceCollector_new_def check_and_record_def make_evidence_def Let_def)
  from evidence_sound [OF this] show ?thesis by (force simp: make_evidence_def)
qed

text \<open>
  C11: No missed double sign: when two votes with the same height, round, voter and type but
  different values are both processed, with no pruning above that height in the run and no drain
  after the first of them, then the collector holds evidence against the voter.
\<close>

theorem evidence_complete:
  assumes "vote_entry m1 = Some (key, v1)" "vote_entry m2 = Some (key, v2)" "sv_hash v1 \<noteq> sv_hash v2"
    and "list_all (keeps_height (vk_height key)) (pre @ mid @ post)" "DrainOp \<notin> set (mid @ post)"
  shows "has_evidence_against
    (foldl ec_step EvidenceCollector_new (pre @ CheckOp m1 # mid @ CheckOp m2 # post)) (vk_voter key)"
proof -
  let ?c0 = "foldl ec_step EvidenceCollector_new pre"
  let ?c1 = "ec_step ?c0 (CheckOp m1)" and ?c2 = "foldl ec_step (ec_step ?c0 (CheckOp m1)) mid"
  have "tracks key EvidenceCollector_new" by (simp add: tracks_def EvidenceCollector_new_def)
  then have t0: "tracks key ?c0" using assms(4) by (intro tracks_run) simp_all
  have t1: "tracks key ?c1" using t0 by (rule tracks_step) simp
  have t2: "tracks key ?c2" using t1 assms(4) by (intro tracks_run) simp_all
  obtain w where w: "hm_get (ec_votes ?c1) key = Some w"
    "sv_hash w = sv_hash v1 \<or> has_evidence_against ?c1 (vk_voter key)"
    using check_stores_or_accuses [OF t0 assms(1)] by blast
  have "hm_get (ec_votes ?c2) key = Some w" using t1 w(1) assms(4) by (intro stored_run) simp_all
  then have "has_evidence_against (ec_step ?c2 (CheckOp m2)) (vk_voter key)"
    using w(2) assms(3,5) check_conflict_accuses [OF t2 assms(2)] evidence_run evidence_step by fastforce
  then show ?thesis using assms(5) by (auto intro: evidence_run)
qed

theorem evidence_complete_witness:
  "has_evidence_against (foldl ec_step EvidenceCollector_new
     [PruneOp 2, CheckOp (Precommit 3 1 (Some [1]) [9] []), PruneOp 3,
      CheckOp (Precommit 3 1 (Some [2]) [9] [])]) [9]"
  using evidence_complete [OF vote_entry.simps(2) [of 3 1 "Some [1]" "[9]" "[]"]
      vote_entry.simps(2) [of 3 1 "Some [2]" "[9]" "[]"], of "[PruneOp 2]" "[PruneOp 3]" "[]"] by simp

end
