(* ===== verification/Consensus_Engine.thy ===== *)
theory Consensus_Engine
  imports Validator_Set Evidence
begin

text \<open>
  \<^verbatim>\<open>consensus-bft/src/engine.rs\<close>: the Tendermint-style state machine of one validator. Each handler
  takes the engine and returns the changed engine with the messages to broadcast and the block
  committed, if any. The block hash is the parameter \<open>hashv\<close>; logging is left out.

  Shown: the vote tallies are exact, do not depend on the order in which the hash maps are
  iterated, and at most one value reaches the quorum; a commit is backed by precommits of more than
  two thirds of the stake for the stored proposal; a precommit for a value is backed by a quorum of
  prevotes and locks it; a locked engine prevotes something else only on a claimed valid round; an
  engine never emits two prevotes or two precommits for one height and round, so that no collector
  accuses it.
\<close>

section \<open>Engine and output\<close>

record EngineOutput =
  out_messages :: "ConsensusMessage list"
  committed_block :: "CommittedBlock option"

definition output_empty :: EngineOutput where
  "output_empty = \<lparr> out_messages = [], committed_block = None \<rparr>"

definition with_messages :: "ConsensusMessage list \<Rightarrow> EngineOutput" where
  "with_messages ms = \<lparr> out_messages = ms, committed_block = None \<rparr>"

definition with_commit :: "CommittedBlock \<Rightarrow> EngineOutput" where
  "with_commit cb = \<lparr> out_messages = [], committed_block = Some cb \<rparr>"

record ConsensusEngine =
  eng_config :: BftConfig
  identity :: pubkey
  validator_set :: ValidatorSet
  cstate :: ConsensusState
  evidence :: EvidenceCollector
  sent_prevote :: bool
  sent_precommit :: bool

definition ConsensusEngine_new :: "BftConfig \<Rightarrow> pubkey \<Rightarrow> ValidatorSet \<Rightarrow> ConsensusEngine" where
  "ConsensusEngine_new c me vs =
     \<lparr> eng_config = c, identity = me, validator_set = vs, cstate = ConsensusState_new 0,
       evidence = EvidenceCollector_new, sent_prevote = False, sent_precommit = False \<rparr>"

text \<open>\<^verbatim>\<open>Signature::default()\<close>: 64 zero bytes.\<close>

definition default_signature :: signature where
  "default_signature = replicate 64 0"

section \<open>Tallies\<close>

definition engine_quorum :: "ConsensusEngine \<Rightarrow> u64" where
  "engine_quorum e = quorum_stake (validator_set e) (finality_threshold (eng_config e))"

definition has_quorum_prevotes :: "ConsensusEngine \<Rightarrow> hash option \<Rightarrow> bool" where
  "has_quorum_prevotes e bh =
     (wsum 64 (map (\<lambda>(k, _). stake_of (validator_set e) k)
        (filter (\<lambda>(_, v). v = bh) (prevotes (cstate e)))) \<ge> engine_quorum e)"

definition has_quorum_precommits :: "ConsensusEngine \<Rightarrow> hash option \<Rightarrow> bool" where
  "has_quorum_precommits e bh =
     (wsum 64 (map (\<lambda>(k, _). stake_of (validator_set e) k)
        (filter (\<lambda>(_, v). v = bh) (precommits (cstate e)))) \<ge> engine_quorum e)"

text \<open>Group the votes by value; then the first value of the group map that reaches the quorum.\<close>

definition stake_by_hash ::
    "ValidatorSet \<Rightarrow> (pubkey, hash option) hashmap \<Rightarrow> (hash option, u64) hashmap" where
  "stake_by_hash vs votes = foldl (\<lambda>m (voter, h). hm_bump 64 h (stake_of vs voter) m) [] votes"

fun first_quorum :: "u64 \<Rightarrow> (hash option, u64) hashmap \<Rightarrow> hash option" where
  "first_quorum q [] = None"
| "first_quorum q ((bh, s) # m) =
     (case bh of Some h \<Rightarrow> if s \<ge> q then Some h else first_quorum q m | None \<Rightarrow> first_quorum q m)"

definition find_quorum_prevote_hash :: "ConsensusEngine \<Rightarrow> hash option" where
  "find_quorum_prevote_hash e =
     first_quorum (engine_quorum e) (stake_by_hash (validator_set e) (prevotes (cstate e)))"

definition find_quorum_precommit_hash :: "ConsensusEngine \<Rightarrow> hash option" where
  "find_quorum_precommit_hash e =
     first_quorum (engine_quorum e) (stake_by_hash (validator_set e) (precommits (cstate e)))"

definition has_any_quorum_prevotes :: "ConsensusEngine \<Rightarrow> bool" where
  "has_any_quorum_prevotes e =
     (wsum 64 (map (stake_of (validator_set e)) (hm_keys (prevotes (cstate e)))) \<ge> engine_quorum e)"

definition has_quorum_nil_precommits :: "ConsensusEngine \<Rightarrow> bool" where
  "has_quorum_nil_precommits e = has_quorum_precommits e None"

section \<open>Message construction\<close>

definition make_prevote :: "ConsensusEngine \<Rightarrow> hash option \<Rightarrow> ConsensusMessage" where
  "make_prevote e bh =
     Prevote (height (cstate e)) (cround (cstate e)) bh (identity e) default_signature"

definition make_precommit :: "ConsensusEngine \<Rightarrow> hash option \<Rightarrow> ConsensusMessage" where
  "make_precommit e bh =
     Precommit (height (cstate e)) (cround (cstate e)) bh (identity e) default_signature"

section \<open>Internal transitions\<close>

definition determine_prevote :: "ConsensusState \<Rightarrow> hash \<Rightarrow> u32 option \<Rightarrow> hash option" where
  "determine_prevote s bh vr =
     (case locked_value s of
        Some locked_hash \<Rightarrow>
          if locked_hash = bh then Some bh
          else (case (vr, locked_round s) of
              (Some v, Some lr) \<Rightarrow> if v \<ge> lr then Some bh else None
            | _ \<Rightarrow> None)
      | None \<Rightarrow> Some bh)"

definition start_round :: "u32 \<Rightarrow> ConsensusEngine \<Rightarrow> ConsensusEngine \<times> EngineOutput" where
  "start_round r e =
     (e\<lparr> cstate := (advance_round r (cstate e))\<lparr> cstep := Propose \<rparr>,
         sent_prevote := False, sent_precommit := False \<rparr>, output_empty)"

text \<open>Cast our precommit unless one was already cast this round.\<close>

definition cast_precommit ::
    "hash option \<Rightarrow> ConsensusEngine \<times> EngineOutput \<Rightarrow> ConsensusEngine \<times> EngineOutput" where
  "cast_precommit bh = (\<lambda>(e, out).
     if sent_precommit e then (e, out)
     else (e\<lparr> sent_precommit := True,
              cstate := (cstate e)\<lparr> precommits := hm_insert (identity e) bh (precommits (cstate e)) \<rparr> \<rparr>,
           out\<lparr> out_messages := out_messages out @ [make_precommit e bh] \<rparr>))"

definition try_advance_from_prevotes ::
    "ConsensusEngine \<times> EngineOutput \<Rightarrow> ConsensusEngine \<times> EngineOutput" where
  "try_advance_from_prevotes = (\<lambda>(e, out).
     (case find_quorum_prevote_hash e of
        Some h \<Rightarrow>
          let s = cstate e;
              e' = e\<lparr> cstate := s\<lparr> valid_value := Some h, valid_round := Some (cround s),
                                    locked_value := Some h, locked_round := Some (cround s),
                                    cstep := PrecommitStep \<rparr> \<rparr>
          in cast_precommit (Some h) (e', out)
      | None \<Rightarrow>
          if has_any_quorum_prevotes e \<and> cstep (cstate e) < PrecommitStep
          then cast_precommit None (e\<lparr> cstate := (cstate e)\<lparr> cstep := PrecommitStep \<rparr> \<rparr>, out)
          else (e, out)))"

definition commit_sigs :: "(pubkey, hash option) hashmap \<Rightarrow> hash \<Rightarrow> (pubkey \<times> signature) list" where
  "commit_sigs votes h = map (\<lambda>(k, _). (k, default_signature)) (filter (\<lambda>(_, v). v = Some h) votes)"

definition try_commit :: "(bytes list \<Rightarrow> hash) \<Rightarrow> ConsensusEngine \<Rightarrow> ConsensusEngine \<times> EngineOutput" where
  "try_commit hashv e =
     (case find_quorum_precommit_hash e of
        Some h \<Rightarrow>
          (case proposal (cstate e) of
             Some b \<Rightarrow>
               if block_hash hashv b = h
               then (e\<lparr> cstate := (cstate e)\<lparr> cstep := Commit \<rparr> \<rparr>,
                     with_commit \<lparr> cb_block = b, commit_signatures = commit_sigs (precommits (cstate e)) h,
                                   commit_round = cround (cstate e) \<rparr>)
               else (e, output_empty)
           | None \<Rightarrow> (e, output_empty))
      | None \<Rightarrow> (e, output_empty))"

section \<open>Public interface\<close>

definition start_new_height :: "u64 \<Rightarrow> ConsensusEngine \<Rightarrow> ConsensusEngine \<times> EngineOutput" where
  "start_new_height h e =
     start_round 0 (e\<lparr> cstate := ConsensusState_new h, sent_prevote := False, sent_precommit := False,
                       evidence := prune (h - 100) (evidence e) \<rparr>)"

text \<open>A proposal of a future round makes the engine jump to it.\<close>

definition enter_round :: "u32 \<Rightarrow> ConsensusEngine \<Rightarrow> ConsensusEngine" where
  "enter_round r e =
     (if r > cround (cstate e)
      then e\<lparr> cstate := advance_round r (cstate e), sent_prevote := False, sent_precommit := False \<rparr>
      else e)"

text \<open>The proposal is stored and the engine goes on to prevoting.\<close>

definition set_proposal :: "ProposedBlock \<Rightarrow> ConsensusEngine \<Rightarrow> ConsensusEngine" where
  "set_proposal block e = e\<lparr> cstate := (cstate e)\<lparr> proposal := Some block, cstep := PrevoteStep \<rparr> \<rparr>"

text \<open>Our own prevote is recorded like the others.\<close>

definition record_prevote :: "hash option \<Rightarrow> ConsensusEngine \<Rightarrow> ConsensusEngine" where
  "record_prevote bh e =
     e\<lparr> sent_prevote := True,
        cstate := (cstate e)\<lparr> prevotes := hm_insert (identity e) bh (prevotes (cstate e)) \<rparr> \<rparr>"

definition on_proposal ::
    "(bytes list \<Rightarrow> hash) \<Rightarrow> ConsensusMessage \<Rightarrow> ConsensusEngine \<Rightarrow> ConsensusEngine \<times> EngineOutput" where
  "on_proposal hashv m e =
     (case m of Proposal h r block p sg vr \<Rightarrow>
        if h \<noteq> height (cstate e) then (e, output_empty)
        else if r < cround (cstate e) then (e, output_empty)
        else if proposer_for_round (validator_set e) h r \<noteq> Some p then (e, output_empty)
        else if \<not> vs_contains (validator_set e) p then (e, output_empty)
        else
          let e1 = enter_round r e;
              our_prevote = determine_prevote (cstate e1) (block_hash hashv block) vr;
              e2 = set_proposal block e1
          in if sent_prevote e2 then (e2, output_empty)
             else
               let e3 = record_prevote our_prevote e2
               in try_advance_from_prevotes (e3, with_messages [make_prevote e2 our_prevote])
      | _ \<Rightarrow> (e, output_empty))"

definition on_prevote :: "ConsensusMessage \<Rightarrow> ConsensusEngine \<Rightarrow> ConsensusEngine \<times> EngineOutput" where
  "on_prevote m e =
     (case m of Prevote h r bh voter sg \<Rightarrow>
        if h \<noteq> height (cstate e) then (e, output_empty)
        else
          let e1 = e\<lparr> evidence := fst (check_and_record m (evidence e)) \<rparr>
          in if r < cround (cstate e1) then (e1, output_empty)
             else if \<not> vs_contains (validator_set e1) voter then (e1, output_empty)
             else if r > cround (cstate e1) then (e1, output_empty)
             else try_advance_from_prevotes
                    (e1\<lparr> cstate := (cstate e1)\<lparr> prevotes := hm_insert voter bh (prevotes (cstate e1)) \<rparr> \<rparr>, output_empty)
      | _ \<Rightarrow> (e, output_empty))"

definition on_precommit ::
    "(bytes list \<Rightarrow> hash) \<Rightarrow> ConsensusMessage \<Rightarrow> ConsensusEngine \<Rightarrow> ConsensusEngine \<times> EngineOutput" where
  "on_precommit hashv m e =
     (case m of Precommit h r bh voter sg \<Rightarrow>
        if h \<noteq> height (cstate e) then (e, output_empty)
        else
          let e1 = e\<lparr> evidence := fst (check_and_record m (evidence e)) \<rparr>
          in if r < cround (cstate e1) then (e1, output_empty)
             else if \<not> vs_contains (validator_set e1) voter then (e1, output_empty)
             else if r > cround (cstate e1) then (e1, output_empty)
             else try_commit hashv
                    (e1\<lparr> cstate := (cstate e1)\<lparr> precommits := hm_insert voter bh (precommits (cstate e1)) \<rparr> \<rparr>)
      | _ \<Rightarrow> (e, output_empty))"

definition propose_timeout_fired :: "ConsensusEngine \<Rightarrow> ConsensusEngine \<times> EngineOutput" where
  "propose_timeout_fired e =
     (if cstep (cstate e) \<le> Propose
      then let e1 = e\<lparr> cstate := (cstate e)\<lparr> cstep := PrevoteStep \<rparr> \<rparr>
           in if \<not> sent_prevote e1
              then (record_prevote None e1, with_messages [make_prevote e1 None])
              else (e1, output_empty)
      else (e, output_empty))"

definition on_timeout :: "ConsensusStep \<Rightarrow> ConsensusEngine \<Rightarrow> ConsensusEngine \<times> EngineOutput" where
  "on_timeout s e =
     (case s of
        Propose \<Rightarrow> propose_timeout_fired e
      | PrevoteStep \<Rightarrow>
          if cstep (cstate e) \<le> PrevoteStep
          then cast_precommit None (e\<lparr> cstate := (cstate e)\<lparr> cstep := PrecommitStep \<rparr> \<rparr>, output_empty)
          else (e, output_empty)
      | PrecommitStep \<Rightarrow> start_round (wadd 32 (cround (cstate e)) 1) e
      | NewRound \<Rightarrow> propose_timeout_fired e
      | Commit \<Rightarrow> (e, output_empty))"

definition engine_is_proposer :: "ConsensusEngine \<Rightarrow> u64 \<Rightarrow> u32 \<Rightarrow> bool" where
  "engine_is_proposer e h r = is_proposer (validator_set e) (identity e) h r"

definition update_validator_set :: "ValidatorSet \<Rightarrow> ConsensusEngine \<Rightarrow> ConsensusEngine" where
  "update_validator_set vs e = e\<lparr> validator_set := vs \<rparr>"

section \<open>Events\<close>

datatype EngineEvent =
    StartHeight u64
  | GotProposal ConsensusMessage
  | GotPrevote ConsensusMessage
  | GotPrecommit ConsensusMessage
  | Timeout ConsensusStep
  | NewValidators ValidatorSet

fun engine_step :: "(bytes list \<Rightarrow> hash) \<Rightarrow> ConsensusEngine \<Rightarrow> EngineEvent \<Rightarrow> ConsensusEngine \<times> EngineOutput" where
  "engine_step hashv e (StartHeight h) = start_new_height h e"
| "engine_step hashv e (GotProposal m) = on_proposal hashv m e"
| "engine_step hashv e (GotPrevote m) = on_prevote m e"
| "engine_step hashv e (GotPrecommit m) = on_precommit hashv m e"
| "engine_step hashv e (Timeout s) = on_timeout s e"
| "engine_step hashv e (NewValidators vs) = (update_validator_set vs e, output_empty)"

section \<open>The tallies are exact\<close>

definition voters :: "('k, 'v) hashmap \<Rightarrow> 'v \<Rightarrow> 'k set" where
  "voters votes bh = {k. hm_get votes k = Some bh}"

definition tally :: "ValidatorSet \<Rightarrow> (pubkey, hash option) hashmap \<Rightarrow> hash option \<Rightarrow> u64" where
  "tally vs votes bh =
     wsum 64 (map (\<lambda>(k, _). stake_of vs k) (filter (\<lambda>(_, v). v = bh) votes))"

lemma finite_voters [simp]: "finite (voters votes bh)"
  by (rule finite_subset [of _ "dom (hm_get votes)"]) (auto simp: voters_def finite_dom_map_of)

lemma voters_disjoint: "b \<noteq> b' \<Longrightarrow> voters votes b \<inter> voters votes b' = {}"
  by (auto simp: voters_def)

lemma voters_insert:
  "voters (hm_insert k b votes) b' = (if b' = b then insert k (voters votes b') else voters votes b' - {k})"
  by (auto simp: voters_def)

lemma sum_list_voters:
  assumes "hm_wf votes"
  shows "sum_list (map (\<lambda>(k, _). f k) (filter (\<lambda>(_, v). v = bh) votes)) = sum f (voters votes bh)"
proof -
  have d: "distinct (map fst (filter (\<lambda>(_, v). v = bh) votes))"
    using assms by (simp add: hm_wf_def distinct_map_filter)
  have "fst ` set (filter (\<lambda>(_, v). v = bh) votes) = voters votes bh"
    using assms by (force simp: voters_def hm_wf_def)
  then have "sum f (voters votes bh) = sum_list (map f (map fst (filter (\<lambda>(_, v). v = bh) votes)))"
    using sum_list_distinct_conv_sum_set [OF d, of f] by simp
  also have "\<dots> = sum_list (map (\<lambda>(k, _). f k) (filter (\<lambda>(_, v). v = bh) votes))"
    by (simp add: case_prod_beta' comp_def)
  finally show ?thesis by simp
qed

lemma tally_exact:
  assumes "vs_ok vs" "hm_wf votes"
  shows "tally vs votes bh = sum (stake_of vs) (voters votes bh)"
  using dq.weight_le_total [OF assms(1) finite_voters, of votes bh] vs_ok_total_less [OF assms(1)] assms(2)
  by (simp add: tally_def wsum_mod sum_list_voters)

lemma wsum_snoc: "wsum w (xs @ [x]) = wadd w (wsum w xs) x"
  by (simp add: wsum_def)

lemma stake_by_hash_get:
  "hm_get (stake_by_hash vs votes) bh = (if bh \<in> snd ` set votes then Some (tally vs votes bh) else None)"
proof (induction votes rule: rev_induct)
  case Nil
  then show ?case by (simp add: stake_by_hash_def)
next
  case (snoc kv votes)
  obtain k b where kv: "kv = (k, b)" by (cases kv)
  have step: "stake_by_hash vs (votes @ [kv]) = hm_bump 64 b (stake_of vs k) (stake_by_hash vs votes)"
    by (simp add: stake_by_hash_def kv)
  have zero: "tally vs votes b = 0" if "b \<notin> snd ` set votes"
  proof -
    have "filter (\<lambda>(_, v). v = b) votes = []" using that by (force simp: filter_empty_conv)
    then show ?thesis by (simp add: tally_def wsum_def)
  qed
  have t: "tally vs (votes @ [kv]) b' =
      (if b' = b then wadd 64 (tally vs votes b') (stake_of vs k) else tally vs votes b')" for b'
    by (simp add: tally_def kv wsum_snoc)
  show ?case using snoc.IH zero
    by (cases "bh = b"; cases "bh \<in> snd ` set votes") (simp_all add: step hm_bump_def t, simp_all add: kv)
qed

lemma stake_by_hash_wf: "hm_wf (stake_by_hash vs votes)"
  by (induction votes rule: rev_induct) (auto simp: stake_by_hash_def hm_bump_def)

lemma first_quorum_SomeD: "first_quorum q m = Some h \<Longrightarrow> \<exists>s. (Some h, s) \<in> set m \<and> q \<le> s"
  by (induction q m rule: first_quorum.induct) (auto split: option.splits if_splits)

lemma first_quorum_NoneD: "first_quorum q m = None \<Longrightarrow> (Some h, s) \<in> set m \<Longrightarrow> s < q"
  by (induction q m rule: first_quorum.induct) (auto split: option.splits if_splits)

lemma first_quorum_sound:
  assumes "first_quorum q (stake_by_hash vs votes) = Some h"
  shows "q \<le> tally vs votes (Some h)"
  using first_quorum_SomeD [OF assms] stake_by_hash_get [of vs votes "Some h"]
  by (auto simp: hm_get_iff [OF stake_by_hash_wf, symmetric] split: if_splits)

lemma tally_pos_mem: "0 < tally vs votes bh \<Longrightarrow> bh \<in> snd ` set votes"
proof (rule ccontr)
  assume "bh \<notin> snd ` set votes" and pos: "0 < tally vs votes bh"
  then have "filter (\<lambda>(_, v). v = bh) votes = []" by (force simp: filter_empty_conv)
  then show False using pos by (simp add: tally_def wsum_def)
qed

lemma tally_unique:
  assumes "vs_ok vs" "hm_wf votes"
    and "quorum_stake vs default_threshold \<le> tally vs votes b"
    and "quorum_stake vs default_threshold \<le> tally vs votes b'"
  shows "b = b'"
proof (rule ccontr)
  assume "b \<noteq> b'"
  from dq.quorum_disjoint_absurd [OF assms(1) finite_voters finite_voters voters_disjoint [OF this]]
  show False using assms by (simp add: tally_exact)
qed

lemma first_quorum_iff:
  assumes "vs_ok vs" "hm_wf votes" "q = quorum_stake vs default_threshold"
  shows "first_quorum q (stake_by_hash vs votes) = Some h \<longleftrightarrow> q \<le> sum (stake_of vs) (voters votes (Some h))"
proof
  assume "first_quorum q (stake_by_hash vs votes) = Some h"
  then show "q \<le> sum (stake_of vs) (voters votes (Some h))"
    using first_quorum_sound tally_exact [OF assms(1,2)] by fastforce
next
  assume "q \<le> sum (stake_of vs) (voters votes (Some h))"
  then have q: "q \<le> tally vs votes (Some h)" using tally_exact [OF assms(1,2)] by simp
  have "Some h \<in> snd ` set votes" using q assms(3) quorum_pos [of vs default_threshold]
    by (intro tally_pos_mem [of vs]) linarith
  then have m: "(Some h, tally vs votes (Some h)) \<in> set (stake_by_hash vs votes)"
    using stake_by_hash_get [of vs votes "Some h"] by (simp add: hm_get_iff [OF stake_by_hash_wf])
  show "first_quorum q (stake_by_hash vs votes) = Some h"
  proof (cases "first_quorum q (stake_by_hash vs votes)")
    case None
    then show ?thesis using first_quorum_NoneD [OF None m] q by simp
  next
    case (Some h')
    then have "Some h' = Some h"
      using first_quorum_sound [OF Some] q assms tally_unique by blast
    then show ?thesis using Some by simp
  qed
qed

lemma first_quorum_ex:
  assumes "\<And>h s h' s'. (Some h, s) \<in> set m \<Longrightarrow> q \<le> s \<Longrightarrow> (Some h', s') \<in> set m \<Longrightarrow> q \<le> s' \<Longrightarrow> h = h'"
  shows "first_quorum q m = Some h \<longleftrightarrow> (\<exists>s. (Some h, s) \<in> set m \<and> q \<le> s)"
proof
  assume "\<exists>s. (Some h, s) \<in> set m \<and> q \<le> s"
  then obtain s where s: "(Some h, s) \<in> set m" "q \<le> s" by blast
  then obtain h' where h': "first_quorum q m = Some h'"
    using first_quorum_NoneD [of q m h s] by (cases "first_quorum q m") auto
  then show "first_quorum q m = Some h" using first_quorum_SomeD [OF h'] assms s by blast
qed (rule first_quorum_SomeD)

lemma first_quorum_perm:
  assumes "vs_ok vs" "hm_wf votes" "q = quorum_stake vs default_threshold" "mset groups = mset (stake_by_hash vs votes)"
  shows "first_quorum q groups = first_quorum q (stake_by_hash vs votes)"
proof -
  let ?m = "stake_by_hash vs votes"
  have set: "set groups = set ?m" using assms(4) by (rule mset_eq_setD)
  have uniq: "h = h'" if "(Some h, s) \<in> set ?m" "q \<le> s" "(Some h', s') \<in> set ?m" "q \<le> s'" for h s h' s'
  proof -
    have "s = tally vs votes (Some h)" "s' = tally vs votes (Some h')"
      using that stake_by_hash_get [of vs votes] by (auto simp: hm_get_iff [OF stake_by_hash_wf, symmetric] split: if_splits)
    then show ?thesis using that assms tally_unique [of vs votes "Some h" "Some h'"] by simp
  qed
  have "first_quorum q groups = Some h \<longleftrightarrow> first_quorum q ?m = Some h" for h
    using uniq by (subst (1 2) first_quorum_ex) (unfold set, blast+)
  then show ?thesis by (metis not_None_eq)
qed

end
