(* ===== verification/Engine_Steps.thy ===== *)
theory Engine_Steps
  imports Consensus_Engine
begin

text \<open>
  What one step of the engine of \<^verbatim>\<open>consensus-bft/src/engine.rs\<close> can do, one lemma per aspect (round
  order, emitted votes, recorded votes, locks, commits), and the properties of runs of one engine
  that follow: commits and precommits are backed by quorums, and no vote is cast twice.
\<close>

section \<open>One step, aspect by aspect\<close>

abbreviation epos :: "ConsensusEngine \<Rightarrow> u64 \<times> u32" where
  "epos e \<equiv> (height (cstate e), cround (cstate e))"

text \<open>
  What the lemmas on quorums and locks rely on: heights only go up (a fresh engine may be started at height
  0), the round counter does not overflow, and the validator set stays fixed. A proposer of a round close
  to the largest \<^verbatim>\<open>u32\<close> can bring an engine near the overflow; what happens after it is outside the theorems.
\<close>

fun event_ok :: "bool \<Rightarrow> ConsensusEngine \<Rightarrow> EngineEvent \<Rightarrow> bool" where
  "event_ok silent e (StartHeight h) \<longleftrightarrow> height (cstate e) < h \<or> silent \<and> epos e = (0, 0) \<and> h = 0"
| "event_ok silent e (Timeout s) \<longleftrightarrow> (s = PrecommitStep \<longrightarrow> cround (cstate e) + 1 < 2 ^ 32)"
| "event_ok silent e (NewValidators vs) \<longleftrightarrow> False"
| "event_ok silent e _ \<longleftrightarrow> True"

lemmas output_defs = output_empty_def with_messages_def with_commit_def

lemma make_vote_cong:
  "epos e = epos e' \<Longrightarrow> identity e = identity e' \<Longrightarrow> make_prevote e bh = make_prevote e' bh"
  "epos e = epos e' \<Longrightarrow> identity e = identity e' \<Longrightarrow> make_precommit e bh = make_precommit e' bh"
  by (simp_all add: make_prevote_def make_precommit_def)

lemma make_vote_eq [simp]:
  "make_prevote e bh \<noteq> make_precommit e' bh'" "make_precommit e bh \<noteq> make_prevote e' bh'"
  "make_prevote e bh = make_prevote e bh' \<longleftrightarrow> bh = bh'"
  "make_precommit e bh = make_precommit e bh' \<longleftrightarrow> bh = bh'"
  by (auto simp: make_prevote_def make_precommit_def)

text \<open>The tally of prevotes either advances the engine to precommitting or leaves it as it is.\<close>

definition advances :: "ConsensusEngine \<Rightarrow> bool" where
  "advances e \<longleftrightarrow> find_quorum_prevote_hash e \<noteq> None \<or>
     has_any_quorum_prevotes e \<and> cstep (cstate e) < PrecommitStep"

lemma try_advance_frame [simp]:
  "identity (fst (try_advance_from_prevotes (e, out))) = identity e"
  "eng_config (fst (try_advance_from_prevotes (e, out))) = eng_config e"
  "validator_set (fst (try_advance_from_prevotes (e, out))) = validator_set e"
  "sent_prevote (fst (try_advance_from_prevotes (e, out))) = sent_prevote e"
  "height (cstate (fst (try_advance_from_prevotes (e, out)))) = height (cstate e)"
  "cround (cstate (fst (try_advance_from_prevotes (e, out)))) = cround (cstate e)"
  "prevotes (cstate (fst (try_advance_from_prevotes (e, out)))) = prevotes (cstate e)"
  "proposal (cstate (fst (try_advance_from_prevotes (e, out)))) = proposal (cstate e)"
  "committed_block (snd (try_advance_from_prevotes (e, out))) = committed_block out"
  by (simp_all add: try_advance_from_prevotes_def cast_precommit_def Let_def split: option.split)

lemma try_advance_effect:
  "sent_precommit (fst (try_advance_from_prevotes (e, out))) = (sent_precommit e \<or> advances e)"
  "out_messages (snd (try_advance_from_prevotes (e, out))) = out_messages out @
     (if advances e \<and> \<not> sent_precommit e then [make_precommit e (find_quorum_prevote_hash e)] else [])"
  "precommits (cstate (fst (try_advance_from_prevotes (e, out)))) =
     (if advances e \<and> \<not> sent_precommit e
      then hm_insert (identity e) (find_quorum_prevote_hash e) (precommits (cstate e))
      else precommits (cstate e))"
  "locked_value (cstate (fst (try_advance_from_prevotes (e, out)))) =
     (if find_quorum_prevote_hash e = None then locked_value (cstate e) else find_quorum_prevote_hash e)"
  "locked_round (cstate (fst (try_advance_from_prevotes (e, out)))) =
     (if find_quorum_prevote_hash e = None then locked_round (cstate e) else Some (cround (cstate e)))"
  by (auto simp: try_advance_from_prevotes_def cast_precommit_def advances_def make_precommit_def
      Let_def split: option.split)

lemma enter_round_sel [simp]:
  "identity (enter_round r e) = identity e" "eng_config (enter_round r e) = eng_config e"
  "validator_set (enter_round r e) = validator_set e"
  "height (cstate (enter_round r e)) = height (cstate e)"
  "cround (cstate (enter_round r e)) = max r (cround (cstate e))"
  "locked_value (cstate (enter_round r e)) = locked_value (cstate e)"
  "locked_round (cstate (enter_round r e)) = locked_round (cstate e)"
  by (simp_all add: enter_round_def)

lemma enter_round_same: "enter_round (cround (cstate e)) e = e"
  by (simp add: enter_round_def)

lemma enter_round_later:
  "cround (cstate e) < r \<Longrightarrow> prevotes (cstate (enter_round r e)) = [] \<and>
     precommits (cstate (enter_round r e)) = [] \<and> \<not> sent_prevote (enter_round r e) \<and>
     \<not> sent_precommit (enter_round r e)"
  by (simp add: enter_round_def)

lemma record_prevote_sel [simp]:
  "identity (record_prevote b e) = identity e" "eng_config (record_prevote b e) = eng_config e"
  "validator_set (record_prevote b e) = validator_set e" "sent_prevote (record_prevote b e)"
  "sent_precommit (record_prevote b e) = sent_precommit e"
  "height (cstate (record_prevote b e)) = height (cstate e)"
  "cround (cstate (record_prevote b e)) = cround (cstate e)"
  "cstep (cstate (record_prevote b e)) = cstep (cstate e)"
  "prevotes (cstate (record_prevote b e)) = hm_insert (identity e) b (prevotes (cstate e))"
  "precommits (cstate (record_prevote b e)) = precommits (cstate e)"
  "locked_value (cstate (record_prevote b e)) = locked_value (cstate e)"
  "locked_round (cstate (record_prevote b e)) = locked_round (cstate e)"
  "proposal (cstate (record_prevote b e)) = proposal (cstate e)"
  by (simp_all add: record_prevote_def)

lemma determine_prevote_lock:
  "locked_value s = locked_value s' \<Longrightarrow> locked_round s = locked_round s' \<Longrightarrow>
   determine_prevote s bh vr = determine_prevote s' bh vr"
  unfolding determine_prevote_def by simp (simp split: option.split)

text \<open>Engines that differ at most in step, proposal, valid value and evidence.\<close>

definition same_votes :: "ConsensusEngine \<Rightarrow> ConsensusEngine \<Rightarrow> bool" where
  "same_votes e e' \<longleftrightarrow>
     identity e' = identity e \<and> eng_config e' = eng_config e \<and> validator_set e' = validator_set e \<and>
     sent_prevote e' = sent_prevote e \<and> sent_precommit e' = sent_precommit e \<and>
     height (cstate e') = height (cstate e) \<and> cround (cstate e') = cround (cstate e) \<and>
     locked_value (cstate e') = locked_value (cstate e) \<and> locked_round (cstate e') = locked_round (cstate e) \<and>
     prevotes (cstate e') = prevotes (cstate e) \<and> precommits (cstate e') = precommits (cstate e)"

text \<open>Engines that have begun a later round of the same height, or a new height.\<close>

definition fresh_round :: "bool \<Rightarrow> ConsensusEngine \<Rightarrow> ConsensusEngine \<Rightarrow> bool" where
  "fresh_round silent e e' \<longleftrightarrow>
     identity e' = identity e \<and> eng_config e' = eng_config e \<and> validator_set e' = validator_set e \<and>
     \<not> sent_prevote e' \<and> \<not> sent_precommit e' \<and>
     prevotes (cstate e') = [] \<and> precommits (cstate e') = [] \<and>
     (height (cstate e') = height (cstate e) \<and> cround (cstate e) < cround (cstate e') \<and>
      locked_value (cstate e') = locked_value (cstate e) \<and> locked_round (cstate e') = locked_round (cstate e) \<or>
      (height (cstate e) < height (cstate e') \<or> silent \<and> epos e' = epos e) \<and>
      locked_value (cstate e') = None \<and> locked_round (cstate e') = None)"

text \<open>The kinds of steps an engine takes.\<close>

inductive step_kind ::
    "(bytes list \<Rightarrow> hash) \<Rightarrow> bool \<Rightarrow> ConsensusEngine \<Rightarrow> EngineEvent \<Rightarrow> ConsensusEngine \<times> EngineOutput \<Rightarrow> bool"
  for hashv :: "bytes list \<Rightarrow> hash" and silent :: bool and e :: ConsensusEngine where
  quiet: "same_votes e e' \<Longrightarrow> step_kind hashv silent e ev (e', output_empty)"
| fresh: "fresh_round silent e e' \<Longrightarrow> step_kind hashv silent e ev (e', output_empty)"
| nil_prevote: "same_votes e e1 \<Longrightarrow> \<not> sent_prevote e1 \<Longrightarrow>
    step_kind hashv silent e ev (record_prevote None e1, with_messages [make_prevote e1 None])"
| proposed: "same_votes e e1 \<or> fresh_round False e e1 \<and> height (cstate e1) = height (cstate e) \<Longrightarrow>
    \<not> sent_prevote e1 \<Longrightarrow> x = determine_prevote (cstate e) (block_hash hashv block) vr \<Longrightarrow>
    step_kind hashv silent e
      (GotProposal (Proposal (height (cstate e1)) (cround (cstate e1)) block p sg vr))
      (try_advance_from_prevotes (record_prevote x e1, with_messages [make_prevote e1 x]))"
| prevote: "same_votes e e1 \<Longrightarrow>
    step_kind hashv silent e (GotPrevote (Prevote (height (cstate e1)) (cround (cstate e1)) bh voter sg))
      (try_advance_from_prevotes
        (e1\<lparr> cstate := (cstate e1)\<lparr> prevotes := hm_insert voter bh (prevotes (cstate e1)) \<rparr> \<rparr>, output_empty))"
| precommit: "same_votes e e1 \<Longrightarrow>
    step_kind hashv silent e (GotPrecommit (Precommit (height (cstate e1)) (cround (cstate e1)) bh voter sg))
      (try_commit hashv
        (e1\<lparr> cstate := (cstate e1)\<lparr> precommits := hm_insert voter bh (precommits (cstate e1)) \<rparr> \<rparr>))"
| prevote_timeout: "same_votes e e1 \<Longrightarrow>
    step_kind hashv silent e ev (cast_precommit None (e1, output_empty))"

lemma on_proposal_kind: "step_kind hashv silent e (GotProposal m) (on_proposal hashv m e)"
proof -
  have ignored: "step_kind hashv silent e (GotProposal m) (e, output_empty)"
    by (rule quiet) (simp add: same_votes_def)
  show ?thesis
  proof (cases m)
    case (Proposal h r block p sg vr)
    define e2 where "e2 = set_proposal block (enter_round r e)"
    show ?thesis
    proof (cases "h \<noteq> height (cstate e) \<or> r < cround (cstate e) \<or>
        proposer_for_round (validator_set e) h r \<noteq> Some p \<or> \<not> vs_contains (validator_set e) p")
      case True
      then show ?thesis using ignored by (auto simp: on_proposal_def Proposal)
    next
      case False
      then have g: "h = height (cstate e)" "\<not> r < cround (cstate e)"
        "proposer_for_round (validator_set e) (height (cstate e)) r = Some p"
        "vs_contains (validator_set e) p" by auto
      have e2: "same_votes e e2 \<or> fresh_round False e e2 \<and> height (cstate e2) = height (cstate e)"
        using False by (auto simp: e2_def same_votes_def fresh_round_def set_proposal_def enter_round_def)
      have pos: "height (cstate e2) = h" "cround (cstate e2) = r"
        using False by (auto simp: e2_def set_proposal_def)
      have x: "determine_prevote (cstate (enter_round r e)) bh vr = determine_prevote (cstate e) bh vr" for bh
        by (rule determine_prevote_lock) simp_all
      show ?thesis
      proof (cases "sent_prevote e2")
        case True
        then have "same_votes e e2" using e2 by (auto simp: fresh_round_def)
        from quiet [OF this, of hashv silent "GotProposal m"] show ?thesis
          using True unfolding Proposal by (simp add: on_proposal_def g e2_def [symmetric] Let_def)
      next
        case not_sent: False
        from proposed [OF e2 not_sent refl, where hashv = hashv and silent = silent
              and block = block and vr = vr and p = p and sg = sg] show ?thesis
          using not_sent unfolding pos by (simp add: on_proposal_def Proposal g e2_def [symmetric] x Let_def)
      qed
    qed
  qed (use ignored in \<open>simp_all add: on_proposal_def\<close>)
qed

lemma on_prevote_kind: "step_kind hashv silent e (GotPrevote m) (on_prevote m e)"
proof (cases m)
  case (Prevote h r bh voter sg)
  let ?e1 = "e\<lparr> evidence := fst (check_and_record m (evidence e)) \<rparr>"
  have s: "same_votes e e" "same_votes e ?e1" by (simp_all add: same_votes_def)
  show ?thesis using quiet [OF s(1)] quiet [OF s(2)] prevote [OF s(2), where hashv = hashv and silent = silent and bh = bh and voter = voter and sg = sg]
    by (auto simp: on_prevote_def Prevote Let_def)
qed (simp_all add: on_prevote_def quiet same_votes_def)

lemma on_precommit_kind: "step_kind hashv silent e (GotPrecommit m) (on_precommit hashv m e)"
proof (cases m)
  case (Precommit h r bh voter sg)
  let ?e1 = "e\<lparr> evidence := fst (check_and_record m (evidence e)) \<rparr>"
  have s: "same_votes e e" "same_votes e ?e1" by (simp_all add: same_votes_def)
  show ?thesis using quiet [OF s(1)] quiet [OF s(2)] precommit [OF s(2), where hashv = hashv and silent = silent and bh = bh and voter = voter and sg = sg]
    by (auto simp: on_precommit_def Precommit Let_def)
qed (simp_all add: on_precommit_def quiet same_votes_def)

lemma propose_timeout_kind: "step_kind hashv silent e ev (propose_timeout_fired e)"
proof -
  let ?e1 = "e\<lparr> cstate := (cstate e)\<lparr> cstep := PrevoteStep \<rparr> \<rparr>"
  have s: "same_votes e e" "same_votes e ?e1" by (simp_all add: same_votes_def)
  show ?thesis using quiet [OF s(1)] quiet [OF s(2)] nil_prevote [OF s(2)]
    by (auto simp: propose_timeout_fired_def Let_def)
qed

lemma on_timeout_kind:
  assumes "event_ok silent e (Timeout s)"
  shows "step_kind hashv silent e ev (on_timeout s e)"
proof (cases s)
  case PrevoteStep
  have s: "same_votes e e" "same_votes e (e\<lparr> cstate := (cstate e)\<lparr> cstep := PrecommitStep \<rparr> \<rparr>)"
    by (simp_all add: same_votes_def)
  show ?thesis using quiet [OF s(1)] prevote_timeout [OF s(2)] by (simp add: on_timeout_def PrevoteStep)
next
  case PrecommitStep
  then have "fresh_round silent e (fst (start_round (wadd 32 (cround (cstate e)) 1) e))"
    using assms by (simp add: fresh_round_def start_round_def wadd_exact)
  from fresh [OF this] show ?thesis by (simp add: on_timeout_def PrecommitStep start_round_def)
qed (simp_all add: on_timeout_def propose_timeout_kind quiet same_votes_def)

lemma engine_step_kind:
  assumes "event_ok silent e ev"
  shows "step_kind hashv silent e ev (engine_step hashv e ev)"
proof (cases ev)
  case (StartHeight h)
  have "fresh_round silent e (fst (start_new_height h e))"
    using assms by (auto simp: StartHeight fresh_round_def start_new_height_def start_round_def)
  from fresh [OF this] show ?thesis by (simp add: StartHeight start_new_height_def start_round_def)
qed (use assms in \<open>simp_all add: on_proposal_kind on_prevote_kind on_precommit_kind on_timeout_kind\<close>)

section \<open>Aspects of a step\<close>

lemma try_commit_frame [simp]:
  "identity (fst (try_commit hashv e)) = identity e"
  "eng_config (fst (try_commit hashv e)) = eng_config e"
  "validator_set (fst (try_commit hashv e)) = validator_set e"
  "sent_prevote (fst (try_commit hashv e)) = sent_prevote e"
  "sent_precommit (fst (try_commit hashv e)) = sent_precommit e"
  "height (cstate (fst (try_commit hashv e))) = height (cstate e)"
  "cround (cstate (fst (try_commit hashv e))) = cround (cstate e)"
  "locked_value (cstate (fst (try_commit hashv e))) = locked_value (cstate e)"
  "locked_round (cstate (fst (try_commit hashv e))) = locked_round (cstate e)"
  "prevotes (cstate (fst (try_commit hashv e))) = prevotes (cstate e)"
  "precommits (cstate (fst (try_commit hashv e))) = precommits (cstate e)"
  "proposal (cstate (fst (try_commit hashv e))) = proposal (cstate e)"
  "out_messages (snd (try_commit hashv e)) = []"
  by (simp_all add: try_commit_def output_defs split: option.split)

lemma cast_precommit_frame [simp]:
  "identity (fst (cast_precommit b (e, out))) = identity e"
  "eng_config (fst (cast_precommit b (e, out))) = eng_config e"
  "validator_set (fst (cast_precommit b (e, out))) = validator_set e"
  "sent_prevote (fst (cast_precommit b (e, out))) = sent_prevote e"
  "sent_precommit (fst (cast_precommit b (e, out)))"
  "height (cstate (fst (cast_precommit b (e, out)))) = height (cstate e)"
  "cround (cstate (fst (cast_precommit b (e, out)))) = cround (cstate e)"
  "locked_value (cstate (fst (cast_precommit b (e, out)))) = locked_value (cstate e)"
  "locked_round (cstate (fst (cast_precommit b (e, out)))) = locked_round (cstate e)"
  "prevotes (cstate (fst (cast_precommit b (e, out)))) = prevotes (cstate e)"
  "precommits (cstate (fst (cast_precommit b (e, out)))) =
     (if sent_precommit e then precommits (cstate e) else hm_insert (identity e) b (precommits (cstate e)))"
  "out_messages (snd (cast_precommit b (e, out))) =
     out_messages out @ (if sent_precommit e then [] else [make_precommit e b])"
  "committed_block (snd (cast_precommit b (e, out))) = committed_block out"
  by (simp_all add: cast_precommit_def)

lemma output_sel [simp]:
  "out_messages output_empty = []" "committed_block output_empty = None"
  "out_messages (with_messages ms) = ms" "committed_block (with_messages ms) = None"
  "out_messages (with_commit cb) = []" "committed_block (with_commit cb) = Some cb"
  by (simp_all add: output_defs)

lemma kind_static:
  assumes "step_kind hashv silent e ev res"
  shows "identity (fst res) = identity e \<and> eng_config (fst res) = eng_config e \<and>
    validator_set (fst res) = validator_set e"
  using assms by cases (auto simp: same_votes_def fresh_round_def)

lemma kind_pos:
  assumes "step_kind hashv silent e ev res"
  shows "epos e \<le> epos (fst res)"
  using assms by cases (auto simp: same_votes_def fresh_round_def)

text \<open>The votes a step emits carry the position after the step and our identity.\<close>

lemma kind_messages:
  assumes "step_kind hashv silent e ev res" "m \<in> set (out_messages (snd res))"
  shows "\<exists>bh. m = make_prevote (fst res) bh \<or> m = make_precommit (fst res) bh"
  using assms
  by cases (auto simp: same_votes_def fresh_round_def try_advance_effect make_prevote_def make_precommit_def
      split: if_splits)

lemma kind_distinct:
  assumes "step_kind hashv silent e ev res"
  shows "distinct (out_messages (snd res))"
    and "make_prevote (fst res) b \<in> set (out_messages (snd res)) \<Longrightarrow>
      make_prevote (fst res) b' \<in> set (out_messages (snd res)) \<Longrightarrow> b = b'"
    and "make_precommit (fst res) b \<in> set (out_messages (snd res)) \<Longrightarrow>
      make_precommit (fst res) b' \<in> set (out_messages (snd res)) \<Longrightarrow> b = b'"
  using assms
  by (cases, auto simp: same_votes_def fresh_round_def try_advance_effect make_prevote_def make_precommit_def
      split: if_splits)+

text \<open>A vote is emitted only in a round in which none was emitted before.\<close>

lemma kind_prevote_flag:
  assumes "step_kind hashv silent e ev res"
  shows "make_prevote (fst res) b \<in> set (out_messages (snd res)) \<Longrightarrow>
      sent_prevote (fst res) \<and> (epos (fst res) = epos e \<longrightarrow> \<not> sent_prevote e)"
    and "epos (fst res) = epos e \<Longrightarrow> sent_prevote e \<Longrightarrow> sent_prevote (fst res) \<or> silent"
  using assms
  by (cases, auto simp: same_votes_def fresh_round_def try_advance_effect make_prevote_def make_precommit_def
      split: if_splits)+

lemma kind_precommit_flag:
  assumes "step_kind hashv silent e ev res"
  shows "make_precommit (fst res) b \<in> set (out_messages (snd res)) \<Longrightarrow>
      sent_precommit (fst res) \<and> (epos (fst res) = epos e \<longrightarrow> \<not> sent_precommit e)"
    and "epos (fst res) = epos e \<Longrightarrow> sent_precommit e \<Longrightarrow> sent_precommit (fst res) \<or> silent"
  using assms
  by (cases, auto simp: same_votes_def fresh_round_def try_advance_effect make_prevote_def make_precommit_def
      split: if_splits)+

text \<open>Recorded votes: kept from before, taken from the event, or our own.\<close>

lemma kind_prevotes:
  assumes "step_kind hashv silent e ev res" "hm_get (prevotes (cstate (fst res))) k = Some x"
  shows "epos (fst res) = epos e \<and> hm_get (prevotes (cstate e)) k = Some x \<or>
    (\<exists>sg. ev = GotPrevote (Prevote (height (cstate (fst res))) (cround (cstate (fst res))) x k sg)) \<or>
    k = identity e \<and> make_prevote (fst res) x \<in> set (out_messages (snd res))"
  using assms
  by cases (auto simp: same_votes_def fresh_round_def try_advance_effect make_prevote_def make_precommit_def
      split: if_splits)

lemma kind_precommits:
  assumes "step_kind hashv silent e ev res" "hm_get (precommits (cstate (fst res))) k = Some x"
  shows "epos (fst res) = epos e \<and> hm_get (precommits (cstate e)) k = Some x \<or>
    (\<exists>sg. ev = GotPrecommit (Precommit (height (cstate (fst res))) (cround (cstate (fst res))) x k sg)) \<or>
    k = identity e \<and> make_precommit (fst res) x \<in> set (out_messages (snd res))"
  using assms
  by cases (auto simp: same_votes_def fresh_round_def try_advance_effect make_prevote_def make_precommit_def
      split: if_splits)

definition eng_wf :: "ConsensusEngine \<Rightarrow> bool" where
  "eng_wf e \<longleftrightarrow> hm_wf (prevotes (cstate e)) \<and> hm_wf (precommits (cstate e))"

lemma kind_wf: "step_kind hashv silent e ev res \<Longrightarrow> eng_wf e \<Longrightarrow> eng_wf (fst res)"
  unfolding eng_wf_def
  by (cases rule: step_kind.cases, assumption)
    (auto simp: same_votes_def fresh_round_def try_advance_effect)

lemma find_quorum_prevote_cong:
  "validator_set e = validator_set e' \<Longrightarrow> eng_config e = eng_config e' \<Longrightarrow>
   prevotes (cstate e) = prevotes (cstate e') \<Longrightarrow> find_quorum_prevote_hash e = find_quorum_prevote_hash e'"
  by (simp add: find_quorum_prevote_hash_def engine_quorum_def)

text \<open>Locks: kept, dropped with the height, or taken on a quorum of prevotes of the current round.\<close>

lemma kind_lock:
  assumes "step_kind hashv silent e ev res"
  shows "(height (cstate (fst res)) = height (cstate e) \<and>
      locked_value (cstate (fst res)) = locked_value (cstate e) \<and>
      locked_round (cstate (fst res)) = locked_round (cstate e)) \<or>
    ((height (cstate e) < height (cstate (fst res)) \<or> silent) \<and>
      locked_value (cstate (fst res)) = None \<and> locked_round (cstate (fst res)) = None) \<or>
    (height (cstate (fst res)) = height (cstate e) \<and> find_quorum_prevote_hash (fst res) \<noteq> None \<and>
      locked_value (cstate (fst res)) = find_quorum_prevote_hash (fst res) \<and>
      locked_round (cstate (fst res)) = Some (cround (cstate (fst res))))"
  using assms
proof cases
  case (proposed e1 x block vr p sg)
  have "find_quorum_prevote_hash (fst res) = find_quorum_prevote_hash (record_prevote x e1)"
    unfolding proposed by (rule find_quorum_prevote_cong) simp_all
  then show ?thesis using proposed
    by (auto simp: same_votes_def fresh_round_def try_advance_effect split: if_splits)
next
  case (prevote e1 bh voter sg)
  have "find_quorum_prevote_hash (fst res) = find_quorum_prevote_hash
      (e1\<lparr> cstate := (cstate e1)\<lparr> prevotes := hm_insert voter bh (prevotes (cstate e1)) \<rparr> \<rparr>)"
    unfolding prevote by (rule find_quorum_prevote_cong) simp_all
  then show ?thesis using prevote
    by (auto simp: same_votes_def fresh_round_def try_advance_effect split: if_splits)
qed (auto simp: same_votes_def fresh_round_def)

lemma kind_precommit_value:
  assumes "step_kind hashv silent e ev res" "make_precommit (fst res) (Some v) \<in> set (out_messages (snd res))"
  shows "find_quorum_prevote_hash (fst res) = Some v \<and> locked_value (cstate (fst res)) = Some v \<and>
    locked_round (cstate (fst res)) = Some (cround (cstate (fst res))) \<and>
    height (cstate (fst res)) = height (cstate e)"
  using assms
proof cases
  case (proposed e1 x block vr p sg)
  have "find_quorum_prevote_hash (fst res) = find_quorum_prevote_hash (record_prevote x e1)"
    unfolding proposed by (rule find_quorum_prevote_cong) simp_all
  then show ?thesis using proposed assms(2)
    by (auto simp: same_votes_def fresh_round_def try_advance_effect make_prevote_def make_precommit_def
        split: if_splits)
next
  case (prevote e1 bh voter sg)
  have "find_quorum_prevote_hash (fst res) = find_quorum_prevote_hash
      (e1\<lparr> cstate := (cstate e1)\<lparr> prevotes := hm_insert voter bh (prevotes (cstate e1)) \<rparr> \<rparr>)"
    unfolding prevote by (rule find_quorum_prevote_cong) simp_all
  then show ?thesis using prevote assms(2)
    by (auto simp: same_votes_def fresh_round_def try_advance_effect make_prevote_def make_precommit_def
        split: if_splits)
qed (auto simp: make_prevote_def make_precommit_def split: if_splits)

lemma kind_prevote_value:
  assumes "step_kind hashv silent e ev res" "make_prevote (fst res) (Some c) \<in> set (out_messages (snd res))"
  shows "height (cstate (fst res)) = height (cstate e) \<and>
    (\<exists>block p sg vr.
       ev = GotProposal (Proposal (height (cstate (fst res))) (cround (cstate (fst res))) block p sg vr) \<and>
       c = block_hash hashv block \<and> determine_prevote (cstate e) c vr = Some c)"
  using assms
proof cases
  case (proposed e1 x block vr p sg)
  have x: "x = Some c" using proposed assms(2)
    by (auto simp: try_advance_effect make_prevote_def make_precommit_def split: if_splits)
  then have "c = block_hash hashv block" using proposed(5)
    by (auto simp: determine_prevote_def split: option.splits if_splits)
  then show ?thesis using proposed x by (auto simp: same_votes_def)
qed (auto simp: try_advance_effect make_prevote_def make_precommit_def split: if_splits)

lemma try_commit_committed:
  assumes "committed_block (snd (try_commit hashv e)) = Some cb"
  shows "find_quorum_precommit_hash e = Some (block_hash hashv (cb_block cb)) \<and>
    proposal (cstate e) = Some (cb_block cb) \<and> commit_round cb = cround (cstate e) \<and>
    commit_signatures cb = commit_sigs (precommits (cstate e)) (block_hash hashv (cb_block cb)) \<and>
    cstep (cstate (fst (try_commit hashv e))) = Commit"
  using assms by (auto simp: try_commit_def split: option.splits if_splits)

lemma find_quorum_precommit_cong:
  "validator_set e = validator_set e' \<Longrightarrow> eng_config e = eng_config e' \<Longrightarrow>
   precommits (cstate e) = precommits (cstate e') \<Longrightarrow> find_quorum_precommit_hash e = find_quorum_precommit_hash e'"
  by (simp add: find_quorum_precommit_hash_def engine_quorum_def)

lemma kind_commit:
  assumes "step_kind hashv silent e ev res" "committed_block (snd res) = Some cb"
  shows "find_quorum_precommit_hash (fst res) = Some (block_hash hashv (cb_block cb)) \<and>
    proposal (cstate (fst res)) = Some (cb_block cb) \<and> commit_round cb = cround (cstate (fst res)) \<and>
    commit_signatures cb = commit_sigs (precommits (cstate (fst res))) (block_hash hashv (cb_block cb)) \<and>
    cstep (cstate (fst res)) = Commit"
  using assms
proof cases
  case (precommit e1 bh voter sg)
  let ?e2 = "e1\<lparr> cstate := (cstate e1)\<lparr> precommits := hm_insert voter bh (precommits (cstate e1)) \<rparr> \<rparr>"
  have "find_quorum_precommit_hash (fst (try_commit hashv ?e2)) = find_quorum_precommit_hash ?e2"
    by (rule find_quorum_precommit_cong) simp_all
  then show ?thesis using precommit try_commit_committed [of hashv ?e2 cb] assms(2) by simp
qed simp_all

section \<open>Quorums of an engine with the default threshold\<close>

definition eng_ok :: "ConsensusEngine \<Rightarrow> bool" where
  "eng_ok e \<longleftrightarrow> eng_wf e \<and> vs_ok (validator_set e) \<and> finality_threshold (eng_config e) = default_threshold"

lemma kind_ok: "step_kind hashv silent e ev res \<Longrightarrow> eng_ok e \<Longrightarrow> eng_ok (fst res)"
  using kind_static [of hashv silent e ev res] kind_wf [of hashv silent e ev res] by (simp add: eng_ok_def)

abbreviation stake_weight :: "ConsensusEngine \<Rightarrow> pubkey set \<Rightarrow> nat" where
  "stake_weight e \<equiv> sum (stake_of (validator_set e))"

lemma prevote_quorum_iff:
  "eng_ok e \<Longrightarrow> find_quorum_prevote_hash e = Some h \<longleftrightarrow>
     engine_quorum e \<le> stake_weight e (voters (prevotes (cstate e)) (Some h))"
  unfolding find_quorum_prevote_hash_def eng_ok_def eng_wf_def
  by (intro first_quorum_iff) (simp_all add: engine_quorum_def)

lemma precommit_quorum_iff:
  "eng_ok e \<Longrightarrow> find_quorum_precommit_hash e = Some h \<longleftrightarrow>
     engine_quorum e \<le> stake_weight e (voters (precommits (cstate e)) (Some h))"
  unfolding find_quorum_precommit_hash_def eng_ok_def eng_wf_def
  by (intro first_quorum_iff) (simp_all add: engine_quorum_def)

lemma engine_quorum_two_thirds:
  "eng_ok e \<Longrightarrow> 2 * total_stake (validator_set e) < 3 * engine_quorum e"
  using dq.quorum_two_thirds by (simp add: eng_ok_def engine_quorum_def)

lemma commit_sigs_voters: "hm_wf votes \<Longrightarrow> fst ` set (commit_sigs votes h) = voters votes (Some h)"
  by (force simp: commit_sigs_def voters_def hm_wf_def)

section \<open>Runs of one engine\<close>

fun engine_run ::
    "(bytes list \<Rightarrow> hash) \<Rightarrow> ConsensusEngine \<times> ConsensusMessage list \<Rightarrow> EngineEvent \<Rightarrow>
     ConsensusEngine \<times> ConsensusMessage list" where
  "engine_run hashv (e, ms) ev =
     (fst (engine_step hashv e ev), ms @ out_messages (snd (engine_step hashv e ev)))"

fun engine_run_ok :: "ConsensusEngine \<times> ConsensusMessage list \<Rightarrow> EngineEvent \<Rightarrow> bool" where
  "engine_run_ok (e, ms) ev = event_ok (ms = []) e ev"

text \<open>Whose votes, and for which rounds, a log may hold.\<close>

fun own_vote :: "pubkey \<Rightarrow> u64 \<times> u32 \<Rightarrow> ConsensusMessage \<Rightarrow> bool" where
  "own_vote me pos (Prevote h r bh v sg) \<longleftrightarrow> v = me \<and> sg = default_signature \<and> (h, r) \<le> pos"
| "own_vote me pos (Precommit h r bh v sg) \<longleftrightarrow> v = me \<and> sg = default_signature \<and> (h, r) \<le> pos"
| "own_vote me pos (Proposal _ _ _ _ _ _) \<longleftrightarrow> False"

definition votes_unique :: "ConsensusMessage set \<Rightarrow> bool" where
  "votes_unique M \<longleftrightarrow>
     (\<forall>h r v b b' sg sg'. Prevote h r b v sg \<in> M \<longrightarrow> Prevote h r b' v sg' \<in> M \<longrightarrow> b = b') \<and>
     (\<forall>h r v b b' sg sg'. Precommit h r b v sg \<in> M \<longrightarrow> Precommit h r b' v sg' \<in> M \<longrightarrow> b = b')"

fun engine_log_inv :: "ConsensusEngine \<times> ConsensusMessage list \<Rightarrow> bool" where
  "engine_log_inv (e, ms) \<longleftrightarrow>
     (\<forall>m \<in> set ms. own_vote (identity e) (epos e) m) \<and> votes_unique (set ms) \<and>
     (\<not> sent_prevote e \<longrightarrow> (\<forall>b. make_prevote e b \<notin> set ms)) \<and>
     (\<not> sent_precommit e \<longrightarrow> (\<forall>b. make_precommit e b \<notin> set ms))"

lemma engine_log_own: "engine_log_inv (e, ms) \<Longrightarrow> m \<in> set ms \<Longrightarrow> own_vote (identity e) (epos e) m"
  by simp

lemma own_vote_mono: "own_vote me pos m \<Longrightarrow> pos \<le> pos' \<Longrightarrow> own_vote me pos' m"
  by (cases m) (auto intro: order_trans)

lemma own_prevote_at:
  assumes "own_vote (identity e) (epos e) (Prevote h r b v sg)" "epos e \<le> (h, r)"
  shows "epos e = (h, r)" "Prevote h r b v sg = make_prevote e b"
proof -
  show *: "epos e = (h, r)" using assms by (auto dest: antisym)
  show "Prevote h r b v sg = make_prevote e b" using assms(1) * by (auto simp: make_prevote_def)
qed

lemma own_precommit_at:
  assumes "own_vote (identity e) (epos e) (Precommit h r b v sg)" "epos e \<le> (h, r)"
  shows "epos e = (h, r)" "Precommit h r b v sg = make_precommit e b"
proof -
  show *: "epos e = (h, r)" using assms by (auto dest: antisym)
  show "Precommit h r b v sg = make_precommit e b" using assms(1) * by (auto simp: make_precommit_def)
qed

lemma kind_no_second_prevote:
  assumes K: "step_kind hashv (ms = []) e ev res" and I: "engine_log_inv (e, ms)"
    and old: "make_prevote (fst res) b \<in> set ms"
  shows "make_prevote (fst res) b' \<notin> set (out_messages (snd res)) \<and> sent_prevote (fst res)"
proof -
  have own: "own_vote (identity e) (epos e) (make_prevote (fst res) b)" by (rule engine_log_own [OF I old])
  from own_prevote_at [OF own [unfolded make_prevote_def]] kind_pos [OF K]
  have pos: "epos e = epos (fst res)" and eq: "make_prevote (fst res) b = make_prevote e b"
    by (simp_all add: make_prevote_def)
  then have "sent_prevote e" using I old by auto
  moreover have "ms \<noteq> []" using old by auto
  ultimately show ?thesis using kind_prevote_flag [OF K] pos by auto
qed

lemma kind_no_second_precommit:
  assumes K: "step_kind hashv (ms = []) e ev res" and I: "engine_log_inv (e, ms)"
    and old: "make_precommit (fst res) b \<in> set ms"
  shows "make_precommit (fst res) b' \<notin> set (out_messages (snd res)) \<and> sent_precommit (fst res)"
proof -
  have own: "own_vote (identity e) (epos e) (make_precommit (fst res) b)" by (rule engine_log_own [OF I old])
  from own_precommit_at [OF own [unfolded make_precommit_def]] kind_pos [OF K]
  have pos: "epos e = epos (fst res)" and eq: "make_precommit (fst res) b = make_precommit e b"
    by (simp_all add: make_precommit_def)
  then have "sent_precommit e" using I old by auto
  moreover have "ms \<noteq> []" using old by auto
  ultimately show ?thesis using kind_precommit_flag [OF K] pos by auto
qed

text \<open>A new vote never contradicts one of the log.\<close>

lemma kind_new_prevote_unique:
  assumes K: "step_kind hashv (ms = []) e ev res" and I: "engine_log_inv (e, ms)"
    and new: "Prevote h r b v sg \<in> set (out_messages (snd res))"
    and any: "Prevote h r b' v sg' \<in> set ms \<union> set (out_messages (snd res))"
  shows "b = b'"
proof -
  have new': "Prevote h r b v sg = make_prevote (fst res) b"
    using kind_messages [OF K new] by (auto simp: make_prevote_def make_precommit_def)
  have "Prevote h r b' v sg' \<notin> set ms"
  proof
    assume old: "Prevote h r b' v sg' \<in> set ms"
    then have "own_vote (identity e) (epos e) (Prevote h r b' v sg')" by (rule engine_log_own [OF I])
    then have "Prevote h r b' v sg' = make_prevote (fst res) b'" using new' by (simp add: make_prevote_def)
    then show False using kind_no_second_prevote [OF K I, of b' b] old new new' by simp
  qed
  then have m: "Prevote h r b' v sg' \<in> set (out_messages (snd res))" using any by simp
  then have "Prevote h r b' v sg' = make_prevote (fst res) b'"
    using kind_messages [OF K m] by (auto simp: make_prevote_def make_precommit_def)
  then show ?thesis using kind_distinct(2) [OF K, of b b'] new new' m by simp
qed

lemma kind_new_precommit_unique:
  assumes K: "step_kind hashv (ms = []) e ev res" and I: "engine_log_inv (e, ms)"
    and new: "Precommit h r b v sg \<in> set (out_messages (snd res))"
    and any: "Precommit h r b' v sg' \<in> set ms \<union> set (out_messages (snd res))"
  shows "b = b'"
proof -
  have new': "Precommit h r b v sg = make_precommit (fst res) b"
    using kind_messages [OF K new] by (auto simp: make_prevote_def make_precommit_def)
  have "Precommit h r b' v sg' \<notin> set ms"
  proof
    assume old: "Precommit h r b' v sg' \<in> set ms"
    then have "own_vote (identity e) (epos e) (Precommit h r b' v sg')" by (rule engine_log_own [OF I])
    then have "Precommit h r b' v sg' = make_precommit (fst res) b'" using new' by (simp add: make_precommit_def)
    then show False using kind_no_second_precommit [OF K I, of b' b] old new new' by simp
  qed
  then have m: "Precommit h r b' v sg' \<in> set (out_messages (snd res))" using any by simp
  then have "Precommit h r b' v sg' = make_precommit (fst res) b'"
    using kind_messages [OF K m] by (auto simp: make_prevote_def make_precommit_def)
  then show ?thesis using kind_distinct(3) [OF K, of b b'] new new' m by simp
qed

lemma votes_uniqueI:
  assumes "\<And>h r v b b' sg sg'. Prevote h r b v sg \<in> M \<Longrightarrow> Prevote h r b' v sg' \<in> M \<Longrightarrow> b = b'"
    and "\<And>h r v b b' sg sg'. Precommit h r b v sg \<in> M \<Longrightarrow> Precommit h r b' v sg' \<in> M \<Longrightarrow> b = b'"
  shows "votes_unique M"
  using assms unfolding votes_unique_def by blast

lemma kind_log_inv:
  assumes K: "step_kind hashv (ms = []) e ev res" and I: "engine_log_inv (e, ms)"
  shows "engine_log_inv (fst res, ms @ out_messages (snd res))"
proof -
  let ?new = "set (out_messages (snd res))"
  have own: "own_vote (identity (fst res)) (epos (fst res)) m" if "m \<in> set ms \<union> ?new" for m
  proof (cases "m \<in> set ms")
    case True
    then have "own_vote (identity e) (epos e) m" by (rule engine_log_own [OF I])
    then show ?thesis using own_vote_mono [OF _ kind_pos [OF K]] kind_static [OF K] by simp
  next
    case False
    then show ?thesis using that kind_messages [OF K, of m] by (auto simp: make_prevote_def make_precommit_def)
  qed
  have old: "votes_unique (set ms)" using I by simp
  have "votes_unique (set ms \<union> ?new)"
  proof (rule votes_uniqueI)
    fix h r v b b' sg sg'
    show "b = b'" if "Prevote h r b v sg \<in> set ms \<union> ?new" "Prevote h r b' v sg' \<in> set ms \<union> ?new"
      using that old kind_new_prevote_unique [OF K I] unfolding votes_unique_def by (metis UnE)
    show "b = b'" if "Precommit h r b v sg \<in> set ms \<union> ?new" "Precommit h r b' v sg' \<in> set ms \<union> ?new"
      using that old kind_new_precommit_unique [OF K I] unfolding votes_unique_def by (metis UnE)
  qed
  moreover have "make_prevote (fst res) b \<notin> set ms \<union> ?new" if "\<not> sent_prevote (fst res)" for b
    using that kind_no_second_prevote [OF K I] kind_prevote_flag(1) [OF K] by blast
  moreover have "make_precommit (fst res) b \<notin> set ms \<union> ?new" if "\<not> sent_precommit (fst res)" for b
    using that kind_no_second_precommit [OF K I] kind_precommit_flag(1) [OF K] by blast
  ultimately show ?thesis using own by simp
qed

interpretation er: guarded_system "engine_run hashv" engine_run_ok engine_log_inv for hashv
proof unfold_locales
  fix s ev
  assume inv: "engine_log_inv s" and ok: "engine_run_ok s ev"
  obtain e ms where s: "s = (e, ms)" by (cases s)
  have "step_kind hashv (ms = []) e ev (engine_step hashv e ev)"
    using ok s by (intro engine_step_kind) simp
  from kind_log_inv [OF this] inv show "engine_log_inv (engine_run hashv s ev)" by (simp add: s)
qed

text \<open>For the votes alone the validator set may change at any time.\<close>

fun vote_run_ok :: "ConsensusEngine \<times> ConsensusMessage list \<Rightarrow> EngineEvent \<Rightarrow> bool" where
  "vote_run_ok s (NewValidators vs) \<longleftrightarrow> True"
| "vote_run_ok s ev \<longleftrightarrow> engine_run_ok s ev"

interpretation vr: guarded_system "engine_run hashv" vote_run_ok engine_log_inv for hashv
proof unfold_locales
  fix s ev
  assume inv: "engine_log_inv s" and ok: "vote_run_ok s ev"
  show "engine_log_inv (engine_run hashv s ev)"
  proof (cases "\<exists>vs. ev = NewValidators vs")
    case True
    then show ?thesis using inv
      by (cases s) (auto simp: update_validator_set_def make_prevote_def make_precommit_def)
  next
    case False
    then have "engine_run_ok s ev" using ok by (cases ev) auto
    then show ?thesis by (rule er.guarded_step [OF inv])
  qed
qed

lemma engine_log_inv_new: "engine_log_inv (ConsensusEngine_new c me vs, [])"
  by (simp add: votes_unique_def)

lemma vote_entry_sender: "vote_entry m = Some (key, v) \<Longrightarrow> msg_sender m = vk_voter key"
  by (cases m) (auto simp: msg_sender_def)

lemma votes_uniqueD:
  "votes_unique M \<Longrightarrow> Prevote h r b v sg \<in> M \<Longrightarrow> Prevote h r b' v sg' \<in> M \<Longrightarrow> b = b'"
  "votes_unique M \<Longrightarrow> Precommit h r b v sg \<in> M \<Longrightarrow> Precommit h r b' v sg' \<in> M \<Longrightarrow> b = b'"
  unfolding votes_unique_def by blast+

lemma votes_unique_entry:
  "votes_unique M \<Longrightarrow> m \<in> M \<Longrightarrow> m' \<in> M \<Longrightarrow> vote_entry m = Some (key, v) \<Longrightarrow> vote_entry m' = Some (key, v') \<Longrightarrow>
   sv_hash v = sv_hash v'"
  by (cases m; cases m') (auto, (metis votes_uniqueD)+)

section \<open>Properties\<close>

text \<open>
  The examples: a set with stakes 300, 100 and 100, whose quorum is 334, and the engine of the
  validator \<open>[1]\<close>; the hash parameter is concatenation.
\<close>

definition example_block :: ProposedBlock where
  "example_block = \<lparr> parent_hash = [], blk_height = 0, timestamp = 7, transactions = [], state_root = [5],
     blk_proposer = [2] \<rparr>"

definition example_engine :: ConsensusEngine where
  "example_engine = ConsensusEngine_new BftConfig_default [1] example_set"

definition example_hash :: hash where
  "example_hash = block_hash concat example_block"

lemma example_quorum: "quorum_stake example_set (finality_threshold BftConfig_default) = 334"
  unfolding default_threshold_def [symmetric]
  by (simp add: quorum_stake_def example_set_eval f64_of_nat_exact f64_mul_def default_threshold_value
      f64_eval rnd_mag.simps [of "375487618932015125 / 1125899906842624"] f64_ceil_def f64_to_u64_def umax_def)

lemma example_stakes:
  "stake_of example_set [1] = 100" "stake_of example_set [2] = 300" "stake_of example_set [3] = 100"
  "vs_contains example_set [1]" "vs_contains example_set [2]" "vs_contains example_set [3]"
  by (simp_all add: example_set_def ValidatorSet_new_def validator_key_def
      stake_of_def get_by_pubkey_def build_index_def vs_contains_def)

lemma example_proposer:
  "proposer_for_round example_set 0 0 = Some [2]" "proposer_for_round example_set 0 (Suc 0) = Some [2]"
  by (simp_all add: proposer_for_round_def vs_is_empty_def example_set_eval wadd_def sat_add_def umax_def)

lemma example_engine_ok: "eng_ok example_engine"
  by (simp add: eng_ok_def eng_wf_def example_engine_def ConsensusEngine_new_def example_set_ok
      default_threshold_def)

lemmas example_eval = example_engine_def ConsensusEngine_new_def ConsensusState_new_def on_proposal_def
  on_prevote_def on_precommit_def try_commit_def try_advance_from_prevotes_def cast_precommit_def
  enter_round_def set_proposal_def record_prevote_def determine_prevote_def find_quorum_prevote_hash_def
  find_quorum_precommit_hash_def has_any_quorum_prevotes_def engine_quorum_def example_quorum example_stakes
  example_proposer stake_by_hash_def hm_bump_def wadd_def wsum_def Let_def

text \<open>The engine after the proposal, and after the prevote of \<open>[2]\<close> that completes the quorum.\<close>

definition example_prevoted :: ConsensusEngine where
  "example_prevoted =
     fst (on_proposal concat (Proposal 0 0 example_block [2] [] None) example_engine)"

definition example_locked :: ConsensusEngine where
  "example_locked = fst (on_prevote (Prevote 0 0 (Some example_hash) [2] []) example_prevoted)"

lemma example_prevoted_eval:
  "cstate example_prevoted = (ConsensusState_new 0)\<lparr> cstep := PrevoteStep, proposal := Some example_block,
     prevotes := [([1], Some example_hash)] \<rparr>"
  "validator_set example_prevoted = example_set" "eng_config example_prevoted = BftConfig_default"
  "identity example_prevoted = [1]" "sent_prevote example_prevoted" "\<not> sent_precommit example_prevoted"
  by (simp_all add: example_prevoted_def example_eval example_hash_def)

lemma example_locked_eval:
  "cstate example_locked = (ConsensusState_new 0)\<lparr> cstep := PrecommitStep, proposal := Some example_block,
     prevotes := [([1], Some example_hash), ([2], Some example_hash)],
     precommits := [([1], Some example_hash)],
     valid_value := Some example_hash, valid_round := Some 0,
     locked_value := Some example_hash, locked_round := Some 0 \<rparr>"
  "validator_set example_locked = example_set" "eng_config example_locked = BftConfig_default"
  "identity example_locked = [1]"
  by (simp_all add: example_locked_def example_prevoted_eval example_eval)

lemma example_ok: "eng_ok example_prevoted" "eng_ok example_locked"
  by (simp_all add: eng_ok_def eng_wf_def example_prevoted_eval example_locked_eval example_set_ok
      default_threshold_def ConsensusState_new_def hm_wf_def)

text \<open>
  C3: A block is committed only when it is the stored proposal and the recorded precommits for its
  hash hold more than two thirds of the stake; the commit lists exactly their signers, in the
  current round, and the engine is then in the commit step.
\<close>

theorem commit_backed_by_quorum:
  assumes "eng_ok e" "event_ok silent e ev" "engine_step hashv e ev = (e', out)"
    and "committed_block out = Some cb"
  shows "proposal (cstate e') = Some (cb_block cb) \<and> cstep (cstate e') = Commit \<and>
    commit_round cb = cround (cstate e') \<and>
    fst ` set (commit_signatures cb) = voters (precommits (cstate e')) (Some (block_hash hashv (cb_block cb))) \<and>
    2 * total_stake (validator_set e') < 3 * stake_weight e' (fst ` set (commit_signatures cb))"
proof -
  have K: "step_kind hashv silent e ev (e', out)" using engine_step_kind [OF assms(2)] assms(3) by metis
  have ok: "eng_ok e'" using kind_ok [OF K assms(1)] by simp
  note c = kind_commit [OF K, simplified, OF assms(4)]
  have signers: "fst ` set (commit_signatures cb) =
      voters (precommits (cstate e')) (Some (block_hash hashv (cb_block cb)))"
    using c commit_sigs_voters ok by (simp add: eng_ok_def eng_wf_def)
  have "engine_quorum e' \<le> stake_weight e' (fst ` set (commit_signatures cb))"
    using c precommit_quorum_iff [OF ok] unfolding signers by simp
  then show ?thesis using c signers engine_quorum_two_thirds [OF ok] by simp
qed

theorem commit_backed_by_quorum_witness:
  "2 * total_stake example_set < 3 * sum (stake_of example_set) {[1], [2]}"
proof -
  let ?r = "engine_step concat example_locked (GotPrecommit (Precommit 0 0 (Some example_hash) [2] []))"
  let ?cb = "\<lparr> cb_block = example_block, commit_signatures = [([1], default_signature), ([2], default_signature)],
    commit_round = 0 \<rparr>"
  have r: "committed_block (snd ?r) = Some ?cb" "validator_set (fst ?r) = example_set"
    by (simp_all add: example_locked_eval example_eval example_hash_def commit_sigs_def with_commit_def)
  have "2 * total_stake (validator_set (fst ?r)) < 3 * stake_weight (fst ?r) (fst ` set (commit_signatures ?cb))"
    using commit_backed_by_quorum [OF example_ok(2), of False
      "GotPrecommit (Precommit 0 0 (Some example_hash) [2] [])" concat "fst ?r" "snd ?r" ?cb] r(1)
    by (metis event_ok.simps(6) prod.collapse)
  then show ?thesis unfolding r(2) by simp
qed

text \<open>
  The tallies do not depend on the unspecified iteration order of the hash maps: whatever the
  order of the recorded votes and of the per-value sums, the value found is the one, and the only
  one, whose voters reach the quorum.
\<close>

theorem quorum_hash_order_independent:
  assumes "vs_ok vs" "hm_wf votes" "mset votes' = mset votes"
    and "mset groups = mset (stake_by_hash vs votes')" "q = quorum_stake vs (finality_threshold BftConfig_default)"
  shows "first_quorum q groups = Some h \<longleftrightarrow> q \<le> sum (stake_of vs) (voters votes (Some h))"
proof -
  have wf: "hm_wf votes'" using assms(2) hm_wf_perm [OF assms(3)] by simp
  have v: "voters votes' b = voters votes b" for b
    unfolding voters_def hm_get_perm [OF assms(3) wf] ..
  have "first_quorum q groups = first_quorum q (stake_by_hash vs votes')"
    using assms(1,4,5) wf by (intro first_quorum_perm) (simp_all add: default_threshold_def)
  then show ?thesis using first_quorum_iff [OF assms(1) wf] assms(5) v by (simp add: default_threshold_def)
qed

theorem quorum_hash_order_independent_witness:
  "first_quorum (quorum_stake example_set (finality_threshold BftConfig_default))
     [(Some [8], 300), (None, 200)] = None"
proof -
  let ?votes = "[([1] :: pubkey, None), ([2], Some [8]), ([3], None)]" and ?votes' = "[([2] :: pubkey, Some [8]), ([3], None), ([1], None)]"
  have "mset [(Some [8], 300), (None, 200)] = mset (stake_by_hash example_set ?votes')"
    by (simp add: example_eval)
  moreover have "voters ?votes (Some h) \<subseteq> {[2] :: pubkey}" for h :: hash
    by (auto simp: voters_def split: if_splits)
  then have "sum (stake_of example_set) (voters ?votes (Some h)) \<le> 300" for h :: hash
    using sum_mono2 [of "{[2]}" "voters ?votes (Some h)" "stake_of example_set"] example_stakes by simp
  ultimately have "first_quorum (quorum_stake example_set (finality_threshold BftConfig_default))
     [(Some [8], 300), (None, 200)] \<noteq> Some h" for h
    using quorum_hash_order_independent [OF example_set_ok, of ?votes ?votes' "[(Some [8], 300), (None, 200)]" _ h]
    by (simp add: hm_wf_def example_quorum not_le le_less_trans)
  then show ?thesis by (metis not_None_eq)
qed

text \<open>
  A precommit for a value is cast only on a quorum of recorded prevotes for it in the same
  round, holding more than two thirds of the stake, and the engine is then locked on that value in
  that round.
\<close>

theorem precommit_backed_by_polka:
  assumes "eng_ok e" "event_ok silent e ev" "engine_step hashv e ev = (e', out)"
    and "Precommit h r (Some v) voter sg \<in> set (out_messages out)"
  shows "voter = identity e \<and> (h, r) = epos e' \<and> locked_value (cstate e') = Some v \<and>
    locked_round (cstate e') = Some r \<and>
    2 * total_stake (validator_set e') < 3 * stake_weight e' (voters (prevotes (cstate e')) (Some v))"
proof -
  have K: "step_kind hashv silent e ev (e', out)" using engine_step_kind [OF assms(2)] assms(3) by metis
  have ok: "eng_ok e'" using kind_ok [OF K assms(1)] by simp
  have m: "Precommit h r (Some v) voter sg = make_precommit e' (Some v)"
    using kind_messages [OF K, simplified, OF assms(4)] by (auto simp: make_prevote_def make_precommit_def)
  note p = kind_precommit_value [OF K, simplified, OF assms(4) [unfolded m]]
  have "engine_quorum e' \<le> stake_weight e' (voters (prevotes (cstate e')) (Some v))"
    using p prevote_quorum_iff [OF ok] by simp
  then show ?thesis using p m engine_quorum_two_thirds [OF ok] kind_static [OF K] by (simp add: make_precommit_def)
qed

theorem precommit_backed_by_polka_witness:
  "locked_value (cstate example_locked) = Some example_hash \<and>
   2 * total_stake example_set <
     3 * sum (stake_of example_set) (voters (prevotes (cstate example_locked)) (Some example_hash))"
proof -
  let ?ev = "GotPrevote (Prevote 0 0 (Some example_hash) [2] [])"
  let ?out = "snd (engine_step concat example_prevoted ?ev)"
  have "Precommit 0 0 (Some example_hash) [1] default_signature \<in> set (out_messages ?out)"
    by (simp add: example_prevoted_eval example_eval make_precommit_def)
  moreover have "engine_step concat example_prevoted ?ev = (example_locked, ?out)"
    by (simp add: example_locked_def)
  ultimately show ?thesis
    using precommit_backed_by_polka [OF example_ok(1), of False ?ev concat example_locked ?out 0 0 example_hash]
    by (simp add: example_locked_eval)
qed

text \<open>
  C6: An engine locked on a value prevotes a different one only for a proposal that claims a valid
  round not below the lock; on every other proposal of the height it prevotes its lock or nil.
\<close>

theorem locked_engine_prevotes_lock:
  assumes "event_ok silent e ev" "engine_step hashv e ev = (e', out)"
    and "locked_value (cstate e) = Some v" "locked_round (cstate e) = Some lr"
    and "Prevote h r (Some c) voter sg \<in> set (out_messages out)" "c \<noteq> v"
  shows "\<exists>block p sg' vr. ev = GotProposal (Proposal h r block p sg' (Some vr)) \<and>
    block_hash hashv block = c \<and> lr \<le> vr"
proof -
  have K: "step_kind hashv silent e ev (e', out)" using engine_step_kind [OF assms(1)] assms(2) by metis
  have m: "Prevote h r (Some c) voter sg = make_prevote e' (Some c)"
    using kind_messages [OF K, simplified, OF assms(5)] by (auto simp: make_prevote_def make_precommit_def)
  show ?thesis using kind_prevote_value [OF K, simplified, OF assms(5) [unfolded m]] assms(3,4,6) m
    by (auto simp: determine_prevote_def make_prevote_def split: option.splits if_splits)
qed

theorem locked_engine_prevotes_lock_witness:
  "\<exists>block p sg' vr. GotProposal (Proposal 0 1 (example_block\<lparr> timestamp := 8 \<rparr>) [2] [] (Some 0)) =
     GotProposal (Proposal 0 1 block p sg' (Some vr)) \<and>
     block_hash concat block = block_hash concat (example_block\<lparr> timestamp := 8 \<rparr>) \<and> 0 \<le> vr"
proof -
  let ?b = "example_block\<lparr> timestamp := 8 \<rparr>"
  let ?r = "engine_step concat example_locked (GotProposal (Proposal 0 1 ?b [2] [] (Some 0)))"
  have ne: "block_hash concat ?b \<noteq> example_hash"
    by (simp add: example_hash_def block_hash_def example_block_def le_bytes_def) (rule bexI [of _ 0], simp_all)
  then have v: "Prevote 0 1 (Some (block_hash concat ?b)) [1] default_signature \<in> set (out_messages (snd ?r))"
    by (simp add: example_locked_eval example_eval advance_round_def make_prevote_def with_messages_def)
  have l: "locked_value (cstate example_locked) = Some example_hash" "locked_round (cstate example_locked) = Some 0"
    by (simp_all add: example_locked_eval)
  show ?thesis
    by (rule locked_engine_prevotes_lock [OF _ prod.collapse [symmetric] l v ne, of False]) simp
qed

text \<open>
  C2: Over any run in which the host starts strictly increasing heights and the round counter does
  not overflow, an engine never emits two different prevotes, nor two different precommits, for the
  same height and round, whatever messages, timeouts and changes of the validator set it receives.
\<close>

theorem engine_never_double_votes:
  assumes "guarded_run (engine_run hashv) vote_run_ok (ConsensusEngine_new c me vs, []) evs"
  shows "votes_unique (set (snd (foldl (engine_run hashv) (ConsensusEngine_new c me vs, []) evs)))"
  using vr.guarded_inv [OF engine_log_inv_new assms] by (metis engine_log_inv.simps prod.collapse)

theorem engine_never_double_votes_witness:
  "votes_unique (set (snd (foldl (engine_run concat) (example_engine, [])
     [StartHeight 0, GotProposal (Proposal 0 0 example_block [2] [] None), Timeout Propose, NewValidators example_set, Timeout PrecommitStep])))"
proof -
  have "guarded_run (engine_run concat) vote_run_ok (example_engine, [])
     [StartHeight 0, GotProposal (Proposal 0 0 example_block [2] [] None), Timeout Propose, NewValidators example_set, Timeout PrecommitStep]"
    by (simp add: example_eval start_new_height_def start_round_def advance_round_def on_timeout_def
        propose_timeout_fired_def update_validator_set_def ConsensusStep_order)
  then show ?thesis unfolding example_engine_def by (rule engine_never_double_votes)
qed

text \<open>
  C9: A validator whose engine is started on strictly increasing heights and whose round counter does not
  overflow is never accused of double signing: a collector that only ever sees votes of it which its
  engine emitted holds no evidence against it, whatever else the collector is given and whenever it prunes, and
  whatever messages, timeouts and changes of the validator set the engine received.
\<close>

theorem honest_engine_never_accused:
  assumes "guarded_run (engine_run hashv) vote_run_ok (ConsensusEngine_new c me vs, []) evs"
    and "\<forall>m. CheckOp m \<in> set ops \<longrightarrow> msg_sender m = me \<longrightarrow>
      m \<in> set (snd (foldl (engine_run hashv) (ConsensusEngine_new c me vs, []) evs))"
  shows "\<not> has_evidence_against (foldl ec_step EvidenceCollector_new ops) me"
proof
  let ?sent = "set (snd (foldl (engine_run hashv) (ConsensusEngine_new c me vs, []) evs))"
  assume "has_evidence_against (foldl ec_step EvidenceCollector_new ops) me"
  then obtain ev where "ev \<in> set (ec_evidence (foldl ec_step EvidenceCollector_new ops))" "ev_validator ev = me"
    by (auto simp: has_evidence_against_def list_ex_iff)
  then obtain key va vb where L: "(key, va) \<in> op_votes ops" "(key, vb) \<in> op_votes ops"
    and ne: "sv_hash va \<noteq> sv_hash vb" and me: "vk_voter key = me"
    using ec_run_sound [of ops] by (auto simp: ec_sound_def justified_def make_evidence_def)
  obtain m1 where m1: "CheckOp m1 \<in> set ops" "vote_entry m1 = Some (key, va)" using L(1) by (rule op_votesE)
  obtain m2 where m2: "CheckOp m2 \<in> set ops" "vote_entry m2 = Some (key, vb)" using L(2) by (rule op_votesE)
  have "m1 \<in> ?sent" "m2 \<in> ?sent"
    using assms(2) m1 m2 me vote_entry_sender [OF m1(2)] vote_entry_sender [OF m2(2)] by simp_all
  moreover have "votes_unique ?sent"
    using vr.guarded_inv [OF engine_log_inv_new assms(1)] by (metis engine_log_inv.simps prod.collapse)
  ultimately show False using votes_unique_entry m1(2) m2(2) ne by blast
qed

theorem honest_engine_never_accused_witness:
  "\<not> has_evidence_against (foldl ec_step EvidenceCollector_new
     [CheckOp (Prevote 0 0 (Some example_hash) [1] default_signature), CheckOp (Prevote 0 0 None [3] [])]) [1]"
proof -
  let ?evs = "[GotProposal (Proposal 0 0 example_block [2] [] None)]"
  let ?ops = "[CheckOp (Prevote 0 0 (Some example_hash) [1] default_signature), CheckOp (Prevote 0 0 None [3] [])]"
  have "Prevote 0 0 (Some example_hash) [1] default_signature \<in>
      set (snd (foldl (engine_run concat) (ConsensusEngine_new BftConfig_default [1] example_set, []) ?evs))"
    by (simp add: example_eval example_hash_def make_prevote_def with_messages_def)
  then have "\<forall>m. CheckOp m \<in> set ?ops \<longrightarrow> msg_sender m = [1] \<longrightarrow>
      m \<in> set (snd (foldl (engine_run concat) (ConsensusEngine_new BftConfig_default [1] example_set, []) ?evs))"
    by (auto simp: msg_sender_def)
  then show ?thesis
    by (intro honest_engine_never_accused [of concat BftConfig_default _ example_set ?evs]) simp_all
qed

end
