(* ===== verification/Bft_Safety.thy ===== *)
theory Bft_Safety
  imports Engine_Steps
begin

text \<open>
  A network of engines of \<^verbatim>\<open>consensus-bft/src/engine.rs\<close>: honest validators run \<open>engine_step\<close> on
  events in any order; the others send them whatever they like. Votes that carry an honest
  validator's key are delivered only if that validator's engine emitted them (authentic
  links are assumed: the engine itself neither signs nor verifies), and every node knows the same validator set.

  Shown: if validators with at most a third of the stake are dishonest and the valid round a proposal
  claims is one in which its block had a quorum of prevotes, then no two honest engines ever commit
  different block hashes at a height, in whatever rounds. The engine itself does not check the claim
  (\<^verbatim>\<open>determine_prevote\<close> trusts it); \<^verbatim>\<open>Bft_Executions\<close> has an execution in which a single dishonest
  proposer with three tenths of the stake makes two honest engines commit different blocks.
\<close>

section \<open>Networks\<close>

record Net =
  engines :: "pubkey \<Rightarrow> ConsensusEngine"
  logs :: "pubkey \<Rightarrow> ConsensusMessage list"
  decisions :: "(pubkey \<times> u64 \<times> CommittedBlock) set"

definition net_init :: "ValidatorSet \<Rightarrow> Net" where
  "net_init VS = \<lparr> engines = (\<lambda>i. ConsensusEngine_new BftConfig_default i VS), logs = (\<lambda>_. []), decisions = {} \<rparr>"

definition prevoted :: "Net \<Rightarrow> pubkey \<Rightarrow> u64 \<Rightarrow> u32 \<Rightarrow> hash option \<Rightarrow> bool" where
  "prevoted N k h r x \<longleftrightarrow> Prevote h r x k default_signature \<in> set (logs N k)"

definition precommitted :: "Net \<Rightarrow> pubkey \<Rightarrow> u64 \<Rightarrow> u32 \<Rightarrow> hash option \<Rightarrow> bool" where
  "precommitted N k h r x \<longleftrightarrow> Precommit h r x k default_signature \<in> set (logs N k)"

text \<open>Enough stake for a quorum, when every dishonest validator joins in.\<close>

definition backed :: "ValidatorSet \<Rightarrow> pubkey set \<Rightarrow> (pubkey \<Rightarrow> bool) \<Rightarrow> bool" where
  "backed VS honest P \<longleftrightarrow> quorum_stake VS default_threshold \<le>
     sum (stake_of VS) {k \<in> set (vs_pubkeys VS). k \<in> honest \<longrightarrow> P k}"

definition polka :: "ValidatorSet \<Rightarrow> pubkey set \<Rightarrow> Net \<Rightarrow> u64 \<Rightarrow> u32 \<Rightarrow> hash \<Rightarrow> bool" where
  "polka VS honest N h r c \<longleftrightarrow> backed VS honest (\<lambda>k. prevoted N k h r (Some c))"

text \<open>
  What the network may hand to an honest engine; \<open>checked\<close> says whether the valid round a proposal
  claims is checked against the prevotes of that round.
\<close>

fun deliverable ::
    "(bytes list \<Rightarrow> hash) \<Rightarrow> ValidatorSet \<Rightarrow> pubkey set \<Rightarrow> bool \<Rightarrow> Net \<Rightarrow> EngineEvent \<Rightarrow> bool" where
  "deliverable hashv VS honest checked N (GotPrevote m) \<longleftrightarrow>
     (msg_sender m \<in> honest \<longrightarrow> m \<in> set (logs N (msg_sender m)))"
| "deliverable hashv VS honest checked N (GotPrecommit m) \<longleftrightarrow>
     (msg_sender m \<in> honest \<longrightarrow> m \<in> set (logs N (msg_sender m)))"
| "deliverable hashv VS honest checked N (GotProposal (Proposal h r block p sg (Some vr))) \<longleftrightarrow>
     (checked \<longrightarrow> polka VS honest N h vr (block_hash hashv block))"
| "deliverable hashv VS honest checked N _ \<longleftrightarrow> True"

definition net_decision :: "pubkey \<Rightarrow> ConsensusEngine \<times> EngineOutput \<Rightarrow> (pubkey \<times> u64 \<times> CommittedBlock) set" where
  "net_decision i res = (\<lambda>cb. (i, height (cstate (fst res)), cb)) ` set_option (committed_block (snd res))"

definition net_step :: "(bytes list \<Rightarrow> hash) \<Rightarrow> Net \<Rightarrow> pubkey \<Rightarrow> EngineEvent \<Rightarrow> Net" where
  "net_step hashv N i ev =
     (let res = engine_step hashv (engines N i) ev in
      \<lparr> engines = (engines N)(i := fst res),
        logs = (logs N)(i := logs N i @ out_messages (snd res)),
        decisions = decisions N \<union> net_decision i res \<rparr>)"

inductive reachable :: "(bytes list \<Rightarrow> hash) \<Rightarrow> ValidatorSet \<Rightarrow> pubkey set \<Rightarrow> bool \<Rightarrow> Net \<Rightarrow> bool"
  for hashv :: "bytes list \<Rightarrow> hash" and VS :: ValidatorSet and honest :: "pubkey set" and checked :: bool where
  init: "reachable hashv VS honest checked (net_init VS)"
| step: "reachable hashv VS honest checked N \<Longrightarrow> i \<in> honest \<Longrightarrow> deliverable hashv VS honest checked N ev \<Longrightarrow>
    engine_run_ok (engines N i, logs N i) ev \<Longrightarrow> reachable hashv VS honest checked (net_step hashv N i ev)"

section \<open>Overlapping quorums share an honest validator\<close>

definition few_faults :: "ValidatorSet \<Rightarrow> pubkey set \<Rightarrow> bool" where
  "few_faults VS honest \<longleftrightarrow> vs_ok VS \<and>
     3 * sum (stake_of VS) {k \<in> set (vs_pubkeys VS). k \<notin> honest} \<le> total_stake VS"

lemma backed_mono: "backed VS honest P \<Longrightarrow> (\<And>k. k \<in> honest \<Longrightarrow> P k \<Longrightarrow> Q k) \<Longrightarrow> backed VS honest Q"
  unfolding backed_def by (erule order_trans) (rule sum_mono2, auto)

lemma backed_overlap:
  assumes "few_faults VS honest" "backed VS honest P" "backed VS honest Q"
  shows "\<exists>k \<in> honest. P k \<and> Q k"
proof (rule ccontr)
  assume none: "\<not> (\<exists>k \<in> honest. P k \<and> Q k)"
  let ?A = "{k \<in> set (vs_pubkeys VS). k \<in> honest \<longrightarrow> P k}" and ?B = "{k \<in> set (vs_pubkeys VS). k \<in> honest \<longrightarrow> Q k}"
  have "total_stake VS < 3 * sum (stake_of VS) (?A \<inter> ?B)"
    using assms by (intro dq.quorum_overlap) (auto simp: few_faults_def backed_def)
  moreover have "?A \<inter> ?B \<subseteq> {k \<in> set (vs_pubkeys VS). k \<notin> honest}" using none by auto
  then have "sum (stake_of VS) (?A \<inter> ?B) \<le> sum (stake_of VS) {k \<in> set (vs_pubkeys VS). k \<notin> honest}"
    by (intro sum_mono2) auto
  ultimately show False using assms(1) by (simp add: few_faults_def)
qed

lemma backed_voters:
  assumes "vs_ok VS" "quorum_stake VS default_threshold \<le> sum (stake_of VS) (voters votes x)"
    and "\<And>k. k \<in> honest \<Longrightarrow> hm_get votes k = Some x \<Longrightarrow> P k"
  shows "backed VS honest P"
proof -
  have "sum (stake_of VS) (voters votes x) = sum (stake_of VS) (voters votes x \<inter> set (vs_pubkeys VS))"
    by (rule dq.weight_inside [OF assms(1)]) simp
  also have "\<dots> \<le> sum (stake_of VS) {k \<in> set (vs_pubkeys VS). k \<in> honest \<longrightarrow> P k}"
    using assms(3) by (intro sum_mono2) (auto simp: voters_def)
  finally show ?thesis using assms(2) by (simp add: backed_def)
qed

section \<open>The invariant\<close>

text \<open>Engines are set up alike, and each log is a log of its engine.\<close>

definition inv_local :: "ValidatorSet \<Rightarrow> Net \<Rightarrow> bool" where
  "inv_local VS N \<longleftrightarrow> (\<forall>i. identity (engines N i) = i \<and> validator_set (engines N i) = VS \<and>
     eng_ok (engines N i) \<and> engine_log_inv (engines N i, logs N i))"

text \<open>What an engine has recorded of an honest validator is what that validator voted.\<close>

definition inv_records :: "pubkey set \<Rightarrow> Net \<Rightarrow> bool" where
  "inv_records honest N \<longleftrightarrow> (\<forall>i. \<forall>k \<in> honest. \<forall>x.
     (hm_get (prevotes (cstate (engines N i))) k = Some x \<longrightarrow>
        prevoted N k (height (cstate (engines N i))) (cround (cstate (engines N i))) x) \<and>
     (hm_get (precommits (cstate (engines N i))) k = Some x \<longrightarrow>
        precommitted N k (height (cstate (engines N i))) (cround (cstate (engines N i))) x))"

text \<open>Locks and precommits rest on quorums of prevotes; a precommit leaves its sender locked.\<close>

definition inv_locks :: "ValidatorSet \<Rightarrow> pubkey set \<Rightarrow> Net \<Rightarrow> bool" where
  "inv_locks VS honest N \<longleftrightarrow> (\<forall>i. let s = cstate (engines N i) in
     locked_value s = None \<and> locked_round s = None \<or>
     (\<exists>c lr. locked_value s = Some c \<and> locked_round s = Some lr \<and> lr \<le> cround s \<and> polka VS honest N (height s) lr c))"

definition inv_precommits :: "ValidatorSet \<Rightarrow> pubkey set \<Rightarrow> Net \<Rightarrow> bool" where
  "inv_precommits VS honest N \<longleftrightarrow> (\<forall>i h r v. precommitted N i h r (Some v) \<longrightarrow>
     polka VS honest N h r v \<and>
     (height (cstate (engines N i)) = h \<longrightarrow> (\<exists>lr. locked_round (cstate (engines N i)) = Some lr \<and> r \<le> lr)))"

text \<open>
  The validators that precommitted a value in a round or still may, and the core of the argument:
  as long as these hold a quorum, none of them prevotes another value in a later round.
\<close>

definition may_commit :: "ValidatorSet \<Rightarrow> pubkey set \<Rightarrow> Net \<Rightarrow> u64 \<Rightarrow> u32 \<Rightarrow> hash \<Rightarrow> bool" where
  "may_commit VS honest N h r v \<longleftrightarrow>
     backed VS honest (\<lambda>k. precommitted N k h r (Some v) \<or> epos (engines N k) \<le> (h, r))"

definition inv_core :: "ValidatorSet \<Rightarrow> pubkey set \<Rightarrow> Net \<Rightarrow> bool" where
  "inv_core VS honest N \<longleftrightarrow> (\<forall>j h r v r' c. precommitted N j h r (Some v) \<longrightarrow> prevoted N j h r' (Some c) \<longrightarrow>
     r < r' \<longrightarrow> c \<noteq> v \<longrightarrow> \<not> may_commit VS honest N h r v)"

definition inv_decisions :: "(bytes list \<Rightarrow> hash) \<Rightarrow> ValidatorSet \<Rightarrow> pubkey set \<Rightarrow> Net \<Rightarrow> bool" where
  "inv_decisions hashv VS honest N \<longleftrightarrow> (\<forall>(i, h, cb) \<in> decisions N.
     backed VS honest (\<lambda>k. precommitted N k h (commit_round cb) (Some (block_hash hashv (cb_block cb)))))"

definition net_inv :: "(bytes list \<Rightarrow> hash) \<Rightarrow> ValidatorSet \<Rightarrow> pubkey set \<Rightarrow> Net \<Rightarrow> bool" where
  "net_inv hashv VS honest N \<longleftrightarrow> inv_local VS N \<and> inv_records honest N \<and> inv_locks VS honest N \<and>
     inv_precommits VS honest N \<and> inv_core VS honest N \<and> inv_decisions hashv VS honest N"

section \<open>Consequences within one state\<close>

lemma inv_localD:
  assumes "inv_local VS N"
  shows "identity (engines N i) = i" "validator_set (engines N i) = VS" "eng_ok (engines N i)"
    "engine_log_inv (engines N i, logs N i)"
  using assms unfolding inv_local_def by blast+

lemma local_own:
  assumes "inv_local VS N" "m \<in> set (logs N k)"
  shows "own_vote k (epos (engines N k)) m"
  using engine_log_own [OF inv_localD(4) [OF assms(1)] assms(2)] inv_localD(1) [OF assms(1)] by simp

lemma prevoted_unique: "inv_local VS N \<Longrightarrow> prevoted N k h r x \<Longrightarrow> prevoted N k h r y \<Longrightarrow> x = y"
  unfolding inv_local_def prevoted_def engine_log_inv.simps by (metis votes_uniqueD(1))

lemma precommitted_unique:
  "inv_local VS N \<Longrightarrow> precommitted N k h r x \<Longrightarrow> precommitted N k h r y \<Longrightarrow> x = y"
  unfolding inv_local_def precommitted_def engine_log_inv.simps by (metis votes_uniqueD(2))

lemma polka_unique:
  assumes "few_faults VS honest" "inv_local VS N" "polka VS honest N h r c" "polka VS honest N h r d"
  shows "c = d"
proof -
  obtain k where "prevoted N k h r (Some c)" "prevoted N k h r (Some d)"
    using backed_overlap [OF assms(1)] assms(3,4) unfolding polka_def by blast
  from prevoted_unique [OF assms(2) this] show ?thesis by simp
qed

text \<open>Once a value may be committed in a round, later rounds have polkas for it only.\<close>

lemma later_polka:
  assumes "few_faults VS honest" "inv_local VS N" "inv_core VS honest N"
    and "may_commit VS honest N h r v" "polka VS honest N h r' c" "r < r'"
  shows "c = v"
proof (rule ccontr)
  assume ne: "c \<noteq> v"
  obtain k where k: "precommitted N k h r (Some v) \<or> epos (engines N k) \<le> (h, r)" "prevoted N k h r' (Some c)"
    using backed_overlap [OF assms(1)] assms(4,5) unfolding polka_def may_commit_def by blast
  have "(h, r') \<le> epos (engines N k)"
    using local_own [OF assms(2)] k(2) by (force simp: prevoted_def)
  then have "precommitted N k h r (Some v)" using k(1) assms(6) by auto
  then show False using assms(3,4,6) k(2) ne unfolding inv_core_def by blast
qed

lemma may_commit_polka:
  assumes "few_faults VS honest" "inv_local VS N" "inv_core VS honest N" "inv_precommits VS honest N"
    and "may_commit VS honest N h r v" "precommitted N j h r (Some v)" "polka VS honest N h r' c" "r \<le> r'"
  shows "c = v"
proof (cases "r = r'")
  case True
  have "polka VS honest N h r v" using assms(4,6) unfolding inv_precommits_def by blast
  then show ?thesis using polka_unique [OF assms(1,2)] assms(7) True by blast
next
  case False
  then show ?thesis using later_polka [OF assms(1,2,3,5,7)] assms(8) by simp
qed

section \<open>Preservation\<close>

text \<open>One step of an honest validator, with the facts its parts share.\<close>

definition net_move :: "(bytes list \<Rightarrow> hash) \<Rightarrow> ValidatorSet \<Rightarrow> pubkey set \<Rightarrow> Net \<Rightarrow> pubkey \<Rightarrow> EngineEvent \<Rightarrow> bool" where
  "net_move hashv VS honest N i ev \<longleftrightarrow> few_faults VS honest \<and> net_inv hashv VS honest N \<and> i \<in> honest \<and>
     deliverable hashv VS honest True N ev \<and> engine_run_ok (engines N i, logs N i) ev"

lemma net_moveD:
  assumes "net_move hashv VS honest N i ev"
  shows "few_faults VS honest" "inv_local VS N" "inv_records honest N" "inv_locks VS honest N"
    "inv_precommits VS honest N" "inv_core VS honest N" "inv_decisions hashv VS honest N"
    "step_kind hashv (logs N i = []) (engines N i) ev (engine_step hashv (engines N i) ev)"
    "deliverable hashv VS honest True N ev" "i \<in> honest"
  using assms by (auto simp: net_move_def net_inv_def intro: engine_step_kind)

lemma net_step_sel [simp]:
  "engines (net_step hashv N i ev) = (engines N)(i := fst (engine_step hashv (engines N i) ev))"
  "logs (net_step hashv N i ev) = (logs N)(i := logs N i @ out_messages (snd (engine_step hashv (engines N i) ev)))"
  "decisions (net_step hashv N i ev) = decisions N \<union> net_decision i (engine_step hashv (engines N i) ev)"
  by (simp_all add: net_step_def Let_def)

lemma prevoted_mono: "prevoted N k h r x \<Longrightarrow> prevoted (net_step hashv N i ev) k h r x"
  by (auto simp: prevoted_def)

lemma precommitted_mono: "precommitted N k h r x \<Longrightarrow> precommitted (net_step hashv N i ev) k h r x"
  by (auto simp: precommitted_def)

lemma polka_mono: "polka VS honest N h r c \<Longrightarrow> polka VS honest (net_step hashv N i ev) h r c"
  unfolding polka_def by (erule backed_mono) (rule prevoted_mono)

text \<open>A vote that is in the log after a step was there before, or is new, ours and at our new position.\<close>

lemma prevoted_step:
  assumes "net_move hashv VS honest N i ev" "prevoted (net_step hashv N i ev) k h r x"
  defines "res \<equiv> engine_step hashv (engines N i) ev"
  shows "prevoted N k h r x \<or> k = i \<and> epos (fst res) = (h, r) \<and> make_prevote (fst res) x \<in> set (out_messages (snd res))"
proof (cases "prevoted N k h r x")
  case False
  then have k: "k = i" and new: "Prevote h r x k default_signature \<in> set (out_messages (snd res))"
    using assms(2) by (auto simp: prevoted_def res_def split: if_splits)
  show ?thesis using kind_messages [OF net_moveD(8) [OF assms(1), folded res_def] new] new k
    by (auto simp: make_prevote_def make_precommit_def)
qed simp

lemma precommitted_step:
  assumes "net_move hashv VS honest N i ev" "precommitted (net_step hashv N i ev) k h r x"
  defines "res \<equiv> engine_step hashv (engines N i) ev"
  shows "precommitted N k h r x \<or>
    k = i \<and> epos (fst res) = (h, r) \<and> make_precommit (fst res) x \<in> set (out_messages (snd res))"
proof (cases "precommitted N k h r x")
  case False
  then have k: "k = i" and new: "Precommit h r x k default_signature \<in> set (out_messages (snd res))"
    using assms(2) by (auto simp: precommitted_def res_def split: if_splits)
  show ?thesis using kind_messages [OF net_moveD(8) [OF assms(1), folded res_def] new] new k
    by (auto simp: make_prevote_def make_precommit_def)
qed simp

lemma may_commit_antimono:
  assumes "net_move hashv VS honest N i ev" "may_commit VS honest (net_step hashv N i ev) h r v"
  shows "may_commit VS honest N h r v"
  using assms(2) unfolding may_commit_def
proof (rule backed_mono)
  fix k
  let ?res = "engine_step hashv (engines N i) ev"
  have pos: "epos (engines N i) \<le> epos (fst ?res)" by (rule kind_pos [OF net_moveD(8) [OF assms(1)]])
  assume "precommitted (net_step hashv N i ev) k h r (Some v) \<or> epos (engines (net_step hashv N i ev) k) \<le> (h, r)"
  then show "precommitted N k h r (Some v) \<or> epos (engines N k) \<le> (h, r)"
  proof
    assume "precommitted (net_step hashv N i ev) k h r (Some v)"
    from precommitted_step [OF assms(1) this] pos show ?thesis by auto
  next
    assume le: "epos (engines (net_step hashv N i ev) k) \<le> (h, r)"
    show ?thesis
    proof (cases "k = i")
      case True
      then have "epos (fst ?res) \<le> (h, r)" using le by simp
      from order_trans [OF pos this] show ?thesis using True by simp
    qed (use le in simp)
  qed
qed

lemma step_local:
  assumes "net_move hashv VS honest N i ev"
  shows "inv_local VS (net_step hashv N i ev)"
proof -
  note L = inv_localD [OF net_moveD(2) [OF assms]] and K = net_moveD(8) [OF assms]
  show ?thesis unfolding inv_local_def
    using L kind_static [OF K] kind_ok [OF K L(3)] kind_log_inv [OF K L(4)] by (simp del: engine_log_inv.simps)
qed

lemma delivered_vote:
  assumes "inv_local VS N" "k \<in> honest"
  shows "deliverable hashv VS honest True N (GotPrevote (Prevote h r x k sg)) \<Longrightarrow> prevoted N k h r x"
    and "deliverable hashv VS honest True N (GotPrecommit (Precommit h r x k sg)) \<Longrightarrow> precommitted N k h r x"
proof -
  assume "deliverable hashv VS honest True N (GotPrevote (Prevote h r x k sg))"
  then have m: "Prevote h r x k sg \<in> set (logs N k)" using assms(2) by (simp add: msg_sender_def)
  then show "prevoted N k h r x" using local_own [OF assms(1) m] by (simp add: prevoted_def)
next
  assume "deliverable hashv VS honest True N (GotPrecommit (Precommit h r x k sg))"
  then have m: "Precommit h r x k sg \<in> set (logs N k)" using assms(2) by (simp add: msg_sender_def)
  then show "precommitted N k h r x" using local_own [OF assms(1) m] by (simp add: precommitted_def)
qed

lemma step_records:
  assumes M: "net_move hashv VS honest N i ev"
  shows "inv_records honest (net_step hashv N i ev)"
  unfolding inv_records_def
proof (intro allI ballI)
  let ?N' = "net_step hashv N i ev" and ?res = "engine_step hashv (engines N i) ev"
  note K = net_moveD(8) [OF M] and old = net_moveD(3) [OF M, unfolded inv_records_def, rule_format]
  fix j k x assume k: "k \<in> honest"
  show "(hm_get (prevotes (cstate (engines ?N' j))) k = Some x \<longrightarrow>
        prevoted ?N' k (height (cstate (engines ?N' j))) (cround (cstate (engines ?N' j))) x) \<and>
     (hm_get (precommits (cstate (engines ?N' j))) k = Some x \<longrightarrow>
        precommitted ?N' k (height (cstate (engines ?N' j))) (cround (cstate (engines ?N' j))) x)"
  proof (cases "j = i")
    case False
    then show ?thesis using old [OF k, of j x] prevoted_mono precommitted_mono by simp
  next
    case True
    have "prevoted ?N' k (height (cstate (fst ?res))) (cround (cstate (fst ?res))) x"
      if r: "hm_get (prevotes (cstate (fst ?res))) k = Some x"
      using kind_prevotes [OF K r]
    proof (elim disjE)
      assume "epos (fst ?res) = epos (engines N i) \<and> hm_get (prevotes (cstate (engines N i))) k = Some x"
      then show ?thesis using old [OF k, of i x] prevoted_mono by simp
    next
      assume "\<exists>sg. ev = GotPrevote (Prevote (height (cstate (fst ?res))) (cround (cstate (fst ?res))) x k sg)"
      then show ?thesis
        using net_moveD(9) [OF M] delivered_vote(1) [OF net_moveD(2) [OF M] k] prevoted_mono by metis
    next
      assume "k = identity (engines N i) \<and> make_prevote (fst ?res) x \<in> set (out_messages (snd ?res))"
      then show ?thesis using inv_localD(1) [OF net_moveD(2) [OF M]] kind_static [OF K]
        by (simp add: prevoted_def make_prevote_def)
    qed
    moreover have "precommitted ?N' k (height (cstate (fst ?res))) (cround (cstate (fst ?res))) x"
      if r: "hm_get (precommits (cstate (fst ?res))) k = Some x"
      using kind_precommits [OF K r]
    proof (elim disjE)
      assume "epos (fst ?res) = epos (engines N i) \<and> hm_get (precommits (cstate (engines N i))) k = Some x"
      then show ?thesis using old [OF k, of i x] precommitted_mono by simp
    next
      assume "\<exists>sg. ev = GotPrecommit (Precommit (height (cstate (fst ?res))) (cround (cstate (fst ?res))) x k sg)"
      then show ?thesis
        using net_moveD(9) [OF M] delivered_vote(2) [OF net_moveD(2) [OF M] k] precommitted_mono by metis
    next
      assume "k = identity (engines N i) \<and> make_precommit (fst ?res) x \<in> set (out_messages (snd ?res))"
      then show ?thesis using inv_localD(1) [OF net_moveD(2) [OF M]] kind_static [OF K]
        by (simp add: precommitted_def make_precommit_def)
    qed
    ultimately show ?thesis using True by simp
  qed
qed

text \<open>A quorum an engine finds is a quorum of the network.\<close>

lemma found_polka:
  assumes "few_faults VS honest" "inv_local VS N" "inv_records honest N"
    and "find_quorum_prevote_hash (engines N i) = Some c"
  shows "polka VS honest N (height (cstate (engines N i))) (cround (cstate (engines N i))) c"
  unfolding polka_def
proof (rule backed_voters)
  note L = inv_localD [OF assms(2)]
  show "vs_ok VS" using assms(1) by (simp add: few_faults_def)
  show "quorum_stake VS default_threshold \<le> sum (stake_of VS) (voters (prevotes (cstate (engines N i))) (Some c))"
    using prevote_quorum_iff [OF L(3), of i c] assms(4) L(2) L(3) by (simp add: engine_quorum_def eng_ok_def)
qed (use assms(3) in \<open>simp add: inv_records_def\<close>)

lemma found_precommit_quorum:
  assumes "few_faults VS honest" "inv_local VS N" "inv_records honest N"
    and "find_quorum_precommit_hash (engines N i) = Some c"
  shows "backed VS honest (\<lambda>k. precommitted N k (height (cstate (engines N i))) (cround (cstate (engines N i))) (Some c))"
proof (rule backed_voters)
  note L = inv_localD [OF assms(2)]
  show "vs_ok VS" using assms(1) by (simp add: few_faults_def)
  show "quorum_stake VS default_threshold \<le> sum (stake_of VS) (voters (precommits (cstate (engines N i))) (Some c))"
    using precommit_quorum_iff [OF L(3), of i c] assms(4) L(2) L(3) by (simp add: engine_quorum_def eng_ok_def)
qed (use assms(3) in \<open>simp add: inv_records_def\<close>)

lemma step_found_polka:
  assumes "net_move hashv VS honest N i ev"
  defines "res \<equiv> engine_step hashv (engines N i) ev"
  assumes "find_quorum_prevote_hash (fst res) = Some c"
  shows "polka VS honest (net_step hashv N i ev) (height (cstate (fst res))) (cround (cstate (fst res))) c"
  using found_polka [OF net_moveD(1) [OF assms(1)] step_local [OF assms(1)] step_records [OF assms(1)], of i c]
    assms(3) by (simp add: res_def)

lemma step_locks:
  assumes M: "net_move hashv VS honest N i ev"
  shows "inv_locks VS honest (net_step hashv N i ev)"
  unfolding inv_locks_def Let_def
proof
  fix j
  let ?N' = "net_step hashv N i ev" and ?res = "engine_step hashv (engines N i) ev"
  note old = net_moveD(4) [OF M, unfolded inv_locks_def Let_def, rule_format]
  let ?goal = "\<lambda>s. locked_value s = None \<and> locked_round s = None \<or>
     (\<exists>c lr. locked_value s = Some c \<and> locked_round s = Some lr \<and> lr \<le> cround s \<and> polka VS honest ?N' (height s) lr c)"
  have "?goal (cstate (fst ?res))"
    using kind_lock [OF net_moveD(8) [OF M]]
  proof (elim disjE)
    assume keep: "height (cstate (fst ?res)) = height (cstate (engines N i)) \<and>
      locked_value (cstate (fst ?res)) = locked_value (cstate (engines N i)) \<and>
      locked_round (cstate (fst ?res)) = locked_round (cstate (engines N i))"
    then have "cround (cstate (engines N i)) \<le> cround (cstate (fst ?res))"
      using kind_pos [OF net_moveD(8) [OF M]] by simp
    then show ?thesis using old [of i] keep polka_mono by fastforce
  next
    assume "height (cstate (fst ?res)) = height (cstate (engines N i)) \<and>
      find_quorum_prevote_hash (fst ?res) \<noteq> None \<and>
      locked_value (cstate (fst ?res)) = find_quorum_prevote_hash (fst ?res) \<and>
      locked_round (cstate (fst ?res)) = Some (cround (cstate (fst ?res)))"
    then show ?thesis using step_found_polka [OF M] by auto
  qed auto
  moreover have "?goal (cstate (engines N j))" using old [of j] polka_mono by blast
  ultimately show "?goal (cstate (engines ?N' j))" by simp
qed

lemma log_pos:
  assumes "inv_local VS N"
  shows "prevoted N k h r x \<Longrightarrow> (h, r) \<le> epos (engines N k)"
    and "precommitted N k h r x \<Longrightarrow> (h, r) \<le> epos (engines N k)"
  using local_own [OF assms] unfolding prevoted_def precommitted_def by force+

lemma step_precommits:
  assumes M: "net_move hashv VS honest N i ev"
  shows "inv_precommits VS honest (net_step hashv N i ev)"
  unfolding inv_precommits_def
proof (intro allI impI)
  fix j h r v
  let ?N' = "net_step hashv N i ev" and ?res = "engine_step hashv (engines N i) ev"
  note K = net_moveD(8) [OF M] and old = net_moveD(5) [OF M, unfolded inv_precommits_def, rule_format]
  assume p: "precommitted ?N' j h r (Some v)"
  show "polka VS honest ?N' h r v \<and>
      (height (cstate (engines ?N' j)) = h \<longrightarrow> (\<exists>lr. locked_round (cstate (engines ?N' j)) = Some lr \<and> r \<le> lr))"
  proof (cases "precommitted N j h r (Some v)")
    case False
    then have j: "j = i" and pos: "epos (fst ?res) = (h, r)"
      and m: "make_precommit (fst ?res) (Some v) \<in> set (out_messages (snd ?res))"
      using precommitted_step [OF M p] by auto
    from kind_precommit_value [OF K m] step_found_polka [OF M] pos j show ?thesis by auto
  next
    case True
    have "\<exists>lr. locked_round (cstate (fst ?res)) = Some lr \<and> r \<le> lr"
      if j: "j = i" and h: "height (cstate (fst ?res)) = h"
      using kind_lock [OF K]
    proof (elim disjE)
      assume "height (cstate (fst ?res)) = height (cstate (engines N i)) \<and>
        locked_value (cstate (fst ?res)) = locked_value (cstate (engines N i)) \<and>
        locked_round (cstate (fst ?res)) = locked_round (cstate (engines N i))"
      then show ?thesis using old [OF True] j h by simp
    next
      assume "(height (cstate (engines N i)) < height (cstate (fst ?res)) \<or> logs N i = []) \<and>
        locked_value (cstate (fst ?res)) = None \<and> locked_round (cstate (fst ?res)) = None"
      then show ?thesis using log_pos(2) [OF net_moveD(2) [OF M] True] True j h by (auto simp: precommitted_def)
    next
      assume "height (cstate (fst ?res)) = height (cstate (engines N i)) \<and>
        find_quorum_prevote_hash (fst ?res) \<noteq> None \<and>
        locked_value (cstate (fst ?res)) = find_quorum_prevote_hash (fst ?res) \<and>
        locked_round (cstate (fst ?res)) = Some (cround (cstate (fst ?res)))"
      then show ?thesis using log_pos(2) [OF step_local [OF M] p] j h by auto
    qed
    then show ?thesis using old [OF True] polka_mono by auto
  qed
qed

text \<open>
  The core step: a validator that precommitted \<open>v\<close>, while \<open>v\<close> may still be committed, is locked on
  \<open>v\<close>, and no proposal it can be given makes it prevote anything else.
\<close>

lemma new_prevote_is_lock:
  assumes M: "net_move hashv VS honest N i ev"
  defines "res \<equiv> engine_step hashv (engines N i) ev"
  assumes m: "make_prevote (fst res) (Some c) \<in> set (out_messages (snd res))"
    and p: "precommitted N i (height (cstate (fst res))) r (Some v)"
    and mc: "may_commit VS honest N (height (cstate (fst res))) r v"
  shows "c = v"
proof (rule ccontr)
  assume ne: "c \<noteq> v"
  let ?h = "height (cstate (fst res))" and ?s = "cstate (engines N i)"
  note D = net_moveD [OF M]
  obtain block q sg vr where ev: "ev = GotProposal (Proposal ?h (cround (cstate (fst res))) block q sg vr)"
    and c: "c = block_hash hashv block" "determine_prevote ?s c vr = Some c" and h: "height ?s = ?h"
    using kind_prevote_value [OF D(8) [folded res_def] m] by metis
  obtain lr where lr: "locked_round ?s = Some lr" "r \<le> lr"
    using D(5) p h unfolding inv_precommits_def by blast
  then obtain l where l: "locked_value ?s = Some l" "polka VS honest N ?h lr l"
    using D(4) [unfolded inv_locks_def Let_def, rule_format, of i] unfolding h by auto
  have "l = v" using may_commit_polka [OF D(1,2,6,5) mc p l(2) lr(2)] .
  then obtain w where w: "vr = Some w" "lr \<le> w"
    using c(2) l(1) lr(1) ne by (auto simp: determine_prevote_def split: option.splits if_splits)
  then have "polka VS honest N ?h w c" using D(9) ev c(1) by simp
  then have "c = v" using may_commit_polka [OF D(1,2,6,5) mc p] lr(2) w(2) by auto
  then show False using ne by simp
qed

lemma step_core:
  assumes M: "net_move hashv VS honest N i ev"
  shows "inv_core VS honest (net_step hashv N i ev)"
  unfolding inv_core_def
proof (intro allI impI notI)
  fix j h r v r' c
  let ?N' = "net_step hashv N i ev" and ?res = "engine_step hashv (engines N i) ev"
  note D = net_moveD [OF M]
  assume pc: "precommitted ?N' j h r (Some v)" and pv: "prevoted ?N' j h r' (Some c)" and lt: "r < r'"
    and ne: "c \<noteq> v" and "may_commit VS honest ?N' h r v"
  then have mc: "may_commit VS honest N h r v" using may_commit_antimono [OF M] by blast
  have pos: "(h, r') \<le> epos (engines ?N' j)" by (rule log_pos(1) [OF step_local [OF M] pv])
  have pc_old: "precommitted N j h r (Some v)"
    using precommitted_step [OF M pc] pos lt by auto
  consider "prevoted N j h r' (Some c)"
    | "j = i" "epos (fst ?res) = (h, r')" "make_prevote (fst ?res) (Some c) \<in> set (out_messages (snd ?res))"
    using prevoted_step [OF M pv] by auto
  then show False
  proof cases
    case 1
    then show ?thesis using D(6) pc_old lt ne mc unfolding inv_core_def by blast
  next
    case 2
    then show ?thesis using new_prevote_is_lock [OF M 2(3), of r v] pc_old mc ne by simp
  qed
qed

lemma step_decisions:
  assumes M: "net_move hashv VS honest N i ev"
  shows "inv_decisions hashv VS honest (net_step hashv N i ev)"
  unfolding inv_decisions_def
proof clarify
  fix j h and cb :: CommittedBlock
  let ?N' = "net_step hashv N i ev" and ?res = "engine_step hashv (engines N i) ev"
  let ?P = "\<lambda>N k. precommitted N k h (commit_round cb) (Some (block_hash hashv (cb_block cb)))"
  assume "(j, h, cb) \<in> decisions ?N'"
  then consider "(j, h, cb) \<in> decisions N" | "committed_block (snd ?res) = Some cb" "h = height (cstate (fst ?res))"
    by (auto simp: net_decision_def)
  then show "backed VS honest (?P ?N')"
  proof cases
    case 1
    then have "backed VS honest (?P N)" using net_moveD(7) [OF M] by (auto simp: inv_decisions_def)
    then show ?thesis by (rule backed_mono) (rule precommitted_mono)
  next
    case 2
    from kind_commit [OF net_moveD(8) [OF M] 2(1)] 2(2) show ?thesis
      using found_precommit_quorum [OF net_moveD(1) [OF M] step_local [OF M] step_records [OF M], of i] by simp
  qed
qed

lemma net_step_inv:
  assumes "net_move hashv VS honest N i ev"
  shows "net_inv hashv VS honest (net_step hashv N i ev)"
  using step_local [OF assms] step_records [OF assms] step_locks [OF assms] step_precommits [OF assms]
    step_core [OF assms] step_decisions [OF assms] by (simp add: net_inv_def)

lemma net_init_inv:
  assumes "few_faults VS honest"
  shows "net_inv hashv VS honest (net_init VS)"
proof -
  have "inv_local VS (net_init VS)"
    using assms by (auto simp: inv_local_def net_init_def few_faults_def eng_ok_def eng_wf_def
        ConsensusEngine_new_def default_threshold_def votes_unique_def)
  moreover have "inv_locks VS honest (net_init VS)" "inv_precommits VS honest (net_init VS)"
    "inv_core VS honest (net_init VS)" "inv_records honest (net_init VS)" "inv_decisions hashv VS honest (net_init VS)"
    by (simp_all add: inv_locks_def inv_precommits_def inv_core_def inv_records_def inv_decisions_def
        net_init_def precommitted_def ConsensusEngine_new_def)
  ultimately show ?thesis by (simp add: net_inv_def)
qed

lemma reachable_inv:
  assumes "reachable hashv VS honest True N" "few_faults VS honest"
  shows "net_inv hashv VS honest N"
  using assms(1)
proof induction
  case init
  then show ?case by (rule net_init_inv [OF assms(2)])
next
  case (step N i ev)
  then have "net_move hashv VS honest N i ev" using assms(2) by (simp add: net_move_def)
  then show ?case by (rule net_step_inv)
qed

lemma decisions_agree:
  assumes "net_inv hashv VS honest N" "few_faults VS honest" "commit_round cb \<le> commit_round cb'"
    and "(i, h, cb) \<in> decisions N" "(j, h, cb') \<in> decisions N"
  shows "block_hash hashv (cb_block cb) = block_hash hashv (cb_block cb')"
proof -
  let ?r = "commit_round cb" and ?r' = "commit_round cb'"
  let ?v = "block_hash hashv (cb_block cb)" and ?c = "block_hash hashv (cb_block cb')"
  have I: "inv_local VS N" "inv_core VS honest N" "inv_precommits VS honest N" "inv_decisions hashv VS honest N"
    using assms(1) by (simp_all add: net_inv_def)
  have b: "backed VS honest (\<lambda>k. precommitted N k h ?r (Some ?v))" "backed VS honest (\<lambda>k. precommitted N k h ?r' (Some ?c))"
    using assms(4,5) I(4) unfolding inv_decisions_def by blast+
  obtain k where k: "precommitted N k h ?r (Some ?v)" "precommitted N k h ?r' (Some ?c)"
    using backed_overlap [OF assms(2) b] by blast
  have "may_commit VS honest N h ?r ?v" unfolding may_commit_def by (rule backed_mono [OF b(1)]) simp
  moreover have "polka VS honest N h ?r' ?c" using I(3) k(2) unfolding inv_precommits_def by blast
  ultimately show ?thesis using may_commit_polka [OF assms(2) I(1,2,3) _ k(1) _ assms(3)] by simp
qed

section \<open>Executions\<close>

fun net_exec ::
    "(bytes list \<Rightarrow> hash) \<Rightarrow> ValidatorSet \<Rightarrow> pubkey set \<Rightarrow> bool \<Rightarrow> (pubkey \<times> EngineEvent) list \<Rightarrow> Net \<Rightarrow> Net option" where
  "net_exec hashv VS honest checked [] N = Some N"
| "net_exec hashv VS honest checked ((i, ev) # es) N =
     (if i \<in> honest \<and> deliverable hashv VS honest checked N ev \<and> engine_run_ok (engines N i, logs N i) ev
      then net_exec hashv VS honest checked es (net_step hashv N i ev) else None)"

lemma net_exec_reachable:
  "net_exec hashv VS honest checked es N = Some N' \<Longrightarrow> reachable hashv VS honest checked N \<Longrightarrow>
   reachable hashv VS honest checked N'"
proof (induction es arbitrary: N)
  case (Cons e es)
  obtain i ev where e: "e = (i, ev)" by (cases e)
  have ok: "i \<in> honest" "deliverable hashv VS honest checked N ev" "engine_run_ok (engines N i, logs N i) ev"
    and run: "net_exec hashv VS honest checked es (net_step hashv N i ev) = Some N'"
    using Cons.prems(1) by (auto simp: e split: if_splits)
  show ?case by (rule Cons.IH [OF run reachable.step [OF Cons.prems(2) ok]])
qed simp

end
