(* ===== verification/Bft_Executions.thy ===== *)
theory Bft_Executions
  imports Bft_Safety
begin

text \<open>
  The agreement theorem of \<^verbatim>\<open>Bft_Safety\<close> with an execution that exercises it, and an execution that
  shows its condition on claimed valid rounds to be needed: \<^verbatim>\<open>engine.rs\<close> trusts the claim of a
  proposal, and one dishonest proposer with less than a third of the stake then makes two honest
  engines commit different blocks, with no vote cast twice.
\<close>

section \<open>A small network\<close>


text \<open>
  Two honest validators \<open>[1]\<close> and \<open>[2]\<close> with stakes 3 and 4, a dishonest \<open>[3]\<close> with stake 3; the
  quorum is 7. Both honest validators precommit block \<open>a\<close> in round 0 and \<open>[1]\<close> commits it; then
  \<open>[3]\<close>, the proposer of round 7, proposes \<open>b\<close> and claims the valid round 0.
\<close>

definition attack_set :: ValidatorSet where
  "attack_set = ValidatorSet_new [([1], 3), ([2], 4), ([3], 3)]"

lemma attack_set_eval:
  "validators attack_set = [\<lparr> vi_pubkey = [2], vi_stake = 4 \<rparr>, \<lparr> vi_pubkey = [1], vi_stake = 3 \<rparr>,
     \<lparr> vi_pubkey = [3], vi_stake = 3 \<rparr>]"
  "total_stake attack_set = 10"
  "stake_of attack_set [1] = 3" "stake_of attack_set [2] = 4" "stake_of attack_set [3] = 3"
  "vs_contains attack_set [1]" "vs_contains attack_set [2]" "vs_contains attack_set [3]"
  by (simp_all add: attack_set_def ValidatorSet_new_def validator_key_def wsum_def wadd_def
      stake_of_def get_by_pubkey_def build_index_def vs_contains_def)

lemma attack_set_ok: "vs_ok attack_set"
proof -
  have "vs_wf attack_set" unfolding attack_set_def by (rule ValidatorSet_new_wf) simp
  then show ?thesis by (simp add: vs_ok_def vs_fits_def attack_set_eval)
qed

lemma attack_few_faults: "few_faults attack_set {[1], [2]}"
proof -
  have "{k \<in> set (vs_pubkeys attack_set). k \<notin> {[1], [2]}} = {[3]}"
    by (auto simp: vs_pubkeys_def attack_set_eval)
  then show ?thesis by (simp add: few_faults_def attack_set_ok attack_set_eval)
qed

lemma attack_proposer:
  "proposer_for_round attack_set 0 0 = Some [2]" "proposer_for_round attack_set 0 7 = Some [3]"
  by (simp_all add: proposer_for_round_def vs_is_empty_def attack_set_eval wadd_def sat_add_def umax_def)

lemma attack_quorum: "quorum_stake attack_set (finality_threshold BftConfig_default) = 7"
  unfolding default_threshold_def [symmetric]
  by (simp add: quorum_stake_def attack_set_eval f64_of_nat_exact f64_mul_def default_threshold_value
      f64_eval rnd_mag.simps [of "15019504757280605 / 2251799813685248"] f64_ceil_def f64_to_u64_def umax_def)

definition block_a :: ProposedBlock where
  "block_a = example_block"

definition block_b :: ProposedBlock where
  "block_b = example_block\<lparr> timestamp := 8 \<rparr>"

definition hash_a :: hash where
  "hash_a = block_hash concat block_a"

definition hash_b :: hash where
  "hash_b = block_hash concat block_b"

lemma hash_ab: "hash_a \<noteq> hash_b" "hash_b \<noteq> hash_a"
proof -
  show "hash_a \<noteq> hash_b"
    unfolding hash_a_def hash_b_def block_a_def block_b_def block_hash_def example_block_def le_bytes_def
    by simp (rule bexI [of _ 0], simp_all)
  then show "hash_b \<noteq> hash_a" by simp
qed

lemmas attack_eval = ConsensusEngine_new_def ConsensusState_new_def on_proposal_def
  on_prevote_def on_precommit_def try_commit_def try_advance_from_prevotes_def cast_precommit_def
  enter_round_def set_proposal_def record_prevote_def determine_prevote_def find_quorum_prevote_hash_def
  find_quorum_precommit_hash_def has_any_quorum_prevotes_def engine_quorum_def attack_quorum attack_set_eval(2-)
  attack_proposer stake_by_hash_def hm_bump_def wadd_def wsum_def Let_def hash_a_def [symmetric]
  hash_b_def [symmetric] hash_ab make_prevote_def make_precommit_def output_defs advance_round_def

text \<open>An engine of the example, by what it has recorded.\<close>

definition attack_engine ::
    "pubkey \<Rightarrow> u32 \<Rightarrow> ConsensusStep \<Rightarrow> hash option \<Rightarrow> ProposedBlock option \<Rightarrow>
     (pubkey, hash option) hashmap \<Rightarrow> (pubkey, hash option) hashmap \<Rightarrow> bool \<Rightarrow> bool \<Rightarrow>
     u32 option \<Rightarrow> EvidenceCollector \<Rightarrow> ConsensusEngine" where
  "attack_engine me r s lock prop pv pc sp sc lr c =
     \<lparr> eng_config = BftConfig_default, identity = me, validator_set = attack_set,
       cstate = \<lparr> height = 0, cround = r, cstep = s, locked_value = lock, locked_round = lr,
         valid_value = lock, valid_round = lr, prevotes = pv, precommits = pc, proposal = prop \<rparr>,
       evidence = c, sent_prevote = sp, sent_precommit = sc \<rparr>"

abbreviation ec0 :: EvidenceCollector where
  "ec0 \<equiv> EvidenceCollector_new"

abbreviation vote1 :: "u32 \<Rightarrow> hash \<Rightarrow> pubkey \<Rightarrow> ConsensusMessage" where
  "vote1 r h k \<equiv> Prevote 0 r (Some h) k default_signature"

abbreviation vote2 :: "u32 \<Rightarrow> hash \<Rightarrow> pubkey \<Rightarrow> ConsensusMessage" where
  "vote2 r h k \<equiv> Precommit 0 r (Some h) k default_signature"

abbreviation proposal_a :: EngineEvent where
  "proposal_a \<equiv> GotProposal (Proposal 0 0 block_a [2] [] None)"

abbreviation proposal_b :: EngineEvent where
  "proposal_b \<equiv> GotProposal (Proposal 0 7 block_b [3] [] (Some 0))"

lemma attack_init:
  "ConsensusEngine_new BftConfig_default k attack_set = attack_engine k 0 NewRound None None [] [] False False None ec0"
  by (simp add: attack_engine_def ConsensusEngine_new_def ConsensusState_new_def)

lemma attack_1:
  "engine_step concat (attack_engine k 0 NewRound None None [] [] False False None ec0) proposal_a =
     (attack_engine k 0 PrevoteStep None (Some block_a) [(k, Some hash_a)] [] True False None ec0,
      with_messages [vote1 0 hash_a k])" if "k = [1] \<or> k = [2]"
  using that by (auto simp: attack_engine_def attack_eval)

lemma attack_2:
  "engine_step concat (attack_engine k 0 PrevoteStep None (Some block_a) [(k, Some hash_a)] [] True False None ec0)
     (GotPrevote (vote1 0 hash_a k')) =
     (attack_engine k 0 PrecommitStep (Some hash_a) (Some block_a) [(k, Some hash_a), (k', Some hash_a)]
        [(k, Some hash_a)] True True (Some 0) (fst (check_and_record (vote1 0 hash_a k') ec0)),
      with_messages [vote2 0 hash_a k])" if "k = [1] \<and> k' = [2] \<or> k = [2] \<and> k' = [1]"
  using that by (auto simp: attack_engine_def attack_eval)

lemma attack_3:
  "engine_step concat (attack_engine [1] 0 PrecommitStep (Some hash_a) (Some block_a) pv
       [([1], Some hash_a)] True True (Some 0) c) (GotPrecommit (vote2 0 hash_a [2])) =
     (attack_engine [1] 0 Commit (Some hash_a) (Some block_a) pv
        [([1], Some hash_a), ([2], Some hash_a)] True True (Some 0) (fst (check_and_record (vote2 0 hash_a [2]) c)),
      with_commit \<lparr> cb_block = block_a,
        commit_signatures = [([1], default_signature), ([2], default_signature)], commit_round = 0 \<rparr>)"
  by (simp add: attack_engine_def attack_eval commit_sigs_def)


lemma attack_4:
  "engine_step concat (attack_engine [2] 0 PrecommitStep (Some hash_a) prop pv pc True True (Some 0) c) proposal_b =
     (attack_engine [2] 7 PrevoteStep (Some hash_a) (Some block_b) [([2], Some hash_b)] [] True False (Some 0) c,
      with_messages [vote1 7 hash_b [2]])"
  by (simp add: attack_engine_def attack_eval)

lemma attack_5:
  "engine_step concat (attack_engine [2] 7 PrevoteStep (Some hash_a) (Some block_b) [([2], Some hash_b)] []
       True False (Some 0) c) (GotPrevote (vote1 7 hash_b [3])) =
     (attack_engine [2] 7 PrecommitStep (Some hash_b) (Some block_b) [([2], Some hash_b), ([3], Some hash_b)]
        [([2], Some hash_b)] True True (Some 7) (fst (check_and_record (vote1 7 hash_b [3]) c)),
      with_messages [vote2 7 hash_b [2]])"
  by (simp add: attack_engine_def attack_eval)

lemma attack_6:
  "engine_step concat (attack_engine [2] 7 PrecommitStep (Some hash_b) (Some block_b) pv
       [([2], Some hash_b)] True True (Some 7) c) (GotPrecommit (vote2 7 hash_b [3])) =
     (attack_engine [2] 7 Commit (Some hash_b) (Some block_b) pv
        [([2], Some hash_b), ([3], Some hash_b)] True True (Some 7) (fst (check_and_record (vote2 7 hash_b [3]) c)),
      with_commit \<lparr> cb_block = block_b,
        commit_signatures = [([2], default_signature), ([3], default_signature)], commit_round = 7 \<rparr>)"
  by (simp add: attack_engine_def attack_eval commit_sigs_def)

definition agreed_run :: "(pubkey \<times> EngineEvent) list" where
  "agreed_run =
     [([1], proposal_a), ([2], proposal_a), ([1], GotPrevote (vote1 0 hash_a [2])),
      ([2], GotPrevote (vote1 0 hash_a [1])), ([1], GotPrecommit (vote2 0 hash_a [2]))]"

definition attack_run :: "(pubkey \<times> EngineEvent) list" where
  "attack_run = agreed_run @
     [([2], proposal_b), ([2], GotPrevote (vote1 7 hash_b [3])), ([2], GotPrecommit (vote2 7 hash_b [3]))]"

lemma attack_height [simp]: "height (cstate (attack_engine me r s lock prop pv pc sp sc lr c)) = 0"
  by (simp add: attack_engine_def)

lemma attack_exec:
  "\<exists>N. net_exec concat attack_set {[1], [2]} False attack_run (net_init attack_set) = Some N \<and>
     (\<exists>cb. ([1], 0, cb) \<in> decisions N \<and> cb_block cb = block_a) \<and>
     (\<exists>cb. ([2], 0, cb) \<in> decisions N \<and> cb_block cb = block_b)"
  by (simp add: attack_run_def agreed_run_def net_init_def attack_init attack_1 attack_2 attack_3 attack_4 attack_5 attack_6
      net_step_def msg_sender_def net_decision_def Let_def output_defs del: engine_step.simps)


section \<open>Properties\<close>



text \<open>
  C7: The condition on valid rounds is needed, and the code does not establish it: with a proposer
  that claims a valid round no prevotes back, one dishonest validator with three tenths of the stake
  makes two honest engines commit different blocks at one height.
\<close>

theorem unchecked_valid_round_breaks_agreement:
  "\<exists>N cb cb'. few_faults attack_set {[1], [2]} \<and> reachable concat attack_set {[1], [2]} False N \<and>
     ([1], 0, cb) \<in> decisions N \<and> ([2], 0, cb') \<in> decisions N \<and>
     block_hash concat (cb_block cb) \<noteq> block_hash concat (cb_block cb')"
proof -
  obtain N cb cb' where N: "net_exec concat attack_set {[1], [2]} False attack_run (net_init attack_set) = Some N"
    and d: "([1], 0, cb) \<in> decisions N" "cb_block cb = block_a" "([2], 0, cb') \<in> decisions N" "cb_block cb' = block_b"
    using attack_exec by blast
  have "reachable concat attack_set {[1], [2]} False N" by (rule net_exec_reachable [OF N reachable.init])
  then show ?thesis using attack_few_faults d hash_ab(1) unfolding hash_a_def hash_b_def by metis
qed

end
