(* ===== verification/Fee_Market.thy ===== *)
theory Fee_Market
  imports Float64
begin

text \<open>
  The EIP-1559-style fee market: \<^verbatim>\<open>fee-market/src/{config,state,error,calculator}.rs\<close> and its use by
  the bank, \<^verbatim>\<open>runtime/src/bank/trv1_fee_integration.rs\<close>. Of the bank only the slot and the fee state
  are kept; the lock around the fee state is left out.

  Shown: the next base fee is the exact integer formula clamped to the configured range (no
  intermediate saturation happens), it moves by at most one part in \<open>base_fee_change_denominator\<close>,
  in the direction of the load and monotonically in it; sustained empty or overfull blocks drive it
  to the floor or the ceiling; an accepted transaction can pay its exact fee; every bank of a chain
  has its base fee in range, but derives it from the load of the block two before it.
\<close>

section \<open>Configuration and state\<close>

text \<open>\<^verbatim>\<open>target_utilization_pct\<close> is a \<^verbatim>\<open>u8\<close>.\<close>

record FeeMarketConfig =
  min_base_fee :: u64
  max_base_fee :: u64
  target_utilization_pct :: nat
  max_block_compute_units :: u64
  base_fee_change_denominator :: u64
  min_priority_fee :: u64

definition FeeMarketConfig_default :: FeeMarketConfig where
  "FeeMarketConfig_default =
     \<lparr> min_base_fee = 5000, max_base_fee = 50000000, target_utilization_pct = 50,
       max_block_compute_units = 48000000, base_fee_change_denominator = 8, min_priority_fee = 0 \<rparr>"

definition target_gas :: "FeeMarketConfig \<Rightarrow> u64" where
  "target_gas c = sat_mul 64 (max_block_compute_units c) (target_utilization_pct c) div 100"

text \<open>The reason of an invalid configuration, which the source renders as text.\<close>

datatype InvalidReason = MinAboveMax u64 u64 | ZeroDenominator | TargetAbove100 nat

datatype FeeError =
    InsufficientFee u64 u64 u64 u64
  | PriorityFeeTooLow u64 u64
  | InvalidConfig InvalidReason
  | ComputeUnitsExceedMax u64 u64
  | Overflow

record BlockFeeState =
  base_fee_per_cu :: u64
  parent_gas_used :: u64
  current_gas_used :: u64
  fee_height :: u64

record TransactionFee =
  base_fee :: u64
  priority_fee :: u64
  total_fee :: u64

definition genesis :: "u64 \<Rightarrow> BlockFeeState" where
  "genesis fee = \<lparr> base_fee_per_cu = fee, parent_gas_used = 0, current_gas_used = 0, fee_height = 0 \<rparr>"

definition record_gas :: "u64 \<Rightarrow> BlockFeeState \<Rightarrow> BlockFeeState \<times> u64" where
  "record_gas cu s =
     (let s' = s\<lparr> current_gas_used := sat_add 64 (current_gas_used s) cu \<rparr> in (s', current_gas_used s'))"

definition next_block :: "u64 \<Rightarrow> u64 \<Rightarrow> BlockFeeState \<Rightarrow> BlockFeeState" where
  "next_block next_base_fee next_height s =
     \<lparr> base_fee_per_cu = next_base_fee, parent_gas_used = current_gas_used s, current_gas_used = 0,
       fee_height = next_height \<rparr>"

definition utilization :: "BlockFeeState \<Rightarrow> u64 \<Rightarrow> f64" where
  "utilization s max_block_cu =
     (if max_block_cu = 0 then 0 else f64_div (f64_of_nat (current_gas_used s)) (f64_of_nat max_block_cu))"

section \<open>Calculator\<close>

definition clamp :: "u64 \<Rightarrow> u64 \<Rightarrow> u64 \<Rightarrow> u64" where
  "clamp value mn mx = (if value < mn then mn else if value > mx then mx else value)"

definition calculate_next_base_fee :: "FeeMarketConfig \<Rightarrow> BlockFeeState \<Rightarrow> u64" where
  "calculate_next_base_fee c s =
     (let target = target_gas c in
      if target = 0 then
        if parent_gas_used s > 0 then max_base_fee c
        else clamp (base_fee_per_cu s) (min_base_fee c) (max_base_fee c)
      else
        let current = base_fee_per_cu s;
            nxt = (if parent_gas_used s = target then current
              else if parent_gas_used s > target then
                let excess = parent_gas_used s - target;
                    numerator = sat_mul 128 current excess;
                    denominator = sat_mul 128 target (base_fee_change_denominator c);
                    delta = (if denominator = 0 then current
                             else min (max (numerator div denominator) 1) (umax 64))
                in sat_add 64 current delta
              else
                let deficit = target - parent_gas_used s;
                    numerator = sat_mul 128 current deficit;
                    denominator = sat_mul 128 target (base_fee_change_denominator c);
                    delta = (if denominator = 0 then 0 else min (numerator div denominator) (umax 64))
                in current - delta)
        in clamp nxt (min_base_fee c) (max_base_fee c))"

definition calculate_transaction_fee :: "u64 \<Rightarrow> u64 \<Rightarrow> u64 \<Rightarrow> TransactionFee" where
  "calculate_transaction_fee base_per_cu prio_per_cu cu =
     (let b = sat_mul 64 base_per_cu cu; p = sat_mul 64 prio_per_cu cu
      in \<lparr> base_fee = b, priority_fee = p, total_fee = sat_add 64 b p \<rparr>)"

definition validate_transaction_fee ::
    "u64 \<Rightarrow> u64 \<Rightarrow> u64 \<Rightarrow> u64 \<Rightarrow> FeeMarketConfig \<Rightarrow> FeeError + TransactionFee" where
  "validate_transaction_fee offered prio_per_cu base_per_cu cu c =
     (if cu > max_block_compute_units c then Inl (ComputeUnitsExceedMax cu (max_block_compute_units c))
      else if prio_per_cu < min_priority_fee c then Inl (PriorityFeeTooLow prio_per_cu (min_priority_fee c))
      else let fee = calculate_transaction_fee base_per_cu prio_per_cu cu
        in if offered < total_fee fee then Inl (InsufficientFee offered (total_fee fee) base_per_cu cu)
           else Inr fee)"

definition validate_config :: "FeeMarketConfig \<Rightarrow> FeeError + unit" where
  "validate_config c =
     (if min_base_fee c > max_base_fee c then Inl (InvalidConfig (MinAboveMax (min_base_fee c) (max_base_fee c)))
      else if base_fee_change_denominator c = 0 then Inl (InvalidConfig ZeroDenominator)
      else if target_utilization_pct c > 100 then Inl (InvalidConfig (TargetAbove100 (target_utilization_pct c)))
      else Inr ())"

section \<open>The bank\<close>

record FeeBank =
  bank_slot :: u64
  trv1_fee_state :: BlockFeeState

definition update_base_fee_for_new_block :: "FeeBank \<Rightarrow> FeeBank \<Rightarrow> FeeBank" where
  "update_base_fee_for_new_block bank parent =
     (let c = FeeMarketConfig_default; ps = trv1_fee_state parent;
          next_base_fee = calculate_next_base_fee c ps
      in bank\<lparr> trv1_fee_state := next_block next_base_fee (bank_slot bank) ps \<rparr>)"

definition get_current_base_fee :: "FeeBank \<Rightarrow> u64" where
  "get_current_base_fee bank = base_fee_per_cu (trv1_fee_state bank)"

definition get_block_fee_state :: "FeeBank \<Rightarrow> BlockFeeState" where
  "get_block_fee_state bank = trv1_fee_state bank"

definition validate_trv1_fee :: "FeeBank \<Rightarrow> u64 \<Rightarrow> u64 \<Rightarrow> u64 \<Rightarrow> FeeError + TransactionFee" where
  "validate_trv1_fee bank offered prio_per_cu cu =
     validate_transaction_fee offered prio_per_cu (get_current_base_fee bank) cu FeeMarketConfig_default"

definition record_transaction_compute :: "u64 \<Rightarrow> FeeBank \<Rightarrow> FeeBank" where
  "record_transaction_compute cu bank = bank\<lparr> trv1_fee_state := fst (record_gas cu (trv1_fee_state bank)) \<rparr>"

definition estimate_transaction_fee :: "FeeBank \<Rightarrow> u64 \<Rightarrow> u64 \<Rightarrow> TransactionFee" where
  "estimate_transaction_fee bank prio_per_cu cu =
     calculate_transaction_fee (get_current_base_fee bank) prio_per_cu cu"

section \<open>The formula without saturation\<close>

definition config_ok :: "FeeMarketConfig \<Rightarrow> bool" where
  "config_ok c \<longleftrightarrow> validate_config c = Inr () \<and> max_base_fee c < 2 ^ 64 \<and>
     max_block_compute_units c < 2 ^ 57 \<and> base_fee_change_denominator c < 2 ^ 64 \<and> 0 < target_gas c"

text \<open>The documented formula on unbounded integers.\<close>

definition eip1559_next :: "nat \<Rightarrow> nat \<Rightarrow> nat \<Rightarrow> nat \<Rightarrow> nat" where
  "eip1559_next target denom current gas =
     (if gas > target then current + max (current * (gas - target) div (target * denom)) 1
      else current - current * (target - gas) div (target * denom))"

lemma clamp_range: "mn \<le> mx \<Longrightarrow> mn \<le> clamp x mn mx \<and> clamp x mn mx \<le> mx"
  by (simp add: clamp_def)

lemma clamp_id: "mn \<le> x \<Longrightarrow> x \<le> mx \<Longrightarrow> clamp x mn mx = x"
  by (simp add: clamp_def)

lemma clamp_mono: "mn \<le> mx \<Longrightarrow> x \<le> y \<Longrightarrow> clamp x mn mx \<le> clamp y mn mx"
  by (simp add: clamp_def)

lemma config_okD:
  assumes "config_ok c"
  shows "min_base_fee c \<le> max_base_fee c" "0 < base_fee_change_denominator c" "target_utilization_pct c \<le> 100"
    "max_base_fee c \<le> umax 64" "0 < target_gas c" "base_fee_change_denominator c < 2 ^ 64"
    "max_block_compute_units c < 2 ^ 57"
  using assms by (auto simp: config_ok_def validate_config_def umax_def split: if_splits)

lemma target_gas_exact:
  assumes "config_ok c"
  shows "target_gas c = max_block_compute_units c * target_utilization_pct c div 100"
    "target_gas c \<le> max_block_compute_units c"
proof -
  have le: "max_block_compute_units c * target_utilization_pct c \<le> max_block_compute_units c * 100"
    by (rule mult_le_mono2 [OF config_okD(3) [OF assms]])
  have "max_block_compute_units c < 144115188075855872" "umax 64 = 18446744073709551615"
    using config_okD(7) [OF assms] by (simp_all add: umax_def)
  then have "max_block_compute_units c * target_utilization_pct c \<le> umax 64" using le by linarith
  then show *: "target_gas c = max_block_compute_units c * target_utilization_pct c div 100"
    by (simp only: target_gas_def sat_mul_exact)
  show "target_gas c \<le> max_block_compute_units c" using div_le_mono [OF le, of 100] unfolding * by simp
qed

lemma u128_exact: "a < 2 ^ 64 \<Longrightarrow> b < 2 ^ 64 \<Longrightarrow> sat_mul 128 a b = a * b"
proof -
  assume "a < 2 ^ 64" "b < 2 ^ 64"
  then have "a * b \<le> (2 ^ 64 - 1) * (2 ^ 64 - 1)" by (intro mult_le_mono) simp_all
  also have "\<dots> \<le> umax 128" by (simp add: umax_def)
  finally show ?thesis by (rule sat_mul_exact)
qed

text \<open>
  The formula for every configuration: without a target any load asks for the ceiling and no load keeps the
  fee (the comment in the code promises the floor).
\<close>

definition eip1559_fee :: "FeeMarketConfig \<Rightarrow> nat \<Rightarrow> nat \<Rightarrow> nat" where
  "eip1559_fee c current gas =
     (if target_gas c = 0 then if 0 < gas then max_base_fee c else current
      else eip1559_next (target_gas c) (base_fee_change_denominator c) current gas)"

lemma target_gas_u64: "target_gas c < 2 ^ 64"
proof -
  have "target_gas c \<le> umax 64 div 100" unfolding target_gas_def sat_mul_def by (intro div_le_mono) simp
  then show ?thesis by (simp add: umax_def)
qed

lemma next_base_fee_valid:
  assumes "validate_config c = Inr ()" "max_base_fee c < 2 ^ 64" "base_fee_change_denominator c < 2 ^ 64"
    and "base_fee_per_cu s < 2 ^ 64" "parent_gas_used s < 2 ^ 64"
  shows "calculate_next_base_fee c s =
    clamp (eip1559_fee c (base_fee_per_cu s) (parent_gas_used s)) (min_base_fee c) (max_base_fee c)"
proof (cases "target_gas c = 0")
  case True
  then show ?thesis using assms(1)
    by (auto simp: calculate_next_base_fee_def eip1559_fee_def clamp_def validate_config_def split: if_splits)
next
  case False
  let ?t = "target_gas c" and ?d = "base_fee_change_denominator c" and ?x = "base_fee_per_cu s"
  let ?g = "parent_gas_used s" and ?cl = "\<lambda>x. clamp x (min_base_fee c) (max_base_fee c)"
  have C: "min_base_fee c \<le> max_base_fee c" "0 < ?d" "max_base_fee c \<le> umax 64"
    using assms(1,2) by (auto simp: validate_config_def umax_def split: if_splits)
  have prod: "sat_mul 128 ?t ?d = ?t * ?d" "?t * ?d \<noteq> 0"
    using False C(2) assms(3) target_gas_u64 [of c] by (simp_all add: u128_exact)
  have sat: "?cl (sat_add 64 ?x (min m (umax 64))) = ?cl (?x + m)" for m
    using C(1,3) by (auto simp: clamp_def sat_add_def min_def)
  have sub: "?x - min m (umax 64) = ?x - m" for m
    using assms(4) by (auto simp: min_def umax_def)
  show ?thesis using assms(4,5) target_gas_u64 [of c] prod False
    by (simp add: calculate_next_base_fee_def eip1559_fee_def eip1559_next_def Let_def u128_exact sat sub)
qed

lemma next_base_fee_exact:
  assumes "config_ok c" "base_fee_per_cu s < 2 ^ 64" "parent_gas_used s < 2 ^ 64"
  shows "calculate_next_base_fee c s =
    clamp (eip1559_next (target_gas c) (base_fee_change_denominator c) (base_fee_per_cu s) (parent_gas_used s))
      (min_base_fee c) (max_base_fee c)"
  using next_base_fee_valid [of c s] assms by (simp add: config_ok_def eip1559_fee_def)

section \<open>Size and direction of a change\<close>

lemma eip1559_direction:
  "gas > target \<Longrightarrow> current < eip1559_next target denom current gas"
  "gas = target \<Longrightarrow> eip1559_next target denom current gas = current"
  "gas < target \<Longrightarrow> eip1559_next target denom current gas \<le> current"
  by (simp_all add: eip1559_next_def)

lemma quotient_bound:
  assumes "0 < target" "0 < denom" "d \<le> target"
  shows "current * d div (target * denom) \<le> (current :: nat) div denom"
proof -
  have "current * d div (target * denom) \<le> current * target div (target * denom)"
    using assms(3) by (intro div_le_mono) simp
  also have "\<dots> = current div denom" using assms(1) by (simp add: mult.commute)
  finally show ?thesis .
qed

lemma eip1559_bound:
  assumes "0 < target" "0 < denom" "gas \<le> 2 * target"
  shows "eip1559_next target denom current gas \<le> current + max (current div denom) 1"
    and "current \<le> eip1559_next target denom current gas + current div denom"
proof -
  have "gas - target \<le> target" "target - gas \<le> target" using assms(3) by auto
  note q = this [THEN quotient_bound [OF assms(1,2)], of current]
  show "eip1559_next target denom current gas \<le> current + max (current div denom) 1"
    using q(1) by (auto simp: eip1559_next_def)
  show "current \<le> eip1559_next target denom current gas + current div denom"
    using q(2) by (auto simp: eip1559_next_def)
qed

lemma eip1559_mono:
  assumes "gas \<le> gas'"
  shows "eip1559_next target denom current gas \<le> eip1559_next target denom current gas'"
proof -
  have up: "current * (gas - target) div (target * denom) \<le> current * (gas' - target) div (target * denom)"
    using assms by (intro div_le_mono mult_le_mono2) simp
  have down: "current * (target - gas') div (target * denom) \<le> current * (target - gas) div (target * denom)"
    using assms by (intro div_le_mono mult_le_mono2) simp
  show ?thesis using assms up down unfolding eip1559_next_def
    by (auto intro: le_max_iff_disj [THEN iffD2] diff_le_mono2)
qed

section \<open>Sustained load\<close>

abbreviation loaded :: "nat \<Rightarrow> nat \<Rightarrow> BlockFeeState" where
  "loaded gas fee \<equiv> \<lparr> base_fee_per_cu = fee, parent_gas_used = gas, current_gas_used = 0, fee_height = 0 \<rparr>"

lemma next_in_range:
  assumes "config_ok c" "fee < 2 ^ 64" "gas < 2 ^ 64"
  shows "min_base_fee c \<le> calculate_next_base_fee c (loaded gas fee)"
    "calculate_next_base_fee c (loaded gas fee) \<le> max_base_fee c"
  using clamp_range [OF config_okD(1) [OF assms(1)]] assms by (simp_all add: next_base_fee_exact)

text \<open>An empty block lowers the fee by at least one until the floor, when the floor is not below the denominator.\<close>

lemma empty_block_lowers:
  assumes "config_ok c" "base_fee_change_denominator c \<le> min_base_fee c"
    and "min_base_fee c < fee" "fee \<le> max_base_fee c"
  shows "calculate_next_base_fee c (loaded 0 fee) < fee"
proof -
  note C = config_okD [OF assms(1)]
  have f: "fee < 2 ^ 64" using assms(4) C(4) by (simp add: umax_def)
  have "fee * target_gas c div (target_gas c * base_fee_change_denominator c) = fee div base_fee_change_denominator c"
    using C(5) by (simp add: mult.commute)
  moreover have "0 < fee div base_fee_change_denominator c"
    using C(2) assms(2,3) by (simp add: div_greater_zero_iff)
  ultimately show ?thesis using assms f C(5)
    by (simp add: next_base_fee_exact eip1559_next_def clamp_def)
qed

lemma overfull_block_raises:
  assumes "config_ok c" "target_gas c < gas" "gas < 2 ^ 64" "fee < max_base_fee c"
  shows "fee < calculate_next_base_fee c (loaded gas fee)"
proof -
  note C = config_okD [OF assms(1)]
  have f: "fee < 2 ^ 64" using assms(4) C(4) by (simp add: umax_def)
  have "fee < eip1559_next (target_gas c) (base_fee_change_denominator c) fee gas"
    using assms(2) by (rule eip1559_direction)
  then show ?thesis using assms f by (auto simp: next_base_fee_exact clamp_def)
qed

lemma empty_blocks_reach_floor:
  assumes "config_ok c" "base_fee_change_denominator c \<le> min_base_fee c"
  shows "min_base_fee c \<le> fee \<Longrightarrow> fee \<le> max_base_fee c \<Longrightarrow> fee - min_base_fee c \<le> n \<Longrightarrow>
    ((\<lambda>f. calculate_next_base_fee c (loaded 0 f)) ^^ n) fee = min_base_fee c"
proof (induction n arbitrary: fee)
  case (Suc n)
  let ?g = "calculate_next_base_fee c (loaded 0 fee)"
  have f: "fee < 2 ^ 64" using Suc.prems(2) config_okD(4) [OF assms(1)] by (simp add: umax_def)
  have range: "min_base_fee c \<le> ?g" "?g \<le> max_base_fee c"
    using next_in_range [OF assms(1) f, of 0] by simp_all
  have "?g - min_base_fee c \<le> n"
  proof (cases "fee = min_base_fee c")
    case True
    have "?g \<le> fee" using assms(1) f True config_okD(1,5) [OF assms(1)]
      by (auto simp: next_base_fee_exact eip1559_next_def clamp_def)
    then show ?thesis using True by simp
  next
    case False
    then show ?thesis using empty_block_lowers [OF assms, of fee] Suc.prems by simp
  qed
  from Suc.IH [OF range this] show ?case by (simp add: funpow_Suc_right del: funpow.simps)
qed simp

lemma overfull_blocks_reach_ceiling:
  assumes "config_ok c" "target_gas c < gas" "gas < 2 ^ 64"
  shows "fee \<le> max_base_fee c \<Longrightarrow> max_base_fee c - fee \<le> n \<Longrightarrow>
    ((\<lambda>f. calculate_next_base_fee c (loaded gas f)) ^^ n) fee = max_base_fee c"
proof (induction n arbitrary: fee)
  case (Suc n)
  let ?g = "calculate_next_base_fee c (loaded gas fee)"
  have f: "fee < 2 ^ 64" using Suc.prems(1) config_okD(4) [OF assms(1)] by (simp add: umax_def)
  have range: "?g \<le> max_base_fee c" using next_in_range(2) [OF assms(1) f assms(3)] .
  have "max_base_fee c - ?g \<le> n"
  proof (cases "fee = max_base_fee c")
    case True
    have "fee < eip1559_next (target_gas c) (base_fee_change_denominator c) fee gas"
      using assms(2) by (rule eip1559_direction)
    then have "?g = max_base_fee c" using True assms f config_okD(1) [OF assms(1)]
      by (simp add: next_base_fee_exact clamp_def)
    then show ?thesis by simp
  next
    case False
    then show ?thesis using overfull_block_raises [OF assms, of fee] Suc.prems by simp
  qed
  from Suc.IH [OF range this] show ?case by (simp add: funpow_Suc_right del: funpow.simps)
qed simp

section \<open>Chains of banks\<close>

datatype FeeEvent = TxCompute u64 | NewBlock u64

fun fee_chain_step :: "FeeBank \<Rightarrow> FeeEvent \<Rightarrow> FeeBank" where
  "fee_chain_step bank (TxCompute cu) = record_transaction_compute cu bank"
| "fee_chain_step bank (NewBlock slot) =
     update_base_fee_for_new_block \<lparr> bank_slot = slot, trv1_fee_state = genesis 0 \<rparr> bank"

definition fee_inv :: "FeeBank \<Rightarrow> bool" where
  "fee_inv bank \<longleftrightarrow> 5000 \<le> get_current_base_fee bank \<and> get_current_base_fee bank \<le> 50000000 \<and>
     parent_gas_used (trv1_fee_state bank) < 2 ^ 64 \<and> current_gas_used (trv1_fee_state bank) < 2 ^ 64"

lemma default_config_ok: "config_ok FeeMarketConfig_default"
  by (simp add: config_ok_def validate_config_def FeeMarketConfig_default_def target_gas_def sat_mul_def umax_def)

lemma default_config_sel [simp]:
  "min_base_fee FeeMarketConfig_default = 5000" "max_base_fee FeeMarketConfig_default = 50000000"
  "base_fee_change_denominator FeeMarketConfig_default = 8" "target_gas FeeMarketConfig_default = 24000000"
  "max_block_compute_units FeeMarketConfig_default = 48000000" "min_priority_fee FeeMarketConfig_default = 0"
  by (simp_all add: FeeMarketConfig_default_def target_gas_def sat_mul_def umax_def)

lemma fee_chain_step_inv:
  assumes "fee_inv bank"
  shows "fee_inv (fee_chain_step bank e)"
proof (cases e)
  case (TxCompute cu)
  have "sat_add 64 (current_gas_used (trv1_fee_state bank)) cu < 2 ^ 64"
    by (rule less_umax_iff [THEN iffD1]) simp_all
  then show ?thesis using assms TxCompute
    by (simp add: fee_inv_def record_transaction_compute_def record_gas_def get_current_base_fee_def Let_def)
next
  case (NewBlock slot)
  have "base_fee_per_cu (trv1_fee_state bank) < 2 ^ 64" "parent_gas_used (trv1_fee_state bank) < 2 ^ 64"
    using assms by (auto simp: fee_inv_def get_current_base_fee_def)
  from next_base_fee_exact [OF default_config_ok this] NewBlock assms show ?thesis
    using clamp_range [of 5000 50000000]
    by (simp add: fee_inv_def update_base_fee_for_new_block_def next_block_def get_current_base_fee_def Let_def)
qed

interpretation fee_run: invariant_system fee_chain_step fee_inv
  by unfold_locales (rule fee_chain_step_inv)

lemma fee_inv_genesis: "fee_inv \<lparr> bank_slot = 0, trv1_fee_state = genesis 5000 \<rparr>"
  by (simp add: fee_inv_def get_current_base_fee_def genesis_def)

section \<open>Properties\<close>

text \<open>
  C15: For every configuration that \<^verbatim>\<open>validate_config\<close> accepts and any fee and load a \<^verbatim>\<open>u64\<close> holds, the
  next base fee is the documented EIP-1559 formula on unbounded integers, clamped to the configured range:
  none of the 128-bit and 64-bit saturations of the fee computation ever takes effect. A configuration whose
  target is zero is accepted too; then any load asks for the ceiling and no load keeps the fee within the
  range, although the comment in the code says that it then returns to the floor. The target itself is the configured share of a block's compute units, rounded down, where their product
  saturates at the largest \<^verbatim>\<open>u64\<close>.
\<close>

theorem next_base_fee_is_eip1559:
  assumes "validate_config c = Inr ()" "max_base_fee c < 2 ^ 64" "base_fee_change_denominator c < 2 ^ 64"
    and "base_fee_per_cu s < 2 ^ 64" "parent_gas_used s < 2 ^ 64"
  shows "calculate_next_base_fee c s =
      max (min_base_fee c) (min (max_base_fee c) (eip1559_fee c (base_fee_per_cu s) (parent_gas_used s)))
    \<and> target_gas c = min (max_block_compute_units c * target_utilization_pct c) (2 ^ 64 - 1) div 100"
proof -
  have "min_base_fee c \<le> max_base_fee c" using assms(1) by (auto simp: validate_config_def split: if_splits)
  then show ?thesis using next_base_fee_valid [OF assms]
    by (simp add: clamp_def target_gas_def sat_mul_def umax_def)
qed

theorem next_base_fee_is_eip1559_witness:
  "calculate_next_base_fee FeeMarketConfig_default (loaded 48000000 8000) = 9000 \<and>
   (let c = FeeMarketConfig_default\<lparr> target_utilization_pct := 0 \<rparr> in
    validate_config c = Inr () \<and> calculate_next_base_fee c (loaded 1 8000) = 50000000)"
  using next_base_fee_is_eip1559 [of FeeMarketConfig_default "loaded 48000000 8000"]
    next_base_fee_is_eip1559 [of "FeeMarketConfig_default\<lparr> target_utilization_pct := 0 \<rparr>" "loaded 1 8000"]
  by (simp add: eip1559_fee_def eip1559_next_def validate_config_def FeeMarketConfig_default_def target_gas_def
      sat_mul_def umax_def)

text \<open>
  From a fee in range, one block with at most twice the target load changes the base fee by at
  most one part in \<open>base_fee_change_denominator\<close> (upwards by at least 1): it rises strictly above
  target unless capped, stays at target, and does not rise below target.
\<close>

theorem base_fee_change_limited:
  assumes "config_ok c" "min_base_fee c \<le> base_fee_per_cu s" "base_fee_per_cu s \<le> max_base_fee c"
    and "parent_gas_used s \<le> 2 * target_gas c"
  shows "calculate_next_base_fee c s \<le>
      base_fee_per_cu s + max (base_fee_per_cu s div base_fee_change_denominator c) 1 \<and>
    base_fee_per_cu s \<le> calculate_next_base_fee c s + base_fee_per_cu s div base_fee_change_denominator c \<and>
    (target_gas c < parent_gas_used s \<and> base_fee_per_cu s < max_base_fee c \<longrightarrow>
       base_fee_per_cu s < calculate_next_base_fee c s) \<and>
    (target_gas c = parent_gas_used s \<longrightarrow> calculate_next_base_fee c s = base_fee_per_cu s) \<and>
    (parent_gas_used s < target_gas c \<longrightarrow> calculate_next_base_fee c s \<le> base_fee_per_cu s)"
proof -
  note C = config_okD [OF assms(1)]
  have t: "target_gas c < 2 ^ 57" using target_gas_exact(2) [OF assms(1)] C(7) by simp
  have b: "base_fee_per_cu s < 2 ^ 64" "parent_gas_used s < 2 ^ 64"
    using assms(3,4) C(4) t by (simp_all add: umax_def)
  note e = eip1559_bound [OF C(5) C(2) assms(4), of "base_fee_per_cu s"]
  note d = eip1559_direction [where target = "target_gas c" and gas = "parent_gas_used s"
      and current = "base_fee_per_cu s" and denom = "base_fee_change_denominator c"]
  show ?thesis using e d assms(2,3) C(1)
    unfolding next_base_fee_exact [OF assms(1) b] clamp_def by auto
qed

theorem base_fee_change_limited_witness:
  "calculate_next_base_fee FeeMarketConfig_default (loaded 30000000 8000) \<le> 9000 \<and>
   8000 < calculate_next_base_fee FeeMarketConfig_default (loaded 30000000 8000)"
  using base_fee_change_limited [OF default_config_ok, of "loaded 30000000 8000"] by simp

text \<open>
  More load never means a lower next base fee.
\<close>

theorem base_fee_monotone_in_load:
  assumes "config_ok c" "base_fee_per_cu s < 2 ^ 64" "parent_gas_used s \<le> gas" "gas < 2 ^ 64"
  shows "calculate_next_base_fee c s \<le> calculate_next_base_fee c (s\<lparr> parent_gas_used := gas \<rparr>)"
proof -
  have "parent_gas_used s < 2 ^ 64" using assms(3,4) by simp
  then show ?thesis using assms clamp_mono [OF config_okD(1) [OF assms(1)] eip1559_mono [OF assms(3)]]
    by (simp add: next_base_fee_exact)
qed

theorem base_fee_monotone_in_load_witness:
  "calculate_next_base_fee FeeMarketConfig_default (loaded 10 8000) \<le>
   calculate_next_base_fee FeeMarketConfig_default ((loaded 10 8000)\<lparr> parent_gas_used := 20000000 \<rparr>)"
  by (rule base_fee_monotone_in_load [OF default_config_ok]) simp_all

text \<open>
  Under sustained empty blocks the base fee reaches its floor, and under sustained blocks above
  target its ceiling, after finitely many blocks (at most as many as the distance to it), when the
  floor is not below the denominator.
\<close>

theorem sustained_load_reaches_limit:
  assumes "config_ok c" "base_fee_change_denominator c \<le> min_base_fee c"
    and "min_base_fee c \<le> fee" "fee \<le> max_base_fee c" "target_gas c < gas" "gas < 2 ^ 64"
  shows "((\<lambda>f. calculate_next_base_fee c (loaded 0 f)) ^^ (fee - min_base_fee c)) fee = min_base_fee c \<and>
    ((\<lambda>f. calculate_next_base_fee c (loaded gas f)) ^^ (max_base_fee c - fee)) fee = max_base_fee c"
  using empty_blocks_reach_floor [OF assms(1,2,3,4)] overfull_blocks_reach_ceiling [OF assms(1,5,6,4)] by simp

theorem sustained_load_reaches_limit_witness:
  "((\<lambda>f. calculate_next_base_fee FeeMarketConfig_default (loaded 0 f)) ^^ 1000) 6000 = 5000"
  using sustained_load_reaches_limit [OF default_config_ok, of 6000 24000001] by simp

text \<open>
  A transaction is accepted exactly when it asks for no more than a block's compute units, offers
  the minimum priority fee and can pay \<open>(base + priority) * units\<close>, computed without overflow; the fee
  it is then charged is that amount, split into its two parts.
\<close>

theorem accepted_fee_is_affordable:
  assumes "offered < umax 64"
  shows "validate_transaction_fee offered prio base cu c = Inr fee \<longleftrightarrow>
    cu \<le> max_block_compute_units c \<and> min_priority_fee c \<le> prio \<and> (base + prio) * cu \<le> offered \<and>
    fee = \<lparr> base_fee = base * cu, priority_fee = prio * cu, total_fee = (base + prio) * cu \<rparr>"
proof -
  have "sat_add 64 (sat_mul 64 base cu) (sat_mul 64 prio cu) \<le> offered \<longleftrightarrow> (base + prio) * cu \<le> offered"
    using assms by (auto simp: sat_add_def sat_mul_def min_def distrib_right)
  moreover have "sat_mul 64 base cu = base * cu" "sat_mul 64 prio cu = prio * cu"
    "sat_add 64 (base * cu) (prio * cu) = (base + prio) * cu" if "(base + prio) * cu \<le> offered"
    using that assms by (simp_all add: sat_mul_exact sat_add_exact distrib_right)
  ultimately show ?thesis
    by (auto simp: validate_transaction_fee_def calculate_transaction_fee_def Let_def)
qed

theorem accepted_fee_is_affordable_witness:
  "validate_transaction_fee 1000000 1 5000 100 FeeMarketConfig_default =
     Inr \<lparr> base_fee = 500000, priority_fee = 100, total_fee = 500100 \<rparr>"
  by (subst accepted_fee_is_affordable) (simp_all add: umax_def)

text \<open>
  Along every chain of banks from genesis, in any interleaving of transactions and new blocks,
  the base fee stays within the floor and the ceiling of the default configuration.
\<close>

theorem chain_base_fee_in_range:
  "let fee = get_current_base_fee
       (foldl fee_chain_step \<lparr> bank_slot = 0, trv1_fee_state = genesis 5000 \<rparr> evs)
   in min_base_fee FeeMarketConfig_default \<le> fee \<and> fee \<le> max_base_fee FeeMarketConfig_default"
  using fee_run.run_inv [OF fee_inv_genesis, of evs] by (simp add: fee_inv_def)

text \<open>
  The base fee of a new block ignores how full its parent was: whatever the parent's own
  transactions consumed, the fee is the same, because it is computed from the load the parent's
  state recorded of the grandparent.
\<close>

theorem base_fee_ignores_parent_load:
  "get_current_base_fee (update_base_fee_for_new_block bank (record_transaction_compute cu parent)) =
   get_current_base_fee (update_base_fee_for_new_block bank parent)"
  by (simp add: get_current_base_fee_def update_base_fee_for_new_block_def next_block_def
      record_transaction_compute_def record_gas_def calculate_next_base_fee_def Let_def)

end
