(* ===== verification/Accounts_Rent.thy ===== *)
theory Accounts_Rent
  imports Trv1_Prelude
begin

text \<open>
  Accounts as the runtime and the programs see them, and the rent states of
  \<^verbatim>\<open>svm/src/rent_calculator.rs\<close>. The account type and the rent schedule live in external crates: of
  the first the fields are kept, of the second the test \<^verbatim>\<open>Rent::is_exempt\<close> is the parameter
  \<open>is_exempt\<close> (lamports, then data size).

  Shown: a rent-paying account can only be emptied, debited in place or made exempt.
\<close>

record AccountSharedData =
  lamports :: u64
  acc_data :: bytes
  owner :: pubkey
  executable :: bool
  rent_epoch :: u64

text \<open>The system program's address is the all-zero key.\<close>

definition system_program_id :: pubkey where
  "system_program_id = replicate 32 0"

definition default_account :: AccountSharedData where
  "default_account =
     \<lparr> lamports = 0, acc_data = [], owner = replicate 32 0, executable = False, rent_epoch = 0 \<rparr>"

section \<open>Rent states\<close>

datatype RentState = Uninitialized | RentPaying u64 nat | RentExempt

definition get_account_rent_state :: "(u64 \<Rightarrow> nat \<Rightarrow> bool) \<Rightarrow> u64 \<Rightarrow> nat \<Rightarrow> RentState" where
  "get_account_rent_state is_exempt l n =
     (if l = 0 then Uninitialized else if is_exempt l n then RentExempt else RentPaying l n)"

definition transition_allowed :: "RentState \<Rightarrow> RentState \<Rightarrow> bool" where
  "transition_allowed pre post =
     (case post of
        Uninitialized \<Rightarrow> True
      | RentExempt \<Rightarrow> True
      | RentPaying post_lamports post_size \<Rightarrow>
          (case pre of
             RentPaying pre_lamports pre_size \<Rightarrow> post_size = pre_size \<and> post_lamports \<le> pre_lamports
           | _ \<Rightarrow> False))"

datatype TransactionError = InsufficientFundsForRent nat

definition check_rent_state_with_account ::
    "pubkey \<Rightarrow> RentState \<Rightarrow> RentState \<Rightarrow> pubkey \<Rightarrow> nat \<Rightarrow> TransactionError + unit" where
  "check_rent_state_with_account incinerator pre post address idx =
     (if address \<noteq> incinerator \<and> \<not> transition_allowed pre post
      then Inl (InsufficientFundsForRent (idx mod 256)) else Inr ())"

text \<open>A credit that does not make the account exempt is refused.\<close>

lemma credit_transition:
  assumes "0 < x"
  shows "transition_allowed (get_account_rent_state ex l n) (get_account_rent_state ex (l + x) n) \<longleftrightarrow> ex (l + x) n"
  using assms by (auto simp: get_account_rent_state_def transition_allowed_def)

text \<open>No transaction creates a rent-paying account, or resizes or credits one without making it exempt.\<close>

lemma rent_paying_only_shrinks:
  assumes "transition_allowed (get_account_rent_state ex l n) (get_account_rent_state ex l' n')"
    and "0 < l'" "\<not> ex l' n'"
  shows "n' = n \<and> l' \<le> l \<and> \<not> ex l n"
  using assms by (auto simp: get_account_rent_state_def transition_allowed_def split: if_splits)

end
