(* ===== verification/Fee_Distribution.thy ===== *)
theory Fee_Distribution
  imports Float64 Accounts_Rent
begin

text \<open>
  \<^verbatim>\<open>runtime/src/trv1_constants.rs\<close> (the epoch-dependent shares) and
  \<^verbatim>\<open>runtime/src/bank/fee_distribution.rs\<close> (the four-way split of the fees of a block and their
  delivery). Of the bank the epoch, leader, accounts, collected fees, rewards and capitalization are
  kept; the rent schedule is the parameter \<open>is_exempt\<close>.

  Shown: the shares are computed in double precision, yet for up to \<open>2 ^ 49\<close> lamports per block the
  parts add up to exactly the fees collected, in every epoch; the mature split is an exact quarter
  each; what is credited to the leader plus what leaves the capitalization is the fees collected.
\<close>

section \<open>Shares\<close>

definition FEE_TRANSITION_EPOCHS :: u64 where
  "FEE_TRANSITION_EPOCHS = 1825"

definition LAUNCH_BURN_PCT :: f64 where "LAUNCH_BURN_PCT = f64_round (10 / 100)"
definition LAUNCH_VALIDATOR_PCT :: f64 where "LAUNCH_VALIDATOR_PCT = 0"
definition LAUNCH_TREASURY_PCT :: f64 where "LAUNCH_TREASURY_PCT = f64_round (45 / 100)"
definition LAUNCH_DEV_PCT :: f64 where "LAUNCH_DEV_PCT = f64_round (45 / 100)"
definition MATURE_BURN_PCT :: f64 where "MATURE_BURN_PCT = 1 / 4"
definition MATURE_VALIDATOR_PCT :: f64 where "MATURE_VALIDATOR_PCT = 1 / 4"
definition MATURE_TREASURY_PCT :: f64 where "MATURE_TREASURY_PCT = 1 / 4"
definition MATURE_DEV_PCT :: f64 where "MATURE_DEV_PCT = 1 / 4"

definition share_progress :: "u64 \<Rightarrow> f64" where
  "share_progress current_epoch =
     (if FEE_TRANSITION_EPOCHS = 0 then 1
      else min (f64_div (f64_of_nat current_epoch) (f64_of_nat FEE_TRANSITION_EPOCHS)) 1)"

definition interpolate :: "f64 \<Rightarrow> f64 \<Rightarrow> f64 \<Rightarrow> f64" where
  "interpolate launch mature progress = f64_add launch (f64_mul progress (f64_sub mature launch))"

definition fee_distribution_for_epoch :: "u64 \<Rightarrow> f64 \<times> f64 \<times> f64 \<times> f64" where
  "fee_distribution_for_epoch current_epoch =
     (let progress = share_progress current_epoch in
      (interpolate LAUNCH_BURN_PCT MATURE_BURN_PCT progress,
       interpolate LAUNCH_VALIDATOR_PCT MATURE_VALIDATOR_PCT progress,
       interpolate LAUNCH_TREASURY_PCT MATURE_TREASURY_PCT progress,
       interpolate LAUNCH_DEV_PCT MATURE_DEV_PCT progress))"

section \<open>Split\<close>

record CollectorFeeDetails =
  transaction_fee :: u64
  priority_fee :: u64

definition fees_accumulate :: "u64 \<Rightarrow> u64 \<Rightarrow> CollectorFeeDetails \<Rightarrow> CollectorFeeDetails" where
  "fees_accumulate tx prio d =
     \<lparr> transaction_fee = sat_add 64 (transaction_fee d) tx,
       priority_fee = sat_add 64 (priority_fee d) prio \<rparr>"

definition total_transaction_fee :: "CollectorFeeDetails \<Rightarrow> u64" where
  "total_transaction_fee d = sat_add 64 (transaction_fee d) (priority_fee d)"

record FeeDistribution =
  fd_deposit :: u64
  fd_burn :: u64
  fd_treasury :: u64
  fd_dev :: u64

definition FeeDistribution_default :: FeeDistribution where
  "FeeDistribution_default = \<lparr> fd_deposit = 0, fd_burn = 0, fd_treasury = 0, fd_dev = 0 \<rparr>"

definition fee_share :: "u64 \<Rightarrow> f64 \<Rightarrow> u64" where
  "fee_share amount pct = f64_to_u64 (f64_mul (f64_of_nat amount) pct)"

definition calculate_reward_and_burn_fee_details :: "u64 \<Rightarrow> CollectorFeeDetails \<Rightarrow> FeeDistribution" where
  "calculate_reward_and_burn_fee_details epoch d =
     (if transaction_fee d = 0 then FeeDistribution_default
      else
        let amount = sat_add 64 (transaction_fee d) (priority_fee d);
            (burn_pct, validator_pct, treasury_pct, dev_pct) = fee_distribution_for_epoch epoch;
            burn = fee_share amount burn_pct;
            deposit = fee_share amount validator_pct;
            treasury = fee_share amount treasury_pct;
            dev = fee_share amount dev_pct;
            distributed = sat_add 64 (sat_add 64 (sat_add 64 burn deposit) treasury) dev;
            remainder_burn = amount - distributed
        in \<lparr> fd_deposit = deposit, fd_burn = sat_add 64 burn remainder_burn,
             fd_treasury = treasury, fd_dev = dev \<rparr>)"

section \<open>Delivery\<close>

datatype DepositFeeError = InvalidRentPayingAccount | LamportOverflow | InvalidAccountOwner

record RewardInfo =
  rw_lamports :: i64
  rw_post_balance :: u64

record FeeDistBank =
  fb_epoch :: u64
  leader_id :: pubkey
  fb_accounts :: "pubkey \<Rightarrow> AccountSharedData option"
  collector_fee_details :: CollectorFeeDetails
  rewards :: "(pubkey \<times> RewardInfo) list"
  capitalization :: u64

definition deposit_fees ::
    "(u64 \<Rightarrow> nat \<Rightarrow> bool) \<Rightarrow> pubkey \<Rightarrow> u64 \<Rightarrow> FeeDistBank \<Rightarrow> DepositFeeError + FeeDistBank \<times> u64" where
  "deposit_fees is_exempt pk fees bank =
     (let account = (case fb_accounts bank pk of None \<Rightarrow> default_account | Some a \<Rightarrow> a) in
      if owner account \<noteq> system_program_id then Inl InvalidAccountOwner
      else
        let pre = get_account_rent_state is_exempt (lamports account) (length (acc_data account)) in
        (case checked_add 64 (lamports account) fees of
           None \<Rightarrow> Inl LamportOverflow
         | Some l \<Rightarrow>
             let account' = account\<lparr> lamports := l \<rparr>;
                 post = get_account_rent_state is_exempt (lamports account') (length (acc_data account'))
             in if \<not> transition_allowed pre post then Inl InvalidRentPayingAccount
                else Inr (bank\<lparr> fb_accounts := (fb_accounts bank)(pk \<mapsto> account') \<rparr>, l)))"

text \<open>\<^verbatim>\<open>deposit as i64\<close> wraps at \<open>2 ^ 63\<close>.\<close>

definition as_i64 :: "u64 \<Rightarrow> i64" where
  "as_i64 x = (if x < 2 ^ 63 then int x else int x - 2 ^ 64)"

definition deposit_or_burn_fee :: "(u64 \<Rightarrow> nat \<Rightarrow> bool) \<Rightarrow> u64 \<Rightarrow> FeeDistBank \<Rightarrow> FeeDistBank \<times> u64" where
  "deposit_or_burn_fee is_exempt deposit bank =
     (if deposit = 0 then (bank, 0)
      else case deposit_fees is_exempt (leader_id bank) deposit bank of
          Inr (bank', post_balance) \<Rightarrow>
            (bank'\<lparr> rewards := rewards bank' @
               [(leader_id bank', \<lparr> rw_lamports = as_i64 deposit, rw_post_balance = post_balance \<rparr>)] \<rparr>, 0)
        | Inl _ \<Rightarrow> (bank, deposit))"

definition distribute_transaction_fee_details :: "(u64 \<Rightarrow> nat \<Rightarrow> bool) \<Rightarrow> FeeDistBank \<Rightarrow> FeeDistBank" where
  "distribute_transaction_fee_details is_exempt bank =
     (let d = collector_fee_details bank in
      if total_transaction_fee d = 0 then bank
      else
        let fd = calculate_reward_and_burn_fee_details (fb_epoch bank) d;
            undeliverable = sat_add 64 (fd_treasury fd) (fd_dev fd);
            (bank', failed) = deposit_or_burn_fee is_exempt (fd_deposit fd) bank;
            total_burn = sat_add 64 (sat_add 64 failed (fd_burn fd)) undeliverable
        in bank'\<lparr> capitalization := (capitalization bank' + (2 ^ 64 - total_burn)) mod 2 ^ 64 \<rparr>)"

section \<open>The constants\<close>

lemma share_constants:
  "LAUNCH_BURN_PCT = 3602879701896397 / 36028797018963968"
  "LAUNCH_TREASURY_PCT = 8106479329266893 / 18014398509481984"
  "LAUNCH_DEV_PCT = 8106479329266893 / 18014398509481984"
  by (simp_all add: LAUNCH_BURN_PCT_def LAUNCH_TREASURY_PCT_def LAUNCH_DEV_PCT_def f64_eval
      rnd_mag.simps [of "1 / 10"] rnd_mag.simps [of "9 / 20"])

lemma share_slopes:
  "f64_sub MATURE_BURN_PCT LAUNCH_BURN_PCT = 5404319552844595 / 36028797018963968"
  "f64_sub MATURE_VALIDATOR_PCT LAUNCH_VALIDATOR_PCT = 1 / 4"
  "f64_sub MATURE_TREASURY_PCT LAUNCH_TREASURY_PCT = - (3602879701896397 / 18014398509481984)"
  "f64_sub MATURE_DEV_PCT LAUNCH_DEV_PCT = - (3602879701896397 / 18014398509481984)"
  by (simp_all add: f64_sub_def share_constants MATURE_BURN_PCT_def MATURE_VALIDATOR_PCT_def LAUNCH_VALIDATOR_PCT_def
      MATURE_TREASURY_PCT_def MATURE_DEV_PCT_def f64_eval rnd_mag.simps [of "5404319552844595 / 36028797018963968"]
      rnd_mag.simps [of "1 / 4"] rnd_mag.simps [of "3602879701896397 / 18014398509481984"])

section \<open>The shares add up to one, up to rounding\<close>

lemma progress_range:
  "share_progress e = 0 \<or> 1 / 4000 \<le> share_progress e" "share_progress e \<le> 1"
proof -
  have c: "f64_of_nat 1825 = 1825" by (simp add: f64_of_nat_exact)
  show "share_progress e \<le> 1" by (simp add: share_progress_def FEE_TRANSITION_EPOCHS_def)
  show "share_progress e = 0 \<or> 1 / 4000 \<le> share_progress e"
  proof (cases "e = 0")
    case True
    then show ?thesis by (simp add: share_progress_def FEE_TRANSITION_EPOCHS_def f64_div_def)
  next
    case False
    then have e: "(1 :: rat) \<le> of_nat e" by simp
    then have "of_nat e * (999999 / 1000000) \<le> f64_of_nat e"
      unfolding f64_of_nat_def by (intro f64_round_coarse(1)) simp
    then have q: "1 / 3000 \<le> f64_of_nat e / 1825" using e by simp
    then have "f64_of_nat e / 1825 * (999999 / 1000000) \<le> f64_round (f64_of_nat e / 1825)"
      by (intro f64_round_coarse(1)) simp
    then have "1 / 4000 \<le> f64_round (f64_of_nat e / 1825)" using q by linarith
    then show ?thesis by (simp add: share_progress_def FEE_TRANSITION_EPOCHS_def f64_div_def c)
  qed
qed

text \<open>One interpolated share: at most three quarters of a unit roundoff from the exact line.\<close>

lemma interpolate_error:
  assumes p: "p = 0 \<or> 1 / 4000 \<le> p" "p \<le> 1"
    and s: "f64_sub m l = s" "1 / 10 \<le> \<bar>s\<bar>" "\<bar>s\<bar> \<le> 1 / 4"
    and l: "0 \<le> l" "l \<le> 46 / 100" "s < 0 \<Longrightarrow> 44 / 100 \<le> l" "s < 0 \<Longrightarrow> \<bar>s\<bar> \<le> 21 / 100" "0 < s \<Longrightarrow> l \<le> 11 / 100 \<and> (l = 0 \<or> 1 / 100 \<le> l)"
  shows "\<bar>interpolate l m p - (l + p * s)\<bar> \<le> 3 / 4 * f64_ulp"
    and "interpolate l m p = 0 \<or> 1 / 100000 \<le> interpolate l m p"
proof -
  let ?m = "f64_round (p * s)"
  have p0: "0 \<le> p" using p by linarith
  have ps: "\<bar>p * s\<bar> = p * \<bar>s\<bar>" using p0 by (simp add: abs_mult)
  have "p * \<bar>s\<bar> \<le> 1 * (1 / 4)" by (rule mult_mono) (use p s p0 in auto)
  then have ub: "\<bar>p * s\<bar> \<le> 1 / 4" using ps by simp
  have lb: "p * s = 0 \<or> 1 / 40000 \<le> \<bar>p * s\<bar>"
  proof (cases "p = 0")
    case False
    then have "1 / 4000 * (1 / 10) \<le> p * \<bar>s\<bar>" using p s by (intro mult_mono) auto
    then show ?thesis using ps by simp
  qed simp
  have "\<bar>?m - p * s\<bar> \<le> \<bar>p * s\<bar> * f64_ulp" using lb by (intro f64_round_ulp) linarith
  also have "\<dots> \<le> 1 / 4 * f64_ulp" using ub f64_ulp_bounds(1) by (intro mult_right_mono) auto
  finally have m: "\<bar>?m - p * s\<bar> \<le> 1 / 4 * f64_ulp" .
  have neg: "s < 0 \<Longrightarrow> \<bar>p * s\<bar> \<le> 21 / 100"
    using mult_mono [of p 1 "\<bar>s\<bar>" "21 / 100"] p p0 l(4) ps by auto
  have sgn: "s < 0 \<Longrightarrow> p * s \<le> 0" "0 < s \<Longrightarrow> 0 \<le> p * s"
    using p0 by (simp_all add: mult_nonneg_nonpos)
  have sum: "\<bar>l + ?m\<bar> \<le> 1 / 2" "l + ?m = 0 \<or> 1 / 50000 \<le> l + ?m"
  proof -
    consider "s < 0" | "0 < s" using s(2) by fastforce
    then have "\<bar>l + ?m\<bar> \<le> 1 / 2 \<and> (l + ?m = 0 \<or> 1 / 50000 \<le> l + ?m)"
    proof cases
      case 1
      then show ?thesis using m neg sgn l(2,3) f64_ulp_bounds by (auto simp: abs_le_iff abs_if split: if_splits)
    next
      case 2
      show ?thesis
      proof (cases "p * s = 0")
        case True
        then show ?thesis using l(5) [OF 2] l(1) by auto
      next
        case False
        then show ?thesis using m lb sgn(2) [OF 2] l(1,5) 2 ub f64_ulp_bounds
          by (auto simp: abs_le_iff abs_if split: if_splits)
      qed
    qed
    then show "\<bar>l + ?m\<bar> \<le> 1 / 2" "l + ?m = 0 \<or> 1 / 50000 \<le> l + ?m" by auto
  qed
  have i: "interpolate l m p = f64_round (l + ?m)"
    by (simp add: interpolate_def f64_add_def f64_mul_def s(1))
  have "\<bar>f64_round (l + ?m) - (l + ?m)\<bar> \<le> \<bar>l + ?m\<bar> * f64_ulp"
    using sum(2) by (intro f64_round_ulp) linarith
  also have "\<dots> \<le> 1 / 2 * f64_ulp"
    using sum(1) f64_ulp_bounds(1) by (intro mult_right_mono) auto
  finally have r: "\<bar>f64_round (l + ?m) - (l + ?m)\<bar> \<le> 1 / 2 * f64_ulp" .
  show "\<bar>interpolate l m p - (l + p * s)\<bar> \<le> 3 / 4 * f64_ulp" using r m i by linarith
  show "interpolate l m p = 0 \<or> 1 / 100000 \<le> interpolate l m p"
  proof (cases "l + ?m = 0")
    case False
    then show ?thesis using sum(2) r f64_ulp_bounds i by linarith
  qed (simp add: i)
qed

definition pct_ok :: "f64 \<Rightarrow> bool" where
  "pct_ok x \<longleftrightarrow> x = 0 \<or> 1 / 100000 \<le> x"

lemma shares_sum:
  assumes "fee_distribution_for_epoch e = (b, v, t, d)"
  shows "b + v + t + d \<le> 1 + 4 * f64_ulp" "pct_ok b" "pct_ok v" "pct_ok t" "pct_ok d"
proof -
  define p where "p = share_progress e"
  note pr = progress_range [of e, folded p_def]
  define L1 L2 s1 s2 :: rat where "L1 = 3602879701896397 / 36028797018963968"
    and "L2 = 8106479329266893 / 18014398509481984"
    and "s1 = 5404319552844595 / 36028797018963968"
    and "s2 = - (3602879701896397 / 18014398509481984)"
  note c = L1_def L2_def s1_def s2_def
  note B = interpolate_error [OF pr share_slopes(1)]
  note V = interpolate_error [OF pr share_slopes(2)]
  note T = interpolate_error [OF pr share_slopes(3)]
  note D = interpolate_error [OF pr share_slopes(4)]
  have eq: "b = interpolate LAUNCH_BURN_PCT MATURE_BURN_PCT p"
    "v = interpolate LAUNCH_VALIDATOR_PCT MATURE_VALIDATOR_PCT p"
    "t = interpolate LAUNCH_TREASURY_PCT MATURE_TREASURY_PCT p"
    "d = interpolate LAUNCH_DEV_PCT MATURE_DEV_PCT p"
    using assms by (simp_all add: fee_distribution_for_epoch_def p_def Let_def)
  have b: "\<bar>b - (L1 + p * s1)\<bar> \<le> 3 / 4 * f64_ulp" "pct_ok b"
    using B by (simp_all add: eq pct_ok_def share_constants c)
  have v: "\<bar>v - (0 + p * (1 / 4))\<bar> \<le> 3 / 4 * f64_ulp" "pct_ok v"
    using V by (simp_all add: eq pct_ok_def LAUNCH_VALIDATOR_PCT_def)
  have t: "\<bar>t - (L2 + p * s2)\<bar> \<le> 3 / 4 * f64_ulp" "pct_ok t"
    using T by (simp_all add: eq pct_ok_def share_constants c)
  have d: "\<bar>d - (L2 + p * s2)\<bar> \<le> 3 / 4 * f64_ulp" "pct_ok d"
    using D by (simp_all add: eq pct_ok_def share_constants c)
  show "pct_ok b" "pct_ok v" "pct_ok t" "pct_ok d" by fact+
  have "L1 + 2 * L2 \<le> 1 + f64_ulp" "s1 + 1 / 4 + 2 * s2 \<le> 0" by (simp_all add: c f64_ulp_def)
  moreover have "0 \<le> p" using pr by linarith
  ultimately have s: "p * (s1 + 1 / 4 + 2 * s2) \<le> 0" by (simp add: mult_nonneg_nonpos)
  have "p * (s1 + 1 / 4 + 2 * s2) = p * s1 + p * (1 / 4) + 2 * (p * s2)" by (simp add: algebra_simps)
  then show "b + v + t + d \<le> 1 + 4 * f64_ulp"
    using b(1) v(1) t(1) d(1) s \<open>L1 + 2 * L2 \<le> 1 + f64_ulp\<close> by linarith
qed

section \<open>Conservation\<close>

lemma fee_share_bound:
  assumes "amount \<le> 2 ^ 49" "pct_ok x"
  shows "of_nat (fee_share amount x) \<le> of_nat amount * x + of_nat amount * x * f64_ulp"
proof -
  have e: "f64_of_nat amount = of_nat amount" using assms(1) by (intro f64_of_nat_exact) simp
  let ?a = "of_nat amount * x"
  have x0: "0 \<le> x" using assms(2) by (auto simp: pct_ok_def)
  have "?a = 0 \<or> 1 / 1000000000000 \<le> \<bar>?a\<bar>"
  proof (cases "amount = 0 \<or> x = 0")
    case False
    then have "1 * (1 / 100000) \<le> ?a" using assms(2) by (intro mult_mono) (auto simp: pct_ok_def)
    then show ?thesis by simp
  qed auto
  from f64_round_ulp [OF this] have r: "f64_round ?a \<le> ?a + ?a * f64_ulp" using x0 by (simp add: abs_le_iff)
  have "0 \<le> f64_round ?a" using x0 by (simp add: f64_round_nonneg)
  then have "of_nat (f64_to_u64 (f64_round ?a)) \<le> f64_round ?a"
    unfolding f64_to_u64_def by (simp add: min_def) linarith
  then show ?thesis using r by (simp add: fee_share_def f64_mul_def e)
qed

lemma shares_within:
  assumes a: "amount \<le> 2 ^ 49" and f: "fee_distribution_for_epoch e = (b, v, t, d)"
  shows "fee_share amount b + fee_share amount v + fee_share amount t + fee_share amount d \<le> amount"
proof -
  note s = shares_sum [OF f]
  let ?A = "of_nat amount :: rat"
  let ?S = "fee_share amount b + fee_share amount v + fee_share amount t + fee_share amount d"
  define W y where "W = ?A * (b + v + t + d)" and "y = ?A * f64_ulp"
  have "?A \<le> 2 ^ 49" using a by (metis of_nat_le_iff of_nat_numeral of_nat_power)
  then have y: "0 \<le> y" "y \<le> 1 / 16" by (simp_all add: y_def f64_ulp_def)
  have "W \<le> ?A * (1 + 4 * f64_ulp)" unfolding W_def using s(1) by (intro mult_left_mono) auto
  then have W: "W \<le> ?A + 4 * y" by (simp add: y_def algebra_simps)
  have "W * f64_ulp \<le> (?A + 4 * y) * f64_ulp" using W f64_ulp_bounds by (intro mult_right_mono) auto
  also have "\<dots> = y + 4 * (y * f64_ulp)" by (simp add: y_def algebra_simps)
  also have "\<dots> \<le> 2 * y"
    using mult_left_mono [OF f64_ulp_bounds(2) y(1)] y(1) by linarith
  finally have Wu: "W * f64_ulp \<le> 2 * y" .
  have "of_nat ?S \<le> W + W * f64_ulp"
    using fee_share_bound [OF a s(2)] fee_share_bound [OF a s(3)] fee_share_bound [OF a s(4)]
      fee_share_bound [OF a s(5)] by (simp add: W_def algebra_simps)
  then have "of_nat ?S < of_nat amount + (1 :: rat)" using W Wu y by linarith
  then have "(of_nat ?S :: rat) < of_nat (amount + 1)" by simp
  then show ?thesis unfolding of_nat_less_iff by simp
qed

lemma fee_split_sum:
  fixes e :: u64 and d :: CollectorFeeDetails
  assumes "0 < transaction_fee d" "transaction_fee d + priority_fee d \<le> 2 ^ 49"
  defines "f \<equiv> calculate_reward_and_burn_fee_details e d"
  shows "fd_deposit f + fd_burn f + fd_treasury f + fd_dev f = transaction_fee d + priority_fee d"
proof -
  obtain b v t w where s: "fee_distribution_for_epoch e = (b, v, t, w)" by (metis prod_cases4)
  define n where "n = transaction_fee d + priority_fee d"
  define B V T W where "B = fee_share n b" and "V = fee_share n v" and "T = fee_share n t" and "W = fee_share n w"
  have n: "n \<le> 2 ^ 49" "0 < n" using assms(1,2) by (simp_all add: n_def)
  have w: "B + V + T + W \<le> n" using shares_within [OF n(1) s] by (simp add: B_def V_def T_def W_def)
  have small: "x \<le> n \<Longrightarrow> x \<le> umax 64" for x using n(1) by (simp add: umax_def)
  have "sat_add 64 (transaction_fee d) (priority_fee d) = n" "sat_add 64 B V = B + V"
    "sat_add 64 (B + V) T = B + V + T" "sat_add 64 (B + V + T) W = B + V + T + W"
    "sat_add 64 B (n - (B + V + T + W)) = B + (n - (B + V + T + W))"
    using w by (simp_all add: sat_add_exact small n_def)
  then have "f = \<lparr> fd_deposit = V, fd_burn = B + (n - (B + V + T + W)), fd_treasury = T, fd_dev = W \<rparr>"
    using assms(1) by (simp add: f_def calculate_reward_and_burn_fee_details_def s Let_def B_def V_def T_def W_def)
  then show ?thesis using w n_def by simp
qed

text \<open>From epoch 1825 on every share is the double \<open>1 / 4\<close>.\<close>

lemma progress_mature: "FEE_TRANSITION_EPOCHS \<le> e \<Longrightarrow> share_progress e = 1"
proof -
  assume "FEE_TRANSITION_EPOCHS \<le> e"
  then have e: "1825 \<le> e" by (simp add: FEE_TRANSITION_EPOCHS_def)
  have c: "f64_of_nat 1825 = 1825" by (simp add: f64_of_nat_exact)
  have "1 \<le> f64_round (f64_of_nat e / 1825)"
  proof (cases "e = 1825")
    case True
    have "f64_round 1 = 1" using f64_of_nat_exact [of 1] by (simp add: f64_of_nat_def)
    then show ?thesis by (simp add: True c)
  next
    case False
    then have "(1826 :: rat) \<le> of_nat e" using e by simp
    moreover have "of_nat e * (999999 / 1000000) \<le> f64_of_nat e"
      unfolding f64_of_nat_def using calculation by (intro f64_round_coarse(1)) simp
    ultimately have q: "10004 / 10000 \<le> f64_of_nat e / 1825" by simp
    then have "f64_of_nat e / 1825 * (999999 / 1000000) \<le> f64_round (f64_of_nat e / 1825)"
      by (intro f64_round_coarse(1)) simp
    then show ?thesis using q by linarith
  qed
  then show ?thesis by (simp add: share_progress_def FEE_TRANSITION_EPOCHS_def f64_div_def c)
qed

lemma mature_shares:
  "FEE_TRANSITION_EPOCHS \<le> e \<Longrightarrow> fee_distribution_for_epoch e = (1 / 4, 1 / 4, 1 / 4, 1 / 4)"
  unfolding fee_distribution_for_epoch_def interpolate_def share_slopes
  by (simp add: progress_mature f64_mul_def f64_add_def share_constants LAUNCH_VALIDATOR_PCT_def f64_eval rnd_mag.simps [of "5404319552844595 / 36028797018963968"]
      rnd_mag.simps [of "1 / 4"] rnd_mag.simps [of "3602879701896397 / 18014398509481984"])

lemma quarter_share:
  assumes "amount \<le> 2 ^ 49"
  shows "fee_share amount (1 / 4) = amount div 4"
proof -
  have e: "f64_of_nat amount = of_nat amount" using assms by (intro f64_of_nat_exact) simp
  let ?q = "amount div 4"
  have am: "of_nat amount = 4 * of_nat ?q + (of_nat (amount mod 4) :: rat)"
    by (metis mult.commute div_mult_mod_eq of_nat_add of_nat_mult of_nat_numeral)
  have bound: "of_nat amount \<le> (2 ^ 49 :: rat)" using assms by (metis of_nat_le_iff of_nat_numeral of_nat_power)
  have "\<lfloor>f64_round (of_nat amount / 4)\<rfloor> = int ?q"
  proof (cases "amount mod 4 = 0")
    case True
    then have "of_nat amount / 4 = (of_nat ?q :: rat)" using am by simp
    moreover have "f64_of_nat ?q = of_nat ?q" using assms by (intro f64_of_nat_exact) simp
    ultimately show ?thesis by (simp add: f64_of_nat_def)
  next
    case False
    then have m: "1 \<le> (of_nat (amount mod 4) :: rat)" by simp
    have "amount mod 4 \<le> 3" by simp
    then have m3: "(of_nat (amount mod 4) :: rat) \<le> 3" by (metis of_nat_le_iff of_nat_numeral)
    have "1 \<le> (of_nat amount :: rat)" using am m by linarith
    then have "\<bar>f64_round (of_nat amount / 4) - of_nat amount / 4\<bar> \<le> of_nat amount / 4 * f64_ulp"
      using f64_round_ulp [of "of_nat amount / 4"] by simp
    also have "\<dots> \<le> 2 ^ 49 / 4 * f64_ulp"
      using bound f64_ulp_bounds by (intro mult_right_mono) auto
    also have "\<dots> \<le> 1 / 16" by (simp add: f64_ulp_def)
    finally have "of_nat ?q \<le> f64_round (of_nat amount / 4)" "f64_round (of_nat amount / 4) < of_nat ?q + 1"
      using am m m3 by linarith+
    then show ?thesis by (simp add: floor_eq_iff)
  qed
  moreover have "?q \<le> umax 64" using assms by (simp add: umax_def)
  ultimately show ?thesis by (simp add: fee_share_def f64_mul_def e f64_to_u64_def)
qed

section \<open>Properties\<close>

text \<open>
  C13: For every epoch and every block that collected at most \<open>2 ^ 49\<close> lamports, when it collected
  transaction fees the four parts of the split add up to exactly what was collected, priority fees included:
  double-precision shares neither create nor lose a lamport. When it collected priority fees only, all four
  parts are zero and the priority fees are in none of them.
\<close>

theorem fee_split_conserves:
  assumes "transaction_fee d + priority_fee d \<le> 2 ^ 49"
  shows "fd_deposit (calculate_reward_and_burn_fee_details e d) + fd_burn (calculate_reward_and_burn_fee_details e d)
       + fd_treasury (calculate_reward_and_burn_fee_details e d) + fd_dev (calculate_reward_and_burn_fee_details e d)
       = (if transaction_fee d = 0 then 0 else total_transaction_fee d)"
proof (cases "transaction_fee d = 0")
  case True
  then show ?thesis by (simp add: calculate_reward_and_burn_fee_details_def FeeDistribution_default_def)
next
  case False
  have "transaction_fee d + priority_fee d \<le> umax 64" using assms by (simp add: umax_def)
  then show ?thesis using fee_split_sum [OF _ assms, of e] False by (simp add: total_transaction_fee_def sat_add_exact)
qed

theorem fee_split_conserves_witness:
  "(let d = \<lparr> transaction_fee = 5001, priority_fee = 777 \<rparr>; f = calculate_reward_and_burn_fee_details 912 d in
    fd_deposit f + fd_burn f + fd_treasury f + fd_dev f = 5778) \<and>
   (let d = \<lparr> transaction_fee = 0, priority_fee = 777 \<rparr>; f = calculate_reward_and_burn_fee_details 912 d in
    fd_deposit f + fd_burn f + fd_treasury f + fd_dev f = 0)"
  using fee_split_conserves [of "\<lparr> transaction_fee = 5001, priority_fee = 777 \<rparr>" 912]
    fee_split_conserves [of "\<lparr> transaction_fee = 0, priority_fee = 777 \<rparr>" 912]
  by (simp add: total_transaction_fee_def sat_add_def umax_def)

text \<open>
  From epoch 1825 on the split is an exact quarter to the leader, the treasury and the
  developers, rounded down, and the rest is burned.
\<close>

theorem mature_split_is_quarters:
  assumes "FEE_TRANSITION_EPOCHS \<le> e" "0 < transaction_fee d" "transaction_fee d + priority_fee d \<le> 2 ^ 49"
  shows "let n = transaction_fee d + priority_fee d in
    calculate_reward_and_burn_fee_details e d =
      \<lparr> fd_deposit = n div 4, fd_burn = n - 3 * (n div 4), fd_treasury = n div 4, fd_dev = n div 4 \<rparr>"
proof -
  define n where "n = transaction_fee d + priority_fee d"
  have n: "n \<le> 2 ^ 49" using assms(3) by (simp add: n_def)
  have small: "x \<le> n \<Longrightarrow> x \<le> umax 64" for x using n by (simp add: umax_def)
  define q where "q = n div 4"
  have q: "4 * q \<le> n" by (simp add: q_def)
  have "sat_add 64 (transaction_fee d) (priority_fee d) = n" "sat_add 64 q q = 2 * q"
    "sat_add 64 (2 * q) q = 3 * q" "sat_add 64 (3 * q) q = 4 * q" "sat_add 64 q (n - 4 * q) = q + (n - 4 * q)"
    using q by (simp_all add: sat_add_exact small n_def)
  moreover have "fee_share n (1 / 4) = q" using quarter_share [OF n] by (simp add: q_def)
  ultimately show ?thesis
    using assms(2) q by (simp add: calculate_reward_and_burn_fee_details_def mature_shares [OF assms(1)] Let_def
        flip: n_def q_def)
qed

theorem mature_split_is_quarters_witness:
  "calculate_reward_and_burn_fee_details 2000 \<lparr> transaction_fee = 1000, priority_fee = 3 \<rparr> =
     \<lparr> fd_deposit = 250, fd_burn = 253, fd_treasury = 250, fd_dev = 250 \<rparr>"
  using mature_split_is_quarters [of 2000 "\<lparr> transaction_fee = 1000, priority_fee = 3 \<rparr>"]
  by (simp add: FEE_TRANSITION_EPOCHS_def)

lemma wrapping_sub_exact: "x \<le> c \<Longrightarrow> c < 2 ^ 64 \<Longrightarrow> (c + (2 ^ 64 - x)) mod 2 ^ 64 = (c - x :: nat)"
  by (simp add: mod_if le_diff_conv)

text \<open>What a successful deposit does: the account is system-owned and gains exactly the fee.\<close>

lemma deposit_fees_ok:
  assumes "deposit_fees is_exempt pk fees bank = Inr (bank', post)"
  defines "a \<equiv> (case fb_accounts bank pk of None \<Rightarrow> default_account | Some a \<Rightarrow> a)"
  shows "owner a = system_program_id \<and> post = lamports a + fees \<and> post \<le> umax 64 \<and>
    bank' = bank\<lparr> fb_accounts := (fb_accounts bank)(pk \<mapsto> a\<lparr> lamports := post \<rparr>) \<rparr>"
  using assms by (auto simp: deposit_fees_def Let_def checked_add_def umax_def split: if_splits option.splits)

definition account_lamports :: "FeeDistBank \<Rightarrow> pubkey \<Rightarrow> u64" where
  "account_lamports bank pk = (case fb_accounts bank pk of None \<Rightarrow> 0 | Some a \<Rightarrow> lamports a)"

lemma deposit_or_burn_credit:
  assumes "deposit_or_burn_fee is_exempt deposit bank = (bank', failed)"
  shows "account_lamports bank' (leader_id bank) + failed = account_lamports bank (leader_id bank) + deposit"
    "failed = 0 \<or> bank' = bank" "failed \<le> deposit" "capitalization bank' = capitalization bank"
    "pk \<noteq> leader_id bank \<Longrightarrow> fb_accounts bank' pk = fb_accounts bank pk"
proof -
  have z: "lamports default_account = 0" by (simp add: default_account_def)
  show "account_lamports bank' (leader_id bank) + failed = account_lamports bank (leader_id bank) + deposit"
    "failed = 0 \<or> bank' = bank" "failed \<le> deposit" "capitalization bank' = capitalization bank"
    "pk \<noteq> leader_id bank \<Longrightarrow> fb_accounts bank' pk = fb_accounts bank pk"
    using assms by (auto simp: deposit_or_burn_fee_def account_lamports_def z dest!: deposit_fees_ok
        split: if_splits sum.splits option.splits)
qed

text \<open>What the distribution moves when there are transaction fees.\<close>

lemma fees_distributed:
  assumes "0 < transaction_fee (collector_fee_details bank)"
    and "transaction_fee (collector_fee_details bank) + priority_fee (collector_fee_details bank) \<le> 2 ^ 49"
    and "transaction_fee (collector_fee_details bank) + priority_fee (collector_fee_details bank) \<le> capitalization bank"
    and "capitalization bank \<le> umax 64"
    and "bank' = distribute_transaction_fee_details is_exempt bank"
  shows "capitalization bank' + total_transaction_fee (collector_fee_details bank)
           + account_lamports bank (leader_id bank)
       = capitalization bank + account_lamports bank' (leader_id bank)
     \<and> (\<forall>pk. pk = leader_id bank \<or> fb_accounts bank' pk = fb_accounts bank pk)"
proof -
  let ?d = "collector_fee_details bank"
  define n where "n = transaction_fee ?d + priority_fee ?d"
  note a = assms(1-4) [folded n_def]
  have small: "x \<le> n \<Longrightarrow> x \<le> umax 64" for x using a(2) by (simp add: umax_def)
  have tot: "total_transaction_fee ?d = n" using small by (simp add: total_transaction_fee_def sat_add_exact n_def)
  obtain D B T W where f: "calculate_reward_and_burn_fee_details (fb_epoch bank) ?d =
      \<lparr> fd_deposit = D, fd_burn = B, fd_treasury = T, fd_dev = W \<rparr>"
    by (metis FeeDistribution.surjective old.unit.exhaust)
  have s: "D + B + T + W = n" using fee_split_sum [OF assms(1,2), of "fb_epoch bank"] f by (simp add: n_def)
  obtain b' x where dep: "deposit_or_burn_fee is_exempt D bank = (b', x)" by fastforce
  note c = deposit_or_burn_credit [OF dep]
  have burn: "sat_add 64 (sat_add 64 x B) (sat_add 64 T W) = x + B + (T + W)"
    using s c(3) by (simp add: sat_add_exact small)
  have x: "x + B + (T + W) \<le> capitalization bank" using s c(3) a(3) by linarith
  have "bank' = b'\<lparr> capitalization := (capitalization b' + (2 ^ 64 - (x + B + (T + W)))) mod 2 ^ 64 \<rparr>"
    using a(1) tot n_def burn by (simp add: assms(5) distribute_transaction_fee_details_def f dep)
  moreover have "(capitalization bank + (2 ^ 64 - (x + B + (T + W)))) mod 2 ^ 64 = capitalization bank - (x + B + (T + W))"
    by (rule wrapping_sub_exact) (use x a(4) in \<open>auto simp: umax_def\<close>)
  ultimately have b: "capitalization bank' = capitalization bank - (x + B + (T + W))" "fb_accounts bank' = fb_accounts b'"
    by (simp_all add: c(4))
  then show ?thesis using c(1,5) s x tot by (auto simp: account_lamports_def)
qed

text \<open>A block with priority fees only leaves the bank as it is.\<close>

lemma priority_only_unchanged:
  assumes "transaction_fee (collector_fee_details bank) = 0" "capitalization bank \<le> umax 64"
  shows "distribute_transaction_fee_details is_exempt bank = bank"
proof -
  have "(capitalization bank + 2 ^ 64) mod 2 ^ 64 = capitalization bank"
    using assms(2) by (simp add: umax_def)
  then show ?thesis using assms(1)
    by (simp add: distribute_transaction_fee_details_def calculate_reward_and_burn_fee_details_def
        FeeDistribution_default_def deposit_or_burn_fee_def sat_add_def Let_def)
qed

text \<open>
  C14: When a block collected transaction fees, at most \<open>2 ^ 49\<close> lamports with the priority fees and at most
  the capitalization, distributing them moves no lamport out of thin air: what the capitalization loses plus
  what the leader's account gains is exactly the fees collected, and no other account is touched,
  whether the deposit succeeds or is refused and burned. When it collected priority fees only, nothing is
  credited and nothing is burned: the bank does not change, and the fees taken from the payers are gone
  although the capitalization still counts them.
\<close>

theorem fees_credited_or_burned:
  assumes "transaction_fee (collector_fee_details bank) + priority_fee (collector_fee_details bank) \<le> 2 ^ 49"
    and "transaction_fee (collector_fee_details bank) + priority_fee (collector_fee_details bank) \<le> capitalization bank"
    and "capitalization bank \<le> umax 64"
    and "bank' = distribute_transaction_fee_details is_exempt bank"
  shows "(if transaction_fee (collector_fee_details bank) = 0 then bank' = bank
     else capitalization bank' + total_transaction_fee (collector_fee_details bank)
           + account_lamports bank (leader_id bank)
         = capitalization bank + account_lamports bank' (leader_id bank))
     \<and> (\<forall>pk. pk = leader_id bank \<or> fb_accounts bank' pk = fb_accounts bank pk)"
proof (cases "transaction_fee (collector_fee_details bank) = 0")
  case True
  then show ?thesis using priority_only_unchanged [OF True assms(3)] assms(4) by simp
next
  case False
  then have "0 < transaction_fee (collector_fee_details bank)" by simp
  from fees_distributed [OF this assms] False show ?thesis by simp
qed

definition example_bank :: FeeDistBank where
  "example_bank = \<lparr> fb_epoch = 700, leader_id = replicate 32 7,
     fb_accounts = [replicate 32 7 \<mapsto> default_account\<lparr> lamports := 1000000 \<rparr>],
     collector_fee_details = \<lparr> transaction_fee = 10000, priority_fee = 3 \<rparr>, rewards = [],
     capitalization = 5000000 \<rparr>"

theorem fees_credited_or_burned_witness:
  "let bank' = distribute_transaction_fee_details (\<lambda>l n. 890880 + 6960 * n \<le> l) example_bank in
   capitalization bank' + 1010003 = 5000000 + account_lamports bank' (replicate 32 7)"
  using fees_credited_or_burned [of example_bank, OF _ _ _ refl, of "\<lambda>l n. 890880 + 6960 * n \<le> l"]
  by (simp add: example_bank_def account_lamports_def total_transaction_fee_def sat_add_def umax_def)

end
