(* ===== verification/Slashing.thy ===== *)
theory Slashing
  imports Float64
begin

text \<open>
  \<^verbatim>\<open>runtime/src/slashing.rs\<close>: penalties, jail terms and bans of validators. The state is the
  configuration and a hash map from node identities to jail statuses; every method that changes it is
  a state transformer, and \<open>slash_step\<close> runs any sequence of them.

  Shown: with the default configuration the third slash bans and nothing later lifts a ban or charges
  the validator again; a slash takes at most the validator's own stake; a term is served in full
  unless a new term replaces it.
\<close>

section \<open>Configuration and state\<close>

record SlashingConfig =
  double_sign_penalty :: f64
  invalid_block_penalty :: f64
  repeat_offense_penalty :: f64
  max_offenses :: nat
  jail_duration_first :: u64
  jail_duration_second :: u64
  offline_jail_threshold :: u64

definition SlashingConfig_default :: SlashingConfig where
  "SlashingConfig_default =
     \<lparr> double_sign_penalty = f64_round (5 / 100), invalid_block_penalty = f64_round (10 / 100),
       repeat_offense_penalty = 1 / 4, max_offenses = 3, jail_duration_first = 1512000,
       jail_duration_second = 6480000, offline_jail_threshold = 216000 \<rparr>"

datatype SlashOffense = DoubleSigning | InvalidBlock

datatype JailDuration = First | Second | Permanent | Offline

record ValidatorJailStatus =
  is_jailed :: bool
  jail_until_epoch :: u64
  offense_count :: nat
  permanently_banned :: bool
  last_seen_slot :: u64

definition ValidatorJailStatus_default :: ValidatorJailStatus where
  "ValidatorJailStatus_default =
     \<lparr> is_jailed = False, jail_until_epoch = 0, offense_count = 0, permanently_banned = False,
       last_seen_slot = 0 \<rparr>"

record SlashResult =
  lamports_slashed :: u64
  new_status :: ValidatorJailStatus

record SlashingState =
  sl_config :: SlashingConfig
  jail_statuses :: "(pubkey, ValidatorJailStatus) hashmap"

definition SlashingState_new :: SlashingState where
  "SlashingState_new = \<lparr> sl_config = SlashingConfig_default, jail_statuses = [] \<rparr>"

text \<open>\<^verbatim>\<open>entry(k).or_default()\<close>.\<close>

definition status_of :: "SlashingState \<Rightarrow> pubkey \<Rightarrow> ValidatorJailStatus" where
  "status_of s v = (case hm_get (jail_statuses s) v of None \<Rightarrow> ValidatorJailStatus_default | Some st \<Rightarrow> st)"

definition set_status :: "pubkey \<Rightarrow> ValidatorJailStatus \<Rightarrow> SlashingState \<Rightarrow> SlashingState" where
  "set_status v st s = s\<lparr> jail_statuses := hm_insert v st (jail_statuses s) \<rparr>"

section \<open>Operations\<close>

definition apply_jail :: "pubkey \<Rightarrow> JailDuration \<Rightarrow> u64 \<Rightarrow> SlashingState \<Rightarrow> SlashingState" where
  "apply_jail v duration current_epoch s =
     (let status = (status_of s v)\<lparr> is_jailed := True \<rparr>;
          term_until = (\<lambda>slots. sat_add 64 current_epoch (wadd 64 slots 431999 div 432000)) in
      set_status v
        (case duration of
           Permanent \<Rightarrow> status\<lparr> permanently_banned := True \<rparr>
         | First \<Rightarrow> status\<lparr> jail_until_epoch := term_until (jail_duration_first (sl_config s)) \<rparr>
         | Offline \<Rightarrow> status\<lparr> jail_until_epoch := term_until (jail_duration_first (sl_config s)) \<rparr>
         | Second \<Rightarrow> status\<lparr> jail_until_epoch := term_until (jail_duration_second (sl_config s)) \<rparr>) s)"

definition slash_validator ::
    "pubkey \<Rightarrow> SlashOffense \<Rightarrow> u64 \<Rightarrow> u64 \<Rightarrow> SlashingState \<Rightarrow> SlashingState \<times> SlashResult option" where
  "slash_validator v offense own_stake current_epoch s =
     (let status = status_of s v in
      if permanently_banned status then (set_status v status s, None)
      else
        let status = status\<lparr> offense_count := sat_add 8 (offense_count status) 1 \<rparr>;
            c = sl_config s;
            penalty = (if max_offenses c \<le> offense_count status then repeat_offense_penalty c
                       else case offense of DoubleSigning \<Rightarrow> double_sign_penalty c
                                          | InvalidBlock \<Rightarrow> invalid_block_penalty c);
            slashed = f64_to_u64 (f64_nearest (f64_mul (f64_of_nat own_stake) penalty));
            duration = (if max_offenses c \<le> offense_count status then Permanent
                        else if 2 \<le> offense_count status then Second else First);
            s' = apply_jail v duration current_epoch (set_status v status s)
        in (s', Some \<lparr> lamports_slashed = slashed, new_status = status_of s' v \<rparr>))"

definition jail_validator :: "pubkey \<Rightarrow> JailDuration \<Rightarrow> u64 \<Rightarrow> SlashingState \<Rightarrow> SlashingState" where
  "jail_validator v duration current_epoch s = apply_jail v duration current_epoch s"

definition unjail_validator :: "pubkey \<Rightarrow> u64 \<Rightarrow> SlashingState \<Rightarrow> SlashingState \<times> bool" where
  "unjail_validator v current_epoch s =
     (case hm_get (jail_statuses s) v of
        None \<Rightarrow> (s, False)
      | Some status \<Rightarrow>
          if permanently_banned status then (s, False)
          else if current_epoch < jail_until_epoch status then (s, False)
          else (set_status v (status\<lparr> is_jailed := False \<rparr>) s, True))"

text \<open>One turn of the loop of \<open>check_offline_validators\<close>, and the loop.\<close>

definition check_offline_one ::
    "u64 \<Rightarrow> u64 \<Rightarrow> SlashingState \<times> pubkey list \<Rightarrow> pubkey \<times> u64 \<Rightarrow> SlashingState \<times> pubkey list" where
  "check_offline_one current_slot current_epoch acc entry =
     (let (s, newly_jailed) = acc; (node, last_slot) = entry;
          status = (status_of s node)\<lparr> last_seen_slot := last_slot \<rparr>;
          s' = set_status node status s in
      if is_jailed status \<or> permanently_banned status then (s', newly_jailed)
      else if current_slot - last_slot > offline_jail_threshold (sl_config s)
        then (apply_jail node Offline current_epoch s', newly_jailed @ [node])
      else (s', newly_jailed))"

definition check_offline_validators ::
    "(pubkey, u64) hashmap \<Rightarrow> u64 \<Rightarrow> u64 \<Rightarrow> SlashingState \<Rightarrow> SlashingState \<times> pubkey list" where
  "check_offline_validators last_vote_slots current_slot current_epoch s =
     foldl (check_offline_one current_slot current_epoch) (s, []) last_vote_slots"

definition is_jailed_or_banned :: "SlashingState \<Rightarrow> pubkey \<Rightarrow> bool" where
  "is_jailed_or_banned s v =
     (case hm_get (jail_statuses s) v of None \<Rightarrow> False | Some st \<Rightarrow> is_jailed st \<or> permanently_banned st)"

definition jailed_set :: "SlashingState \<Rightarrow> pubkey set" where
  "jailed_set s =
     set (map fst (filter (\<lambda>(_, st). is_jailed st \<or> permanently_banned st) (jail_statuses s)))"

section \<open>Runs\<close>

datatype SlashEvent =
    SlashEv pubkey SlashOffense u64 u64
  | JailEv pubkey JailDuration u64
  | UnjailEv pubkey u64
  | CheckOfflineEv "(pubkey, u64) hashmap" u64 u64

fun slash_step :: "SlashingState \<Rightarrow> SlashEvent \<Rightarrow> SlashingState" where
  "slash_step s (SlashEv v offense stake epoch) = fst (slash_validator v offense stake epoch s)"
| "slash_step s (JailEv v duration epoch) = jail_validator v duration epoch s"
| "slash_step s (UnjailEv v epoch) = fst (unjail_validator v epoch s)"
| "slash_step s (CheckOfflineEv m slot epoch) = fst (check_offline_validators m slot epoch s)"

section \<open>Statuses\<close>

lemma status_set_status [simp]: "status_of (set_status v st s) u = (if u = v then st else status_of s u)"
  by (simp add: status_of_def set_status_def)

lemma config_set_status [simp]: "sl_config (set_status v st s) = sl_config s"
  by (simp add: set_status_def)

lemma is_jailed_or_banned_status:
  "is_jailed_or_banned s v \<longleftrightarrow> is_jailed (status_of s v) \<or> permanently_banned (status_of s v)"
  by (simp add: is_jailed_or_banned_def status_of_def ValidatorJailStatus_default_def split: option.splits)

lemma apply_jail_status:
  "u \<noteq> v \<Longrightarrow> status_of (apply_jail v d e s) u = status_of s u"
  "offense_count (status_of (apply_jail v d e s) u) = offense_count (status_of s u)"
  "permanently_banned (status_of (apply_jail v d e s) u) \<longleftrightarrow>
     permanently_banned (status_of s u) \<or> u = v \<and> d = Permanent"
  "is_jailed (status_of (apply_jail v d e s) v)"
  "sl_config (apply_jail v d e s) = sl_config s"
  by (cases d; simp add: apply_jail_def Let_def)+

lemma slash_status:
  "u \<noteq> v \<Longrightarrow> status_of (fst (slash_validator v off st e s)) u = status_of s u"
  "permanently_banned (status_of s v) \<Longrightarrow> slash_validator v off st e s = (set_status v (status_of s v) s, None)"
  "\<not> permanently_banned (status_of s v) \<Longrightarrow>
     offense_count (status_of (fst (slash_validator v off st e s)) v) = sat_add 8 (offense_count (status_of s v)) 1"
  "\<not> permanently_banned (status_of s v) \<Longrightarrow>
     permanently_banned (status_of (fst (slash_validator v off st e s)) v) \<longleftrightarrow>
       max_offenses (sl_config s) \<le> sat_add 8 (offense_count (status_of s v)) 1"
  "sl_config (fst (slash_validator v off st e s)) = sl_config s"
  by (auto simp: slash_validator_def Let_def apply_jail_status)

lemma slash_banned:
  "permanently_banned (status_of s u) \<Longrightarrow> status_of (fst (slash_validator v off st e s)) u = status_of s u"
  by (cases "u = v") (simp_all add: slash_status(1,2))

lemma unjail_status:
  "offense_count (status_of (fst (unjail_validator v e s)) u) = offense_count (status_of s u)"
  "permanently_banned (status_of (fst (unjail_validator v e s)) u) = permanently_banned (status_of s u)"
  "sl_config (fst (unjail_validator v e s)) = sl_config s"
  by (auto simp: unjail_validator_def status_of_def set_status_def split: option.splits)

lemma check_offline_status:
  "offense_count (status_of (fst (check_offline_validators m slot e s)) u) = offense_count (status_of s u)
   \<and> permanently_banned (status_of (fst (check_offline_validators m slot e s)) u) = permanently_banned (status_of s u)
   \<and> sl_config (fst (check_offline_validators m slot e s)) = sl_config s"
proof (induction m rule: rev_induct)
  case Nil
  then show ?case by (simp add: check_offline_validators_def)
next
  case (snoc x m)
  then show ?case
    by (auto simp: check_offline_validators_def check_offline_one_def Let_def apply_jail_status split: prod.splits)
qed

lemma step_config: "sl_config (slash_step s e) = sl_config s"
  by (cases e) (simp_all add: slash_status unjail_status check_offline_status jail_validator_def apply_jail_status)

lemma run_config: "sl_config (foldl slash_step s es) = sl_config s"
  by (induction es arbitrary: s) (simp_all add: step_config)

lemma banned_in_jailed_set: "is_jailed (status_of s v) \<or> permanently_banned (status_of s v) \<Longrightarrow> v \<in> jailed_set s"
  by (force simp: jailed_set_def status_of_def ValidatorJailStatus_default_def image_iff
      dest: map_of_SomeD split: option.splits)

section \<open>Bans\<close>

lemma step_ban: "permanently_banned (status_of s v) \<Longrightarrow> permanently_banned (status_of (slash_step s e) v)"
  by (cases e) (auto simp: slash_banned unjail_status check_offline_status jail_validator_def apply_jail_status)

lemma step_ban_count:
  "permanently_banned (status_of s v) \<Longrightarrow> offense_count (status_of (slash_step s e) v) = offense_count (status_of s v)"
  by (cases e) (auto simp: slash_banned unjail_status check_offline_status jail_validator_def apply_jail_status)

interpretation banned: invariant_system slash_step
  "\<lambda>s. permanently_banned (status_of s v) \<and> offense_count (status_of s v) = n" for v n
  by unfold_locales (simp add: step_ban step_ban_count)

text \<open>
  C17: A ban is final: whatever operations follow, the validator stays in the jailed set with the same
  offence count, cannot be unjailed and is not slashed again.
\<close>

theorem ban_is_permanent:
  assumes "permanently_banned (status_of s v)" "s' = foldl slash_step s es"
  shows "v \<in> jailed_set s' \<and> is_jailed_or_banned s' v
    \<and> offense_count (status_of s' v) = offense_count (status_of s v)
    \<and> snd (unjail_validator v e s') = False \<and> snd (slash_validator v off stake e s') = None"
proof -
  have b: "permanently_banned (status_of s' v) \<and> offense_count (status_of s' v) = offense_count (status_of s v)"
    unfolding assms(2) by (rule banned.run_inv) (simp add: assms(1))
  moreover have "snd (unjail_validator v e s') = False"
    using b by (auto simp: unjail_validator_def status_of_def ValidatorJailStatus_default_def split: option.splits)
  ultimately show ?thesis by (simp add: banned_in_jailed_set is_jailed_or_banned_status slash_status(2))
qed

theorem ban_is_permanent_witness:
  "let s = foldl slash_step SlashingState_new [JailEv [1] Permanent 5];
       s' = foldl slash_step s [UnjailEv [1] 100, SlashEv [1] DoubleSigning 1000 7, CheckOfflineEv [([1], 3)] 9 9]
   in [1] \<in> jailed_set s' \<and> snd (unjail_validator [1] 200 s') = False
      \<and> snd (slash_validator [1] InvalidBlock 50 200 s') = None"
proof -
  have "permanently_banned (status_of (foldl slash_step SlashingState_new [JailEv [1] Permanent 5]) [1])"
    by (simp add: jail_validator_def apply_jail_status)
  from ban_is_permanent [OF this refl] show ?thesis unfolding Let_def by blast
qed

text \<open>The slashes of one validator in a run, and the explicit bans.\<close>

fun is_slash_of :: "pubkey \<Rightarrow> SlashEvent \<Rightarrow> bool" where
  "is_slash_of v (SlashEv u _ _ _) = (u = v)"
| "is_slash_of v _ = False"

fun is_ban_of :: "pubkey \<Rightarrow> SlashEvent \<Rightarrow> bool" where
  "is_ban_of v (JailEv u d _) = (u = v \<and> d = Permanent)"
| "is_ban_of v _ = False"

text \<open>
  C16: Three strikes: starting from the initial state, after any run in which a validator is not
  banned by an explicit \<^verbatim>\<open>jail_validator\<close> call, its offence count is the number of times it was
  slashed, capped at three, and it is banned exactly when that number has reached three.
\<close>

theorem three_strikes:
  assumes "\<not> list_ex (is_ban_of v) es" "s' = foldl slash_step SlashingState_new es"
  shows "offense_count (status_of s' v) = min 3 (length (filter (is_slash_of v) es))
    \<and> (permanently_banned (status_of s' v) \<longleftrightarrow> 3 \<le> length (filter (is_slash_of v) es))"
  using assms
proof (induction es arbitrary: s' rule: rev_induct)
  case Nil
  then show ?case by (simp add: SlashingState_new_def status_of_def ValidatorJailStatus_default_def)
next
  case (snoc e es)
  define s where "s = foldl slash_step SlashingState_new es"
  have c: "max_offenses (sl_config s) = 3"
    by (simp add: s_def run_config SlashingState_new_def SlashingConfig_default_def)
  have ih: "offense_count (status_of s v) = min 3 (length (filter (is_slash_of v) es))"
    "permanently_banned (status_of s v) \<longleftrightarrow> 3 \<le> length (filter (is_slash_of v) es)"
    using snoc by (auto simp: s_def)
  have e: "s' = slash_step s e" "\<not> is_ban_of v e" using snoc.prems by (simp_all add: s_def)
  show ?case
  proof (cases "is_slash_of v e")
    case True
    then obtain off st ep where "e = SlashEv v off st ep" by (cases e) auto
    then show ?thesis using ih c
      by (cases "permanently_banned (status_of s v)")
        (auto simp: e(1) slash_status(2-4) sat_add_def umax_def min_def)
  next
    case False
    then show ?thesis using ih e(2)
      by (cases e) (auto simp: e(1) slash_status(1) unjail_status check_offline_status jail_validator_def apply_jail_status)
  qed
qed

theorem three_strikes_witness:
  "let es = [SlashEv [1] DoubleSigning 1000 1, JailEv [1] Offline 2, UnjailEv [1] 9,
             SlashEv [1] InvalidBlock 950 10, SlashEv [2] InvalidBlock 5 10, SlashEv [1] DoubleSigning 855 40];
       s' = foldl slash_step SlashingState_new es
   in offense_count (status_of s' [1]) = 3 \<and> permanently_banned (status_of s' [1])"
proof -
  let ?es = "[SlashEv [1] DoubleSigning 1000 1, JailEv [1] Offline 2, UnjailEv [1] 9,
             SlashEv [1] InvalidBlock 950 10, SlashEv [2] InvalidBlock 5 10, SlashEv [1] DoubleSigning 855 40]"
  have "\<not> list_ex (is_ban_of [1]) ?es" "length (filter (is_slash_of [1]) ?es) = 3" by simp_all
  with three_strikes [of "[1]" ?es, OF _ refl] show ?thesis unfolding Let_def by (simp del: foldl.simps)
qed

section \<open>Penalties\<close>

lemma default_penalties:
  "double_sign_penalty SlashingConfig_default \<le> 1 / 4" "1 / 100 \<le> double_sign_penalty SlashingConfig_default"
  "invalid_block_penalty SlashingConfig_default \<le> 1 / 4" "1 / 100 \<le> invalid_block_penalty SlashingConfig_default"
  "repeat_offense_penalty SlashingConfig_default \<le> 1 / 4" "1 / 100 \<le> repeat_offense_penalty SlashingConfig_default"
  by (simp_all add: SlashingConfig_default_def f64_eval rnd_mag.simps [of "1 / 20"] rnd_mag.simps [of "1 / 10"])

lemma penalty_le_stake:
  assumes p: "1 / 100 \<le> p" "p \<le> 1 / 4"
  shows "f64_to_u64 (f64_nearest (f64_mul (f64_of_nat n) p)) \<le> n"
proof (cases "n = 0")
  case False
  then have n: "(1 :: rat) \<le> of_nat n" by simp
  let ?x = "f64_of_nat n"
  have x: "?x \<le> of_nat n * (1000001 / 1000000)" "of_nat n * (999999 / 1000000) \<le> ?x"
    unfolding f64_of_nat_def using n by (intro f64_round_coarse; simp)+
  have xp: "9 / 10 * (1 / 100) \<le> ?x * p" using x n p by (intro mult_mono) auto
  have "?x * p \<le> of_nat n * (1000001 / 1000000) * (1 / 4)" using x(1) assms n by (intro mult_mono) auto
  moreover have "f64_round (?x * p) \<le> ?x * p * (1000001 / 1000000)" using xp by (intro f64_round_coarse) simp
  ultimately have "f64_mul ?x p \<le> of_nat n / 3" unfolding f64_mul_def using n by linarith
  moreover have "0 \<le> f64_mul ?x p" unfolding f64_mul_def using assms by (intro f64_round_nonneg) simp
  moreover have "of_int \<lfloor>f64_mul ?x p + 1 / 2\<rfloor> \<le> f64_mul ?x p + 1 / 2" by (rule of_int_floor_le)
  ultimately have "0 \<le> f64_mul ?x p" "of_int \<lfloor>f64_mul ?x p + 1 / 2\<rfloor> < of_nat n + (1 :: rat)"
    using n by linarith+
  then have "f64_nearest (f64_mul ?x p) < of_nat n + 1" by (simp add: f64_nearest_def)
  then show ?thesis by (rule f64_to_u64_le)
qed (auto simp: f64_mul_def f64_nearest_def f64_to_u64_def)

lemmas default_penalty_le_stake = penalty_le_stake [OF default_penalties(2,1)]
  penalty_le_stake [OF default_penalties(4,3)] penalty_le_stake [OF default_penalties(6,5)]

text \<open>
  With the default configuration no slash takes more than the validator's own stake, for any
  stake a \<^verbatim>\<open>u64\<close> holds, any offence and any history.
\<close>

theorem slash_at_most_own_stake:
  assumes "sl_config s = SlashingConfig_default" "snd (slash_validator v off stake e s) = Some r"
  shows "lamports_slashed r \<le> stake \<and> is_jailed (new_status r)"
  using assms by (auto simp: slash_validator_def Let_def apply_jail_status default_penalty_le_stake
      split: if_splits SlashOffense.splits)

theorem slash_at_most_own_stake_witness:
  "\<exists>r. snd (slash_validator [1] InvalidBlock 123456789 4 SlashingState_new) = Some r \<and> lamports_slashed r \<le> 123456789"
proof -
  obtain r where r: "snd (slash_validator [1] InvalidBlock 123456789 4 SlashingState_new) = Some r"
    by (simp add: slash_validator_def Let_def SlashingState_new_def status_of_def ValidatorJailStatus_default_def)
  have "sl_config SlashingState_new = SlashingConfig_default" by (simp add: SlashingState_new_def)
  from slash_at_most_own_stake [OF this r] r show ?thesis by blast
qed

section \<open>Terms\<close>

text \<open>The term in epochs a slash starts, and the operations that leave a running term alone.\<close>

definition term_end :: "SlashingState \<Rightarrow> pubkey \<Rightarrow> u64" where
  "term_end s v = jail_until_epoch (status_of s v)"

fun keeps_term :: "pubkey \<Rightarrow> u64 \<Rightarrow> SlashEvent \<Rightarrow> bool" where
  "keeps_term v t (SlashEv u _ _ _) = (u \<noteq> v)"
| "keeps_term v t (JailEv u _ _) = (u \<noteq> v)"
| "keeps_term v t (UnjailEv u e) = (u = v \<longrightarrow> e < t)"
| "keeps_term v t (CheckOfflineEv _ _ _) = True"

definition serving :: "pubkey \<Rightarrow> u64 \<Rightarrow> SlashingState \<Rightarrow> bool" where
  "serving v t s \<longleftrightarrow> is_jailed (status_of s v) \<and> \<not> permanently_banned (status_of s v) \<and> term_end s v = t"

lemma check_offline_serving: "serving v t s \<Longrightarrow> serving v t (fst (check_offline_validators m slot e s))"
proof (induction m rule: rev_induct)
  case Nil
  then show ?case by (simp add: check_offline_validators_def)
next
  case (snoc x m)
  then show ?case
    by (cases "fst x = v") (auto simp: check_offline_validators_def check_offline_one_def serving_def term_end_def Let_def
        apply_jail_status split: prod.splits)
qed

lemma step_serving: "serving v t s \<Longrightarrow> keeps_term v t e \<Longrightarrow> serving v t (slash_step s e)"
proof (cases e)
  case (UnjailEv u e')
  moreover assume "serving v t s" "keeps_term v t e"
  ultimately show ?thesis
    by (auto simp: serving_def term_end_def unjail_validator_def status_of_def set_status_def split: option.splits)
qed (auto simp: serving_def term_end_def slash_status(1) jail_validator_def apply_jail_status(1)
    check_offline_serving [unfolded serving_def term_end_def])

interpretation jail_term: guarded_system slash_step "\<lambda>s e. keeps_term v t e" "serving v t" for v t
  by unfold_locales (rule step_serving)

lemma slash_starts_term:
  assumes "sl_config s = SlashingConfig_default" "\<not> permanently_banned (status_of s v)"
    "offense_count (status_of s v) < 2" "e + 15 \<le> umax 64"
  shows "serving v (e + (if offense_count (status_of s v) = 0 then 4 else 15)) (fst (slash_validator v off stake e s))"
proof -
  have c: "jail_duration_first SlashingConfig_default = 1512000" "jail_duration_second SlashingConfig_default = 6480000"
    "max_offenses SlashingConfig_default = 3" by (simp_all add: SlashingConfig_default_def)
  have m: "wadd 64 1512000 431999 div 432000 = 4" "wadd 64 6480000 431999 div 432000 = 15"
    by (simp_all add: wadd_def)
  have a: "sat_add 64 e 4 = e + 4" "sat_add 64 e 15 = e + 15" using assms(4) by (simp_all add: sat_add_exact)
  have "offense_count (status_of s v) = 0 \<or> offense_count (status_of s v) = 1" using assms(3) by linarith
  moreover have "sat_add 8 0 1 = 1" "sat_add 8 1 1 = 2" by (simp_all add: sat_add_def umax_def)
  ultimately show ?thesis using assms
    by (auto simp: serving_def term_end_def slash_validator_def Let_def apply_jail_def c m a)
qed

lemma serving_unjail: "serving v t s \<Longrightarrow> snd (unjail_validator v e s) \<longleftrightarrow> t \<le> e"
  by (auto simp: serving_def term_end_def unjail_validator_def status_of_def ValidatorJailStatus_default_def
      split: option.splits)

text \<open>
  A slash with the default configuration starts a term of 4 epochs for the first offence and 15
  for the second. As long as only offline checks, operations on other validators and premature unjail
  requests follow, the validator stays in the jailed set, and it can be unjailed exactly from the end
  of the term on.
\<close>

theorem sentence_is_served:
  assumes "sl_config s = SlashingConfig_default" "\<not> permanently_banned (status_of s v)"
    and "offense_count (status_of s v) < 2" "e + 15 \<le> umax 64"
    and "t = e + (if offense_count (status_of s v) = 0 then 4 else 15)"
    and "list_all (keeps_term v t) es"
    and "s' = foldl slash_step (fst (slash_validator v off stake e s)) es"
  shows "v \<in> jailed_set s' \<and> (snd (unjail_validator v e' s') \<longleftrightarrow> t \<le> e')"
proof -
  have g: "guarded_run slash_step (\<lambda>s e. keeps_term v t e) s0 es" for s0
    using assms(6) by (induction es arbitrary: s0) auto
  have "serving v t s'" unfolding assms(7)
    by (rule jail_term.guarded_inv [OF _ g]) (unfold assms(5), rule slash_starts_term [OF assms(1-4)])
  then show ?thesis by (simp add: serving_unjail banned_in_jailed_set serving_def [of v t])
qed

theorem sentence_is_served_witness:
  "let s' = foldl slash_step (fst (slash_validator [1] DoubleSigning 1000 10 SlashingState_new))
              [UnjailEv [1] 13, SlashEv [2] InvalidBlock 7 11, CheckOfflineEv [([1], 3)] 999999 12]
   in [1] \<in> jailed_set s' \<and> \<not> snd (unjail_validator [1] 13 s') \<and> snd (unjail_validator [1] 14 s')"
proof -
  let ?es = "[UnjailEv [1] 13, SlashEv [2] InvalidBlock 7 11, CheckOfflineEv [([1], 3)] 999999 12]"
  have "sl_config SlashingState_new = SlashingConfig_default" "status_of SlashingState_new [1] = ValidatorJailStatus_default"
    by (simp_all add: SlashingState_new_def status_of_def)
  then have "sl_config SlashingState_new = SlashingConfig_default"
    "\<not> permanently_banned (status_of SlashingState_new [1])" "offense_count (status_of SlashingState_new [1]) < 2"
    "14 = 10 + (if offense_count (status_of SlashingState_new [1]) = 0 then 4 else 15 :: nat)"
    by (simp_all only: ValidatorJailStatus_default_def ValidatorJailStatus.select_convs) simp_all
  from sentence_is_served [OF this(1-3) _ this(4) _ refl, of ?es DoubleSigning 1000]
  show ?thesis unfolding Let_def by (simp add: umax_def del: foldl.simps)
qed

end
