(* ===== verification/Active_Set.thy ===== *)
theory Active_Set
  imports Slashing
begin

text \<open>
  \<^verbatim>\<open>runtime/src/trv1_active_set.rs\<close>: which validators may produce blocks. The vote accounts are an
  opaque type; the parameter \<open>node_pubkey\<close> is the accessor of \<^verbatim>\<open>VoteAccount\<close> the code calls.

  Shown: the active set is the 200 largest of the unjailed nodes, independently of the order in which
  the vote accounts are iterated, and a jailed or banned validator is never in it.
\<close>

section \<open>Definitions\<close>

definition MAX_ACTIVE_VALIDATORS :: nat where
  "MAX_ACTIVE_VALIDATORS = 200"

record ActiveValidatorSet =
  active_validators :: "pubkey set"
  standby_validators :: "pubkey set"
  active_ranked :: "(pubkey \<times> u64) list"
  standby_ranked :: "(pubkey \<times> u64) list"

definition aggregate_stakes :: "('va \<Rightarrow> pubkey) \<Rightarrow> (pubkey, u64 \<times> 'va) hashmap \<Rightarrow> (pubkey, u64) hashmap" where
  "aggregate_stakes node_pubkey vam =
     foldl (\<lambda>m (_, stake, va). if stake = 0 then m else hm_bump 64 (node_pubkey va) stake m) [] vam"

text \<open>Stake descending, then public key ascending.\<close>

definition rank_key :: "pubkey \<times> u64 \<Rightarrow> int \<times> pubkey" where
  "rank_key x = (- int (snd x), fst x)"

definition place_ranked :: "pubkey set \<Rightarrow> ActiveValidatorSet \<Rightarrow> pubkey \<times> u64 \<Rightarrow> ActiveValidatorSet" where
  "place_ranked jailed a x =
     (let standby = a\<lparr> standby_ranked := standby_ranked a @ [x],
                       standby_validators := insert (fst x) (standby_validators a) \<rparr> in
      if fst x \<in> jailed then standby
      else if length (active_ranked a) < MAX_ACTIVE_VALIDATORS
        then a\<lparr> active_ranked := active_ranked a @ [x],
                active_validators := insert (fst x) (active_validators a) \<rparr>
      else standby)"

definition compute :: "('va \<Rightarrow> pubkey) \<Rightarrow> (pubkey, u64 \<times> 'va) hashmap \<Rightarrow> pubkey set \<Rightarrow> ActiveValidatorSet" where
  "compute node_pubkey vam jailed =
     foldl (place_ranked jailed)
       \<lparr> active_validators = {}, standby_validators = {}, active_ranked = [], standby_ranked = [] \<rparr>
       (sort_key rank_key (aggregate_stakes node_pubkey vam))"

definition is_active :: "ActiveValidatorSet \<Rightarrow> pubkey \<Rightarrow> bool" where
  "is_active a pk \<longleftrightarrow> pk \<in> active_validators a"

definition lowest_active :: "ActiveValidatorSet \<Rightarrow> (pubkey \<times> u64) option" where
  "lowest_active a = (if active_ranked a = [] then None else Some (last (active_ranked a)))"

definition highest_standby :: "ActiveValidatorSet \<Rightarrow> (pubkey \<times> u64) option" where
  "highest_standby a = (case standby_ranked a of [] \<Rightarrow> None | x # _ \<Rightarrow> Some x)"

definition filter_active_vote_accounts ::
    "('va \<Rightarrow> pubkey) \<Rightarrow> ActiveValidatorSet \<Rightarrow> (pubkey, u64 \<times> 'va) hashmap \<Rightarrow> (pubkey, u64 \<times> 'va) hashmap" where
  "filter_active_vote_accounts node_pubkey a vam =
     filter (\<lambda>(_, _, va). node_pubkey va \<in> active_validators a) vam"

section \<open>Stake of a node\<close>

definition node_accounts :: "('va \<Rightarrow> pubkey) \<Rightarrow> (pubkey, u64 \<times> 'va) hashmap \<Rightarrow> (pubkey \<times> u64) list" where
  "node_accounts node_pubkey vam =
     map (\<lambda>(_, stake, va). (node_pubkey va, stake)) (filter (\<lambda>(_, stake, _). stake \<noteq> 0) vam)"

text \<open>The reference: the nodes with stake, and the sum of the stakes of a node.\<close>

definition staked_nodes :: "('va \<Rightarrow> pubkey) \<Rightarrow> (pubkey, u64 \<times> 'va) hashmap \<Rightarrow> pubkey set" where
  "staked_nodes node_pubkey vam = fst ` set (node_accounts node_pubkey vam)"

definition node_stake :: "('va \<Rightarrow> pubkey) \<Rightarrow> (pubkey, u64 \<times> 'va) hashmap \<Rightarrow> pubkey \<Rightarrow> nat" where
  "node_stake node_pubkey vam n =
     sum_list (map snd (filter (\<lambda>(k, _). k = n) (node_accounts node_pubkey vam))) mod 2 ^ 64"

lemma aggregate_stakes_alt:
  "aggregate_stakes np vam = foldl (\<lambda>m (k, x). hm_bump 64 k x m) [] (node_accounts np vam)"
  by (induction vam rule: rev_induct) (auto simp: aggregate_stakes_def node_accounts_def)

lemma aggregate_stakes_get:
  "hm_get (aggregate_stakes np vam) n = (if n \<in> staked_nodes np vam then Some (node_stake np vam n) else None)"
  unfolding aggregate_stakes_alt hm_bump_fold_get staked_nodes_def node_stake_def by simp

lemma aggregate_stakes_wf: "hm_wf (aggregate_stakes np vam)"
  unfolding aggregate_stakes_alt by (rule hm_bump_fold_wf)

lemma aggregate_stakes_set:
  "set (aggregate_stakes np vam) = (\<lambda>n. (n, node_stake np vam n)) ` staked_nodes np vam"
proof -
  have "(n, s) \<in> set (aggregate_stakes np vam) \<longleftrightarrow> n \<in> staked_nodes np vam \<and> s = node_stake np vam n" for n s
    using hm_get_iff [OF aggregate_stakes_wf, of np vam n s] by (auto simp: aggregate_stakes_get split: if_splits)
  then show ?thesis by auto
qed

section \<open>The split\<close>

definition no_nodes :: ActiveValidatorSet where
  "no_nodes = \<lparr> active_validators = {}, standby_validators = {}, active_ranked = [], standby_ranked = [] \<rparr>"

lemma place_run:
  "active_ranked (foldl (place_ranked jailed) no_nodes xs) =
     take MAX_ACTIVE_VALIDATORS (filter (\<lambda>x. fst x \<notin> jailed) xs) \<and>
   mset (active_ranked (foldl (place_ranked jailed) no_nodes xs)) +
     mset (standby_ranked (foldl (place_ranked jailed) no_nodes xs)) = mset xs \<and>
   active_validators (foldl (place_ranked jailed) no_nodes xs) =
     fst ` set (active_ranked (foldl (place_ranked jailed) no_nodes xs)) \<and>
   standby_validators (foldl (place_ranked jailed) no_nodes xs) =
     fst ` set (standby_ranked (foldl (place_ranked jailed) no_nodes xs))"
proof (induction xs rule: rev_induct)
  case Nil
  then show ?case by (simp add: no_nodes_def)
next
  case (snoc x xs)
  then show ?case by (auto simp: place_ranked_def Let_def)
qed

lemma inj_rank_key: "inj_on rank_key A"
  by (auto simp: inj_on_def rank_key_def prod_eq_iff)

definition ranked_nodes :: "('va \<Rightarrow> pubkey) \<Rightarrow> (pubkey, u64 \<times> 'va) hashmap \<Rightarrow> (pubkey \<times> u64) list" where
  "ranked_nodes node_pubkey vam = sort_key rank_key (aggregate_stakes node_pubkey vam)"

lemma compute_alt: "compute np vam jailed = foldl (place_ranked jailed) no_nodes (ranked_nodes np vam)"
  by (simp add: compute_def ranked_nodes_def no_nodes_def)

lemma ranked_nodes_distinct: "distinct (map fst (ranked_nodes np vam))"
  using aggregate_stakes_wf [of np vam] mset_eq_imp_distinct_iff
    [of "map fst (ranked_nodes np vam)" "map fst (aggregate_stakes np vam)"]
  by (simp add: ranked_nodes_def hm_wf_def)

lemma ranked_nodes_set: "set (ranked_nodes np vam) = (\<lambda>n. (n, node_stake np vam n)) ` staked_nodes np vam"
  by (simp add: ranked_nodes_def aggregate_stakes_set)

lemma compute_validators:
  "active_ranked (compute np vam jailed) = take MAX_ACTIVE_VALIDATORS (filter (\<lambda>x. fst x \<notin> jailed) (ranked_nodes np vam))"
  "active_validators (compute np vam jailed) = fst ` set (active_ranked (compute np vam jailed))"
  "standby_validators (compute np vam jailed) = fst ` set (standby_ranked (compute np vam jailed))"
  "active_validators (compute np vam jailed) \<union> standby_validators (compute np vam jailed) = staked_nodes np vam"
  "active_validators (compute np vam jailed) \<inter> standby_validators (compute np vam jailed) = {}"
proof -
  let ?a = "compute np vam jailed"
  note r = place_run [of jailed "ranked_nodes np vam", folded compute_alt]
  show "active_ranked ?a = take MAX_ACTIVE_VALIDATORS (filter (\<lambda>x. fst x \<notin> jailed) (ranked_nodes np vam))"
    "active_validators ?a = fst ` set (active_ranked ?a)" "standby_validators ?a = fst ` set (standby_ranked ?a)"
    using r by auto
  have m: "mset (active_ranked ?a @ standby_ranked ?a) = mset (ranked_nodes np vam)"
    unfolding mset_append using r by blast
  have "set (active_ranked ?a) \<union> set (standby_ranked ?a) = set (ranked_nodes np vam)"
    using mset_eq_setD [OF m] by simp
  then have "fst ` set (active_ranked ?a) \<union> fst ` set (standby_ranked ?a) = staked_nodes np vam"
    unfolding image_Un [symmetric] by (simp add: ranked_nodes_set image_image)
  then show "active_validators ?a \<union> standby_validators ?a = staked_nodes np vam" using r by auto
  have "mset (map fst (active_ranked ?a @ standby_ranked ?a)) = mset (map fst (ranked_nodes np vam))"
    using m by (metis mset_map)
  then have "distinct (map fst (active_ranked ?a @ standby_ranked ?a))"
    using ranked_nodes_distinct [of np vam] by (metis mset_eq_imp_distinct_iff)
  then show "active_validators ?a \<inter> standby_validators ?a = {}" using r by auto
qed

lemma filter_unjailed_card:
  "length (filter (\<lambda>x. fst x \<notin> jailed) (ranked_nodes np vam)) = card (staked_nodes np vam - jailed)"
proof -
  have d: "distinct (map fst (filter (\<lambda>x. fst x \<notin> jailed) (ranked_nodes np vam)))"
    using ranked_nodes_distinct by (rule distinct_map_filter)
  have "set (map fst (filter (\<lambda>x. fst x \<notin> jailed) (ranked_nodes np vam))) = staked_nodes np vam - jailed"
    by (auto simp: ranked_nodes_set image_iff)
  then show ?thesis using distinct_card [OF d] by simp
qed

text \<open>A node that is passed over ranks after every active one.\<close>

lemma active_before_passed_over:
  assumes n: "n \<in> active_validators (compute np vam jailed)"
    and m: "m \<in> staked_nodes np vam" "m \<notin> jailed" "m \<notin> active_validators (compute np vam jailed)"
  shows "rank_key (n, node_stake np vam n) < rank_key (m, node_stake np vam m)"
proof -
  define ys where "ys = filter (\<lambda>x. fst x \<notin> jailed) (ranked_nodes np vam)"
  have st: "x \<in> set ys \<Longrightarrow> snd x = node_stake np vam (fst x)" for x by (auto simp: ys_def ranked_nodes_set)
  have "sorted (map rank_key ys)" unfolding ys_def ranked_nodes_def by (intro sorted_filter) simp
  then have "sorted (map rank_key (take MAX_ACTIVE_VALIDATORS ys) @ map rank_key (drop MAX_ACTIVE_VALIDATORS ys))"
    by (simp flip: map_append)
  then have s: "rank_key x \<le> rank_key y"
    if "x \<in> set (take MAX_ACTIVE_VALIDATORS ys)" "y \<in> set (drop MAX_ACTIVE_VALIDATORS ys)" for x y
    using that by (auto simp: sorted_append)
  have nx: "(n, node_stake np vam n) \<in> set (take MAX_ACTIVE_VALIDATORS ys)"
    using n st by (force simp: compute_validators(1,2) simp flip: ys_def dest: in_set_takeD)
  have "(m, node_stake np vam m) \<in> set ys" using m by (auto simp: ys_def ranked_nodes_set)
  moreover have "(m, node_stake np vam m) \<notin> set (take MAX_ACTIVE_VALIDATORS ys)"
    using m(3) by (force simp: compute_validators(1,2) simp flip: ys_def)
  ultimately have mx: "(m, node_stake np vam m) \<in> set (drop MAX_ACTIVE_VALIDATORS ys)"
    by (metis Un_iff append_take_drop_id set_append)
  have "n \<noteq> m" using n m(3) by blast
  then have "rank_key (n, node_stake np vam n) \<noteq> rank_key (m, node_stake np vam m)" by (simp add: rank_key_def)
  then show ?thesis using s [OF nx mx] by simp
qed

section \<open>Properties\<close>

text \<open>
  The active set is the top of the stake ranking. Every node with stake is either active or
  standby, no jailed node is active, there are as many active nodes as there are unjailed ones up to
  200, and an unjailed node that is passed over has less stake than every active node, or the same
  stake and a larger public key.
\<close>

theorem active_set_is_top_stake:
  assumes "a = compute np vam jailed"
  shows "active_validators a \<union> standby_validators a = staked_nodes np vam
    \<and> active_validators a \<inter> (standby_validators a \<union> jailed) = {}
    \<and> card (active_validators a) = min MAX_ACTIVE_VALIDATORS (card (staked_nodes np vam - jailed))
    \<and> (n \<in> active_validators a \<longrightarrow> m \<in> standby_validators a - jailed \<longrightarrow>
        node_stake np vam m < node_stake np vam n
        \<or> node_stake np vam m = node_stake np vam n \<and> n < m)"
proof -
  note c = compute_validators [of np vam jailed, folded assms]
  let ?ys = "filter (\<lambda>x. fst x \<notin> jailed) (ranked_nodes np vam)"
  have j: "active_validators a \<inter> jailed = {}" by (auto simp: c(1,2) dest!: in_set_takeD)
  have "distinct (map fst ?ys)" using ranked_nodes_distinct by (rule distinct_map_filter)
  then have "distinct (map fst (take MAX_ACTIVE_VALIDATORS ?ys))" by (simp flip: take_map)
  then have k: "card (active_validators a) = min MAX_ACTIVE_VALIDATORS (card (staked_nodes np vam - jailed))"
    using distinct_card [of "map fst (take MAX_ACTIVE_VALIDATORS ?ys)"]
    by (simp add: c(1,2) min.commute flip: filter_unjailed_card)
  have "node_stake np vam m < node_stake np vam n \<or> node_stake np vam m = node_stake np vam n \<and> n < m"
    if n: "n \<in> active_validators a" and m: "m \<in> standby_validators a - jailed"
  proof -
    have "m \<in> staked_nodes np vam" "m \<notin> active_validators a" using m c(4,5) by auto
    then show ?thesis using active_before_passed_over [of n np vam jailed m, folded assms] n m
      by (auto simp: rank_key_def less_prod_def)
  qed
  then show ?thesis using c(4,5) j k by blast
qed

text \<open>
  All nodes compute the same active set: the ranking does not depend on the order in which the
  hash map of vote accounts is iterated.
\<close>

theorem active_set_order_independent:
  assumes "mset vam = mset vam'"
  shows "compute np vam jailed = compute np vam' jailed"
proof -
  have acc: "mset (node_accounts np vam) = mset (node_accounts np vam')"
    using assms by (simp add: node_accounts_def)
  then have "staked_nodes np vam = staked_nodes np vam'" by (metis staked_nodes_def mset_eq_setD)
  moreover have "mset (map snd (filter (\<lambda>(k, _). k = n) (node_accounts np vam))) =
      mset (map snd (filter (\<lambda>(k, _). k = n) (node_accounts np vam')))" for n
    using acc by simp
  then have "node_stake np vam n = node_stake np vam' n" for n
    unfolding node_stake_def by (metis sum_mset_sum_list)
  ultimately have "set (aggregate_stakes np vam) = set (aggregate_stakes np vam')"
    by (simp add: aggregate_stakes_set)
  then have "mset (aggregate_stakes np vam) = mset (aggregate_stakes np vam')"
    using aggregate_stakes_wf [of np vam] aggregate_stakes_wf [of np vam']
    by (intro set_eq_iff_mset_eq_distinct [THEN iffD1]) (auto simp: hm_wf_def distinct_map)
  then have "sort_key rank_key (aggregate_stakes np vam) = sort_key rank_key (aggregate_stakes np vam')"
    by (intro sort_key_inj_key_eq) (simp_all add: inj_rank_key)
  then show ?thesis by (simp add: compute_def)
qed

text \<open>
  C18: A banned validator never produces blocks again: whatever operations follow the ban, it is not
  in the active set computed with the jailed set of the resulting state, and none of its vote accounts
  reaches the leader schedule.
\<close>

theorem banned_never_active:
  assumes "permanently_banned (status_of s v)" "a = compute np vam (jailed_set (foldl slash_step s es))"
  shows "\<not> is_active a v \<and> ((k, st, va) \<in> set (filter_active_vote_accounts np a vam') \<longrightarrow> np va \<noteq> v)"
proof -
  let ?s = "foldl slash_step s es"
  have "permanently_banned (status_of ?s v) \<and> offense_count (status_of ?s v) = offense_count (status_of s v)"
    by (rule banned.run_inv) (simp add: assms(1))
  then have "v \<in> jailed_set ?s" by (simp add: banned_in_jailed_set)
  then have "v \<notin> active_validators a"
    by (auto simp: assms(2) compute_validators(1,2) dest!: in_set_takeD)
  then show ?thesis by (auto simp: is_active_def filter_active_vote_accounts_def)
qed

text \<open>Two vote accounts of one node, a second node, and a node jailed for good.\<close>

definition example_votes :: "(pubkey, u64 \<times> pubkey) hashmap" where
  "example_votes = [([10], 5, [1]), ([11], 7, [2]), ([12], 4, [1]), ([13], 90, [3])]"

lemma example_votes_nodes: "staked_nodes id example_votes = {[1], [2], [3]}"
  by (auto simp: staked_nodes_def node_accounts_def example_votes_def)

theorem active_set_is_top_stake_witness:
  "let a = compute id example_votes {[3]} in
   active_validators a \<union> standby_validators a = {[1], [2], [3]} \<and> card (active_validators a) = 2"
proof -
  have "{[1], [2], [3]} - {[3]} = {[1], [2] :: pubkey}" by auto
  then show ?thesis
    using active_set_is_top_stake [of _ id example_votes "{[3]}", OF refl]
    by (simp add: example_votes_nodes MAX_ACTIVE_VALIDATORS_def)
qed

theorem active_set_order_independent_witness:
  "compute id example_votes {[3]} = compute id (rev example_votes) {[3]}"
  by (rule active_set_order_independent) simp

theorem banned_never_active_witness:
  "let s = slash_step SlashingState_new (JailEv [3] Permanent 5);
       a = compute id example_votes (jailed_set (foldl slash_step s [UnjailEv [3] 100])) in
   \<not> is_active a [3]"
proof -
  have "permanently_banned (status_of (slash_step SlashingState_new (JailEv [3] Permanent 5)) [3])"
    by (simp add: jail_validator_def apply_jail_status)
  then show ?thesis unfolding Let_def
    by (rule banned_never_active [where vam' = "[] :: (pubkey, u64 \<times> pubkey) hashmap", OF _ refl, THEN conjunct1])
qed

end
