(* ===== verification/Transaction_Context.thy ===== *)
theory Transaction_Context
  imports Accounts_Rent
begin

text \<open>
  The accounts of a transaction and the rules under which a program may change them:
  \<^verbatim>\<open>transaction-context/src\<close> (\<^verbatim>\<open>transaction_accounts.rs\<close>, \<^verbatim>\<open>instruction_accounts.rs\<close>,
  \<^verbatim>\<open>instruction.rs\<close> and the balance check of \<^verbatim>\<open>TransactionContext::pop\<close>).

  An operation on a borrowed account takes the instruction, the instruction account and the
  transaction, and returns the transaction or the error. A transaction with an error is discarded, so
  its state is not returned. The built-in programs release every borrow before they take the next one;
  a borrow therefore only has to find the counter of the account at zero.

  Shown: whatever sequence of operations a program performs, the lamports delta is the change of the
  total lamports, read-only accounts do not change, and an account the program does not own keeps its
  data and owner and is never debited.
\<close>

section \<open>Data\<close>

datatype InstructionError =
    MissingAccount | ModifiedProgramId | ExternalAccountLamportSpend | ReadonlyLamportChange
  | ArithmeticOverflow | ReadonlyDataModified | ExternalAccountDataModified | AccountDataSizeChanged
  | InvalidRealloc | MaxAccountsDataAllocationsExceeded | AccountBorrowFailed | AccountBorrowOutstanding
  | UnbalancedInstruction | CallDepth | ExecutableAccountNotRentExempt | ExecutableModified
  | UnsupportedSysvar | InvalidInstructionData | AccountDataTooSmall | InvalidAccountData
  | MissingRequiredSignature | Custom nat

definition MAX_ACCOUNT_DATA_LEN :: nat where
  "MAX_ACCOUNT_DATA_LEN = 10 * 1024 * 1024"

definition MAX_ACCOUNT_DATA_GROWTH_PER_TRANSACTION :: int where
  "MAX_ACCOUNT_DATA_GROWTH_PER_TRANSACTION = 10 * 1024 * 1024 * 2"

record InstructionAccount =
  index_in_transaction :: nat
  is_signer :: bool
  is_writable :: bool

record InstructionContext =
  program_account_index_in_tx :: nat
  instruction_accounts :: "InstructionAccount list"

record TransactionContext =
  tx_accounts :: "(pubkey \<times> AccountSharedData) list"
  borrow_counters :: "int list"
  touched_flags :: "bool list"
  resize_delta :: i64
  lamports_delta :: i128

definition TransactionAccounts_new :: "(pubkey \<times> AccountSharedData) list \<Rightarrow> TransactionContext" where
  "TransactionAccounts_new accounts =
     \<lparr> tx_accounts = accounts, borrow_counters = replicate (length accounts) 0,
       touched_flags = replicate (length accounts) False, resize_delta = 0, lamports_delta = 0 \<rparr>"

section \<open>Transaction accounts\<close>

definition nth_opt :: "'a list \<Rightarrow> nat \<Rightarrow> 'a option" where
  "nth_opt xs i = (if i < length xs then Some (xs ! i) else None)"

definition account_key :: "TransactionContext \<Rightarrow> nat \<Rightarrow> pubkey option" where
  "account_key tx i = map_option fst (nth_opt (tx_accounts tx) i)"

definition get_key_of_account_at_index :: "TransactionContext \<Rightarrow> nat \<Rightarrow> InstructionError + pubkey" where
  "get_key_of_account_at_index tx i = ok_or MissingAccount (account_key tx i)"

definition tx_touch :: "nat \<Rightarrow> TransactionContext \<Rightarrow> InstructionError + TransactionContext" where
  "tx_touch i tx =
     (if i < length (touched_flags tx) then Inr (tx\<lparr> touched_flags := (touched_flags tx)[i := True] \<rparr>)
      else Inl MissingAccount)"

definition tx_update_resize_delta :: "nat \<Rightarrow> nat \<Rightarrow> TransactionContext \<Rightarrow> TransactionContext" where
  "tx_update_resize_delta old_len new_len tx =
     tx\<lparr> resize_delta := sat_iadd 64 (resize_delta tx) (int new_len - int old_len) \<rparr>"

definition tx_can_data_be_resized :: "TransactionContext \<Rightarrow> nat \<Rightarrow> nat \<Rightarrow> InstructionError + unit" where
  "tx_can_data_be_resized tx old_len new_len =
     (if new_len > MAX_ACCOUNT_DATA_LEN then Inl InvalidRealloc
      else if sat_iadd 64 (resize_delta tx) (int new_len - int old_len) > MAX_ACCOUNT_DATA_GROWTH_PER_TRANSACTION
        then Inl MaxAccountsDataAllocationsExceeded
      else Inr ())"

definition tx_try_borrow_mut :: "TransactionContext \<Rightarrow> nat \<Rightarrow> InstructionError + unit" where
  "tx_try_borrow_mut tx i =
     (case nth_opt (borrow_counters tx) i of
        None \<Rightarrow> Inl MissingAccount
      | Some c \<Rightarrow> if c \<noteq> 0 then Inl AccountBorrowFailed else Inr ())"

definition add_lamports_delta :: "int \<Rightarrow> TransactionContext \<Rightarrow> InstructionError + TransactionContext" where
  "add_lamports_delta balance tx =
     (case checked_iadd 128 (lamports_delta tx) balance of
        None \<Rightarrow> Inl ArithmeticOverflow
      | Some d \<Rightarrow> Inr (tx\<lparr> lamports_delta := d \<rparr>))"

section \<open>Instructions\<close>

definition check_number_of_instruction_accounts :: "InstructionContext \<Rightarrow> nat \<Rightarrow> InstructionError + unit" where
  "check_number_of_instruction_accounts ix n =
     (if length (instruction_accounts ix) < n then Inl MissingAccount else Inr ())"

definition is_instruction_account_signer :: "InstructionContext \<Rightarrow> nat \<Rightarrow> InstructionError + bool" where
  "is_instruction_account_signer ix i =
     res_bind (ok_or MissingAccount (nth_opt (instruction_accounts ix) i)) (\<lambda>ia. Inr (is_signer ia))"

definition is_instruction_account_writable :: "InstructionContext \<Rightarrow> nat \<Rightarrow> InstructionError + bool" where
  "is_instruction_account_writable ix i =
     res_bind (ok_or MissingAccount (nth_opt (instruction_accounts ix) i)) (\<lambda>ia. Inr (is_writable ia))"

definition get_index_of_instruction_account_in_transaction :: "InstructionContext \<Rightarrow> nat \<Rightarrow> InstructionError + nat" where
  "get_index_of_instruction_account_in_transaction ix i =
     res_bind (ok_or MissingAccount (nth_opt (instruction_accounts ix) i)) (\<lambda>ia. Inr (index_in_transaction ia))"

definition get_key_of_instruction_account ::
    "InstructionContext \<Rightarrow> TransactionContext \<Rightarrow> nat \<Rightarrow> InstructionError + pubkey" where
  "get_key_of_instruction_account ix tx i =
     res_bind (get_index_of_instruction_account_in_transaction ix i) (get_key_of_account_at_index tx)"

definition try_borrow_instruction_account ::
    "InstructionContext \<Rightarrow> TransactionContext \<Rightarrow> nat \<Rightarrow> InstructionError + InstructionAccount" where
  "try_borrow_instruction_account ix tx i =
     res_bind (ok_or MissingAccount (nth_opt (instruction_accounts ix) i)) (\<lambda>ia.
     res_bind (tx_try_borrow_mut tx (index_in_transaction ia)) (\<lambda>_. Inr ia))"

section \<open>Borrowed accounts\<close>

definition acct :: "TransactionContext \<Rightarrow> nat \<Rightarrow> AccountSharedData" where
  "acct tx i = snd (tx_accounts tx ! i)"

definition set_acct :: "nat \<Rightarrow> AccountSharedData \<Rightarrow> TransactionContext \<Rightarrow> TransactionContext" where
  "set_acct i a tx = tx\<lparr> tx_accounts := (tx_accounts tx)[i := (fst (tx_accounts tx ! i), a)] \<rparr>"

definition get_owner :: "TransactionContext \<Rightarrow> InstructionAccount \<Rightarrow> pubkey" where
  "get_owner tx ia = owner (acct tx (index_in_transaction ia))"

definition get_lamports :: "TransactionContext \<Rightarrow> InstructionAccount \<Rightarrow> u64" where
  "get_lamports tx ia = lamports (acct tx (index_in_transaction ia))"

definition get_data :: "TransactionContext \<Rightarrow> InstructionAccount \<Rightarrow> bytes" where
  "get_data tx ia = acc_data (acct tx (index_in_transaction ia))"

definition is_owned_by_current_program :: "InstructionContext \<Rightarrow> TransactionContext \<Rightarrow> InstructionAccount \<Rightarrow> bool" where
  "is_owned_by_current_program ix tx ia =
     (case account_key tx (program_account_index_in_tx ix) of
        None \<Rightarrow> False | Some k \<Rightarrow> k = get_owner tx ia)"

definition is_zeroed :: "bytes \<Rightarrow> bool" where
  "is_zeroed buf = list_all (\<lambda>b. b = 0) buf"

definition can_data_be_changed ::
    "InstructionContext \<Rightarrow> TransactionContext \<Rightarrow> InstructionAccount \<Rightarrow> InstructionError + unit" where
  "can_data_be_changed ix tx ia =
     (if \<not> is_writable ia then Inl ReadonlyDataModified
      else if \<not> is_owned_by_current_program ix tx ia then Inl ExternalAccountDataModified
      else Inr ())"

definition can_data_be_resized ::
    "InstructionContext \<Rightarrow> TransactionContext \<Rightarrow> InstructionAccount \<Rightarrow> nat \<Rightarrow> InstructionError + unit" where
  "can_data_be_resized ix tx ia new_len =
     (let old_len = length (get_data tx ia) in
      if new_len \<noteq> old_len \<and> \<not> is_owned_by_current_program ix tx ia then Inl AccountDataSizeChanged
      else res_bind (tx_can_data_be_resized tx old_len new_len) (\<lambda>_. can_data_be_changed ix tx ia))"

definition set_owner ::
    "InstructionContext \<Rightarrow> InstructionAccount \<Rightarrow> pubkey \<Rightarrow> TransactionContext \<Rightarrow> InstructionError + TransactionContext" where
  "set_owner ix ia new_owner tx =
     (if \<not> is_owned_by_current_program ix tx ia then Inl ModifiedProgramId
      else if \<not> is_writable ia then Inl ModifiedProgramId
      else if \<not> is_zeroed (get_data tx ia) then Inl ModifiedProgramId
      else if get_owner tx ia = new_owner then Inr tx
      else res_bind (tx_touch (index_in_transaction ia) tx) (\<lambda>tx.
        Inr (set_acct (index_in_transaction ia) ((acct tx (index_in_transaction ia))\<lparr> owner := new_owner \<rparr>) tx)))"

definition set_lamports ::
    "InstructionContext \<Rightarrow> InstructionAccount \<Rightarrow> u64 \<Rightarrow> TransactionContext \<Rightarrow> InstructionError + TransactionContext" where
  "set_lamports ix ia l tx =
     (if \<not> is_owned_by_current_program ix tx ia \<and> l < get_lamports tx ia then Inl ExternalAccountLamportSpend
      else if \<not> is_writable ia then Inl ReadonlyLamportChange
      else if get_lamports tx ia = l then Inr tx
      else res_bind (add_lamports_delta (int l - int (get_lamports tx ia)) tx) (\<lambda>tx.
        res_bind (tx_touch (index_in_transaction ia) tx) (\<lambda>tx.
        Inr (set_acct (index_in_transaction ia) ((acct tx (index_in_transaction ia))\<lparr> lamports := l \<rparr>) tx))))"

definition checked_add_lamports ::
    "InstructionContext \<Rightarrow> InstructionAccount \<Rightarrow> u64 \<Rightarrow> TransactionContext \<Rightarrow> InstructionError + TransactionContext" where
  "checked_add_lamports ix ia l tx =
     res_bind (ok_or ArithmeticOverflow (checked_add 64 (get_lamports tx ia) l)) (\<lambda>n. set_lamports ix ia n tx)"

definition checked_sub_lamports ::
    "InstructionContext \<Rightarrow> InstructionAccount \<Rightarrow> u64 \<Rightarrow> TransactionContext \<Rightarrow> InstructionError + TransactionContext" where
  "checked_sub_lamports ix ia l tx =
     res_bind (ok_or ArithmeticOverflow (checked_sub (get_lamports tx ia) l)) (\<lambda>n. set_lamports ix ia n tx)"

definition put_data :: "InstructionAccount \<Rightarrow> bytes \<Rightarrow> TransactionContext \<Rightarrow> TransactionContext" where
  "put_data ia data tx =
     set_acct (index_in_transaction ia) ((acct tx (index_in_transaction ia))\<lparr> acc_data := data \<rparr>) tx"

text \<open>\<^verbatim>\<open>get_data_mut\<close> hands out the slice; \<open>f\<close> is what the caller writes through it.\<close>

definition write_data_mut ::
    "InstructionContext \<Rightarrow> InstructionAccount \<Rightarrow> (bytes \<Rightarrow> bytes) \<Rightarrow> TransactionContext \<Rightarrow> InstructionError + TransactionContext" where
  "write_data_mut ix ia f tx =
     res_bind (can_data_be_changed ix tx ia) (\<lambda>_.
     res_bind (tx_touch (index_in_transaction ia) tx) (\<lambda>tx. Inr (put_data ia (f (get_data tx ia)) tx)))"

definition set_data_from_slice ::
    "InstructionContext \<Rightarrow> InstructionAccount \<Rightarrow> bytes \<Rightarrow> TransactionContext \<Rightarrow> InstructionError + TransactionContext" where
  "set_data_from_slice ix ia data tx =
     res_bind (can_data_be_resized ix tx ia (length data)) (\<lambda>_.
     res_bind (tx_touch (index_in_transaction ia) tx) (\<lambda>tx.
     Inr (put_data ia data (tx_update_resize_delta (length (get_data tx ia)) (length data) tx))))"

definition resized :: "nat \<Rightarrow> bytes \<Rightarrow> bytes" where
  "resized n data = take n data @ replicate (n - length data) 0"

definition set_data_length ::
    "InstructionContext \<Rightarrow> InstructionAccount \<Rightarrow> nat \<Rightarrow> TransactionContext \<Rightarrow> InstructionError + TransactionContext" where
  "set_data_length ix ia n tx =
     res_bind (can_data_be_resized ix tx ia n) (\<lambda>_.
     if length (get_data tx ia) = n then Inr tx
     else res_bind (tx_touch (index_in_transaction ia) tx) (\<lambda>tx.
       Inr (put_data ia (resized n (get_data tx ia)) (tx_update_resize_delta (length (get_data tx ia)) n tx))))"

definition extend_from_slice ::
    "InstructionContext \<Rightarrow> InstructionAccount \<Rightarrow> bytes \<Rightarrow> TransactionContext \<Rightarrow> InstructionError + TransactionContext" where
  "extend_from_slice ix ia data tx =
     (let new_len = sat_add 64 (length (get_data tx ia)) (length data) in
      res_bind (can_data_be_resized ix tx ia new_len) (\<lambda>_.
      if data = [] then Inr tx
      else res_bind (tx_touch (index_in_transaction ia) tx) (\<lambda>tx.
        Inr (put_data ia (get_data tx ia @ data) (tx_update_resize_delta (length (get_data tx ia)) new_len tx)))))"

definition set_executable ::
    "(u64 \<Rightarrow> nat \<Rightarrow> bool) \<Rightarrow> InstructionContext \<Rightarrow> InstructionAccount \<Rightarrow> bool \<Rightarrow> TransactionContext \<Rightarrow>
     InstructionError + TransactionContext" where
  "set_executable is_exempt ix ia flag tx =
     (let i = index_in_transaction ia in
      if \<not> is_exempt (get_lamports tx ia) (length (get_data tx ia)) then Inl ExecutableAccountNotRentExempt
      else if \<not> is_owned_by_current_program ix tx ia then Inl ExecutableModified
      else if \<not> is_writable ia then Inl ExecutableModified
      else if executable (acct tx i) = flag then Inr tx
      else res_bind (tx_touch i tx) (\<lambda>tx. Inr (set_acct i ((acct tx i)\<lparr> executable := flag \<rparr>) tx)))"

text \<open>
  The end of an instruction: the program account has no outstanding borrow and the lamports delta is
  zero. The bookkeeping of the instruction stack is left out.
\<close>

definition pop_check :: "InstructionContext \<Rightarrow> TransactionContext \<Rightarrow> InstructionError + unit" where
  "pop_check ix tx =
     (if program_account_index_in_tx ix = umax 16 then Inl MissingAccount
      else case tx_try_borrow_mut tx (program_account_index_in_tx ix) of
          Inl e \<Rightarrow> Inl (if e = AccountBorrowFailed then AccountBorrowOutstanding else e)
        | Inr _ \<Rightarrow> if lamports_delta tx \<noteq> 0 then Inl UnbalancedInstruction else Inr ())"

section \<open>What a program may do\<close>

definition total_lamports :: "TransactionContext \<Rightarrow> nat" where
  "total_lamports tx = sum_list (map (lamports \<circ> snd) (tx_accounts tx))"

definition writable_indices :: "InstructionContext \<Rightarrow> nat set" where
  "writable_indices ix = index_in_transaction ` {ia \<in> set (instruction_accounts ix). is_writable ia}"

definition foreign :: "InstructionContext \<Rightarrow> TransactionContext \<Rightarrow> nat \<Rightarrow> bool" where
  "foreign ix tx i \<longleftrightarrow> account_key tx (program_account_index_in_tx ix) \<noteq> Some (owner (acct tx i))"

text \<open>The effect of a well-behaved instruction on the transaction.\<close>

definition allowed_effect :: "InstructionContext \<Rightarrow> TransactionContext \<Rightarrow> TransactionContext \<Rightarrow> bool" where
  "allowed_effect ix tx tx' \<longleftrightarrow>
     map fst (tx_accounts tx') = map fst (tx_accounts tx) \<and>
     borrow_counters tx' = borrow_counters tx \<and>
     length (touched_flags tx') = length (touched_flags tx) \<and>
     lamports_delta tx' - lamports_delta tx = int (total_lamports tx') - int (total_lamports tx) \<and>
     (\<forall>i < length (tx_accounts tx).
        (i \<notin> writable_indices ix \<longrightarrow> acct tx' i = acct tx i) \<and>
        (foreign ix tx i \<longrightarrow> owner (acct tx' i) = owner (acct tx i) \<and> acc_data (acct tx' i) = acc_data (acct tx i)
           \<and> executable (acct tx' i) = executable (acct tx i) \<and> lamports (acct tx i) \<le> lamports (acct tx' i)))"

definition tx_wf :: "TransactionContext \<Rightarrow> bool" where
  "tx_wf tx \<longleftrightarrow> length (touched_flags tx) = length (tx_accounts tx)
     \<and> length (borrow_counters tx) = length (tx_accounts tx)"

lemma tx_wf_new [simp]: "tx_wf (TransactionAccounts_new accounts)"
  by (simp add: tx_wf_def TransactionAccounts_new_def)

lemma nth_opt_Some [simp]: "nth_opt xs i = Some x \<longleftrightarrow> i < length xs \<and> x = xs ! i"
  by (auto simp: nth_opt_def)

lemma allowed_length: "allowed_effect ix tx tx' \<Longrightarrow> length (tx_accounts tx') = length (tx_accounts tx)"
  unfolding allowed_effect_def by (metis length_map)

lemma account_key_alt: "account_key tx i = nth_opt (map fst (tx_accounts tx)) i"
  by (simp add: account_key_def nth_opt_def)

lemma allowed_keys: "allowed_effect ix tx tx' \<Longrightarrow> account_key tx' i = account_key tx i"
  by (simp add: account_key_alt allowed_effect_def)

lemma allowed_wf: "allowed_effect ix tx tx' \<Longrightarrow> tx_wf tx \<Longrightarrow> tx_wf tx'"
  using allowed_length [of ix tx tx'] by (auto simp: allowed_effect_def tx_wf_def)

lemma allowed_refl [simp, intro]: "allowed_effect ix tx tx"
  by (simp add: allowed_effect_def)

lemma allowed_foreign: "allowed_effect ix tx tx' \<Longrightarrow> i < length (tx_accounts tx) \<Longrightarrow> foreign ix tx i \<Longrightarrow> foreign ix tx' i"
  by (simp add: foreign_def allowed_keys) (simp add: allowed_effect_def foreign_def)

lemma allowed_trans:
  assumes a: "allowed_effect ix tx tx1" and b: "allowed_effect ix tx1 tx2"
  shows "allowed_effect ix tx tx2"
proof -
  have "(i \<notin> writable_indices ix \<longrightarrow> acct tx2 i = acct tx i) \<and>
      (foreign ix tx i \<longrightarrow> owner (acct tx2 i) = owner (acct tx i) \<and> acc_data (acct tx2 i) = acc_data (acct tx i)
           \<and> executable (acct tx2 i) = executable (acct tx i) \<and> lamports (acct tx i) \<le> lamports (acct tx2 i))"
    if i: "i < length (tx_accounts tx)" for i
  proof -
    have i1: "i < length (tx_accounts tx1)" using i allowed_length [OF a] by simp
    note f = allowed_foreign [OF a i]
    show ?thesis using a b i i1 f unfolding allowed_effect_def by (metis order_trans)
  qed
  then show ?thesis using a b unfolding allowed_effect_def by simp
qed

text \<open>Replacing one account, with the counters adjusted as the operations do.\<close>

lemma total_set_acct:
  "i < length (tx_accounts tx) \<Longrightarrow>
   total_lamports (set_acct i a tx) + lamports (acct tx i) = total_lamports tx + lamports a"
  using sum_list_update_nat [of i "map (lamports \<circ> snd) (tx_accounts tx)" "lamports a"]
  by (simp add: total_lamports_def set_acct_def acct_def map_update)

lemma acct_set_acct: "i < length (tx_accounts tx) \<Longrightarrow> acct (set_acct i a tx) j = (if j = i then a else acct tx j)"
  by (auto simp: acct_def set_acct_def)

lemma set_acct_allowed:
  assumes i: "i < length (tx_accounts tx)" "i \<in> writable_indices ix"
    and same: "tx_accounts tx1 = tx_accounts tx" "borrow_counters tx1 = borrow_counters tx"
      "length (touched_flags tx1) = length (touched_flags tx)"
    and delta: "lamports_delta tx1 - lamports_delta tx = int (lamports a) - int (lamports (acct tx i))"
    and f: "foreign ix tx i \<Longrightarrow> owner a = owner (acct tx i) \<and> acc_data a = acc_data (acct tx i)
      \<and> executable a = executable (acct tx i) \<and> lamports (acct tx i) \<le> lamports a"
  shows "allowed_effect ix tx (set_acct i a tx1)"
proof -
  have s: "acct tx1 = acct tx" "total_lamports tx1 = total_lamports tx"
    using same(1) by (auto simp: acct_def total_lamports_def)
  have "map fst (tx_accounts (set_acct i a tx1)) = map fst (tx_accounts tx)"
    using i(1) same(1) by (simp add: set_acct_def map_update list_update_same_conv)
  moreover have "int (total_lamports (set_acct i a tx1)) = int (total_lamports tx) + int (lamports a) - int (lamports (acct tx i))"
    using total_set_acct [of i tx1 a] i(1) same(1) s by simp
  ultimately show ?thesis using assms s acct_set_acct [of i tx1 a]
    by (auto simp: allowed_effect_def) (simp_all add: set_acct_def)
qed

lemma tx_touch_Inr: "tx_touch i tx = Inr tx1 \<longleftrightarrow> i < length (touched_flags tx) \<and> tx1 = tx\<lparr> touched_flags := (touched_flags tx)[i := True] \<rparr>"
  by (auto simp: tx_touch_def)

lemma add_lamports_delta_Inr:
  "add_lamports_delta b tx = Inr tx1 \<Longrightarrow> tx1 = tx\<lparr> lamports_delta := lamports_delta tx + b \<rparr>"
  by (auto simp: add_lamports_delta_def checked_iadd_def split: option.splits if_splits)

lemma borrow_Inr:
  "try_borrow_instruction_account ix tx i = Inr ia \<Longrightarrow>
     i < length (instruction_accounts ix) \<and> ia = instruction_accounts ix ! i
     \<and> index_in_transaction ia < length (borrow_counters tx)"
  by (auto simp: try_borrow_instruction_account_def tx_try_borrow_mut_def split: option.splits)

lemma borrow_mem: "try_borrow_instruction_account ix tx i = Inr ia \<Longrightarrow> ia \<in> set (instruction_accounts ix)"
  by (auto dest: borrow_Inr)

lemma writable_mem: "ia \<in> set (instruction_accounts ix) \<Longrightarrow> is_writable ia \<Longrightarrow> index_in_transaction ia \<in> writable_indices ix"
  by (auto simp: writable_indices_def)

lemma owned_foreign: "foreign ix tx (index_in_transaction ia) \<longleftrightarrow> \<not> is_owned_by_current_program ix tx ia"
  by (auto simp: foreign_def is_owned_by_current_program_def get_owner_def split: option.splits)

lemma acct_upd [simp]:
  "acct (tx\<lparr> touched_flags := x \<rparr>) = acct tx" "acct (tx\<lparr> lamports_delta := y \<rparr>) = acct tx"
  "acct (tx\<lparr> resize_delta := z \<rparr>) = acct tx"
  by (auto simp: acct_def)

section \<open>Every operation is allowed\<close>

named_theorems op_allowed \<open>operations whose success is an allowed effect\<close>

lemma set_lamports_allowed [op_allowed]:
  assumes "tx_wf tx" "ia \<in> set (instruction_accounts ix)" "set_lamports ix ia l tx = Inr tx'"
  shows "allowed_effect ix tx tx'"
proof -
  let ?i = "index_in_transaction ia"
  have w: "is_writable ia" and o: "foreign ix tx ?i \<Longrightarrow> get_lamports tx ia \<le> l"
    using assms(3) by (auto simp: set_lamports_def owned_foreign split: if_splits)
  show ?thesis
  proof (cases "get_lamports tx ia = l")
    case True
    then show ?thesis using assms(3) by (simp add: set_lamports_def split: if_splits)
  next
    case False
    then obtain tx1 tx2 where t: "add_lamports_delta (int l - int (get_lamports tx ia)) tx = Inr tx1"
      "tx_touch ?i tx1 = Inr tx2" "tx' = set_acct ?i ((acct tx2 ?i)\<lparr> lamports := l \<rparr>) tx2"
      using assms(3) by (auto simp: set_lamports_def split: if_splits)
    note d = add_lamports_delta_Inr [OF t(1)]
    have i: "?i < length (tx_accounts tx)" using t(2) assms(1) by (simp add: tx_touch_Inr d tx_wf_def)
    show ?thesis unfolding t(3) using i writable_mem [OF assms(2) w] t(2) o
      by (intro set_acct_allowed) (auto simp: tx_touch_Inr d get_lamports_def)
  qed
qed

lemma checked_add_lamports_allowed [op_allowed]:
  "tx_wf tx \<Longrightarrow> ia \<in> set (instruction_accounts ix) \<Longrightarrow> checked_add_lamports ix ia l tx = Inr tx' \<Longrightarrow> allowed_effect ix tx tx'"
  by (auto simp: checked_add_lamports_def intro: set_lamports_allowed)

lemma checked_sub_lamports_allowed [op_allowed]:
  "tx_wf tx \<Longrightarrow> ia \<in> set (instruction_accounts ix) \<Longrightarrow> checked_sub_lamports ix ia l tx = Inr tx' \<Longrightarrow> allowed_effect ix tx tx'"
  by (auto simp: checked_sub_lamports_def intro: set_lamports_allowed)

text \<open>Every change of the data passes \<open>can_data_be_changed\<close>.\<close>

lemma put_data_allowed:
  assumes "tx_wf tx" "ia \<in> set (instruction_accounts ix)" "can_data_be_changed ix tx ia = Inr u"
    "tx_touch (index_in_transaction ia) tx = Inr tx1" "tx2 = tx1 \<or> tx2 = tx_update_resize_delta m n tx1"
  shows "allowed_effect ix tx (put_data ia data tx2)"
proof -
  have w: "is_writable ia" "\<not> foreign ix tx (index_in_transaction ia)"
    using assms(3) by (auto simp: can_data_be_changed_def owned_foreign split: if_splits)
  show ?thesis unfolding put_data_def
    using assms(1,4,5) w writable_mem [OF assms(2) w(1)]
    by (intro set_acct_allowed) (auto simp: tx_touch_Inr tx_wf_def tx_update_resize_delta_def)
qed

lemma resized_changed: "can_data_be_resized ix tx ia n = Inr u \<Longrightarrow> can_data_be_changed ix tx ia = Inr u"
  by (auto simp: can_data_be_resized_def Let_def split: if_splits)

lemma write_data_mut_allowed [op_allowed]:
  "tx_wf tx \<Longrightarrow> ia \<in> set (instruction_accounts ix) \<Longrightarrow> write_data_mut ix ia f tx = Inr tx' \<Longrightarrow> allowed_effect ix tx tx'"
  by (auto simp: write_data_mut_def intro: put_data_allowed)

lemma set_data_from_slice_allowed [op_allowed]:
  "tx_wf tx \<Longrightarrow> ia \<in> set (instruction_accounts ix) \<Longrightarrow> set_data_from_slice ix ia d tx = Inr tx' \<Longrightarrow> allowed_effect ix tx tx'"
  by (auto simp: set_data_from_slice_def intro: put_data_allowed resized_changed)

lemma set_data_length_allowed [op_allowed]:
  "tx_wf tx \<Longrightarrow> ia \<in> set (instruction_accounts ix) \<Longrightarrow> set_data_length ix ia n tx = Inr tx' \<Longrightarrow> allowed_effect ix tx tx'"
  by (auto simp: set_data_length_def intro: put_data_allowed resized_changed split: if_splits)

lemma extend_from_slice_allowed [op_allowed]:
  "tx_wf tx \<Longrightarrow> ia \<in> set (instruction_accounts ix) \<Longrightarrow> extend_from_slice ix ia d tx = Inr tx' \<Longrightarrow> allowed_effect ix tx tx'"
  by (auto simp: extend_from_slice_def Let_def intro: put_data_allowed resized_changed split: if_splits)

lemma set_owner_allowed [op_allowed]:
  assumes "tx_wf tx" "ia \<in> set (instruction_accounts ix)" "set_owner ix ia k tx = Inr tx'"
  shows "allowed_effect ix tx tx'"
proof (cases "get_owner tx ia = k")
  case True
  then show ?thesis using assms(3) by (simp add: set_owner_def split: if_splits)
next
  case False
  have w: "is_writable ia" "\<not> foreign ix tx (index_in_transaction ia)"
    using assms(3) by (auto simp: set_owner_def owned_foreign split: if_splits)
  obtain tx1 where t: "tx_touch (index_in_transaction ia) tx = Inr tx1"
    "tx' = set_acct (index_in_transaction ia) ((acct tx1 (index_in_transaction ia))\<lparr> owner := k \<rparr>) tx1"
    using assms(3) False by (auto simp: set_owner_def split: if_splits)
  show ?thesis unfolding t(2) using assms(1) w writable_mem [OF assms(2) w(1)] t(1)
    by (intro set_acct_allowed) (auto simp: tx_touch_Inr tx_wf_def)
qed

lemma set_executable_allowed [op_allowed]:
  assumes "tx_wf tx" "ia \<in> set (instruction_accounts ix)" "set_executable ex ix ia b tx = Inr tx'"
  shows "allowed_effect ix tx tx'"
proof (cases "executable (acct tx (index_in_transaction ia)) = b")
  case True
  then show ?thesis using assms(3) by (simp add: set_executable_def Let_def split: if_splits)
next
  case False
  have w: "is_writable ia" "\<not> foreign ix tx (index_in_transaction ia)"
    using assms(3) by (auto simp: set_executable_def owned_foreign Let_def split: if_splits)
  obtain tx1 where t: "tx_touch (index_in_transaction ia) tx = Inr tx1"
    "tx' = set_acct (index_in_transaction ia) ((acct tx1 (index_in_transaction ia))\<lparr> executable := b \<rparr>) tx1"
    using assms(3) False by (auto simp: set_executable_def Let_def split: if_splits)
  show ?thesis unfolding t(2) using assms(1) w writable_mem [OF assms(2) w(1)] t(1)
    by (intro set_acct_allowed) (auto simp: tx_touch_Inr tx_wf_def)
qed

section \<open>Programs\<close>

text \<open>
  What the runtime relies on of a built-in program: a successful run has an allowed effect. From it
  follow, for every program, the conservation of lamports and the protection of accounts.
\<close>

locale account_program =
  fixes run :: "'i \<Rightarrow> InstructionContext \<Rightarrow> TransactionContext \<Rightarrow> InstructionError + TransactionContext"
  assumes run_allowed: "tx_wf tx \<Longrightarrow> run ins ix tx = Inr tx' \<Longrightarrow> allowed_effect ix tx tx'"
begin

lemma delta_is_change:
  "tx_wf tx \<Longrightarrow> run ins ix tx = Inr tx' \<Longrightarrow>
   lamports_delta tx' - lamports_delta tx = int (total_lamports tx') - int (total_lamports tx)"
  using run_allowed by (simp add: allowed_effect_def)

lemma conserves_lamports:
  assumes "tx_wf tx" "lamports_delta tx = 0" "run ins ix tx = Inr tx'" "pop_check ix tx' = Inr ()"
  shows "total_lamports tx' = total_lamports tx"
proof -
  have "lamports_delta tx' = 0" using assms(4) by (auto simp: pop_check_def split: if_splits sum.splits)
  then show ?thesis using delta_is_change [OF assms(1,3)] assms(2) by simp
qed

lemma readonly_unchanged:
  "tx_wf tx \<Longrightarrow> run ins ix tx = Inr tx' \<Longrightarrow> i < length (tx_accounts tx) \<Longrightarrow> i \<notin> writable_indices ix \<Longrightarrow>
   acct tx' i = acct tx i"
  using run_allowed by (simp add: allowed_effect_def)

lemma foreign_protected:
  "tx_wf tx \<Longrightarrow> run ins ix tx = Inr tx' \<Longrightarrow> i < length (tx_accounts tx) \<Longrightarrow> foreign ix tx i \<Longrightarrow>
   owner (acct tx' i) = owner (acct tx i) \<and> acc_data (acct tx' i) = acc_data (acct tx i)
   \<and> lamports (acct tx i) \<le> lamports (acct tx' i)"
  using run_allowed by (simp add: allowed_effect_def)

end

text \<open>An arbitrary program: any sequence of operations on borrowed accounts.\<close>

datatype AccountOp =
    SetOwner pubkey | SetLamports u64 | AddLamports u64 | SubLamports u64 | WriteData "bytes \<Rightarrow> bytes"
  | SetData bytes | SetDataLength nat | ExtendData bytes | SetExecutable "u64 \<Rightarrow> nat \<Rightarrow> bool" bool

fun run_op :: "nat \<times> AccountOp \<Rightarrow> InstructionContext \<Rightarrow> TransactionContext \<Rightarrow> InstructionError + TransactionContext" where
  "run_op (i, op) ix tx =
     res_bind (try_borrow_instruction_account ix tx i) (\<lambda>ia.
       case op of SetOwner k \<Rightarrow> set_owner ix ia k tx | SetLamports l \<Rightarrow> set_lamports ix ia l tx
       | AddLamports l \<Rightarrow> checked_add_lamports ix ia l tx | SubLamports l \<Rightarrow> checked_sub_lamports ix ia l tx
       | WriteData f \<Rightarrow> write_data_mut ix ia f tx | SetData d \<Rightarrow> set_data_from_slice ix ia d tx
       | SetDataLength n \<Rightarrow> set_data_length ix ia n tx | ExtendData d \<Rightarrow> extend_from_slice ix ia d tx
       | SetExecutable ex b \<Rightarrow> set_executable ex ix ia b tx)"

fun run_ops :: "(nat \<times> AccountOp) list \<Rightarrow> InstructionContext \<Rightarrow> TransactionContext \<Rightarrow> InstructionError + TransactionContext" where
  "run_ops [] ix tx = Inr tx"
| "run_ops (op # ops) ix tx = res_bind (run_op op ix tx) (run_ops ops ix)"

lemma run_op_allowed: "tx_wf tx \<Longrightarrow> run_op op ix tx = Inr tx' \<Longrightarrow> allowed_effect ix tx tx'"
  by (cases op) (auto dest!: borrow_mem intro: op_allowed split: AccountOp.splits)

lemma run_ops_allowed: "tx_wf tx \<Longrightarrow> run_ops ops ix tx = Inr tx' \<Longrightarrow> allowed_effect ix tx tx'"
proof (induction ops arbitrary: tx)
  case (Cons op ops)
  then obtain tx1 where t: "run_op op ix tx = Inr tx1" "run_ops ops ix tx1 = Inr tx'" by auto
  have a: "allowed_effect ix tx tx1" using run_op_allowed [OF Cons.prems(1) t(1)] .
  then show ?case using Cons.IH [OF allowed_wf [OF a Cons.prems(1)] t(2)] allowed_trans by blast
qed simp

interpretation any_program: account_program run_ops
  by unfold_locales (rule run_ops_allowed)

text \<open>
  C19: The access rules of the runtime hold against every program: after any successful sequence of
  account operations that the end-of-instruction check accepts, no lamport was created or destroyed,
  accounts the instruction does not mark writable are untouched, and an account of another program
  keeps owner and data and is not debited.
\<close>

theorem runtime_account_rules:
  assumes "tx_wf tx" "lamports_delta tx = 0" "run_ops ops ix tx = Inr tx'" "pop_check ix tx' = Inr ()"
    and "i < length (tx_accounts tx)"
  shows "total_lamports tx' = total_lamports tx
    \<and> (i \<notin> writable_indices ix \<longrightarrow> acct tx' i = acct tx i)
    \<and> (foreign ix tx i \<longrightarrow> owner (acct tx' i) = owner (acct tx i) \<and> acc_data (acct tx' i) = acc_data (acct tx i)
         \<and> lamports (acct tx i) \<le> lamports (acct tx' i))"
  using any_program.conserves_lamports [OF assms(1-4)] any_program.readonly_unchanged [OF assms(1,3,5)]
    any_program.foreign_protected [OF assms(1,3,5)] by blast

text \<open>A program (key 9) moves 5 lamports from an account it owns to a foreign one.\<close>

definition example_tx :: TransactionContext where
  "example_tx = TransactionAccounts_new
     [([1], default_account\<lparr> lamports := 10, owner := [9] \<rparr>), ([2], default_account\<lparr> lamports := 3, owner := [7] \<rparr>), ([9], default_account)]"

definition example_ix :: InstructionContext where
  "example_ix = \<lparr> program_account_index_in_tx = 2,
     instruction_accounts = [\<lparr> index_in_transaction = 0, is_signer = True, is_writable = True \<rparr>,
                             \<lparr> index_in_transaction = 1, is_signer = False, is_writable = True \<rparr>] \<rparr>"

lemmas tx_eval = run_op.simps run_ops.simps example_tx_def example_ix_def TransactionAccounts_new_def
  try_borrow_instruction_account_def nth_opt_def tx_try_borrow_mut_def checked_sub_lamports_def
  checked_add_lamports_def set_lamports_def is_owned_by_current_program_def account_key_def get_owner_def
  get_lamports_def add_lamports_delta_def tx_touch_def set_acct_def acct_def pop_check_def
  checked_add_def checked_sub_def checked_iadd_def umax_def default_account_def

theorem runtime_account_rules_witness:
  "\<exists>tx'. run_ops [(0, SubLamports 5), (1, AddLamports 5)] example_ix example_tx = Inr tx'
     \<and> total_lamports tx' = 13 \<and> lamports (acct tx' 1) \<ge> 3"
proof -
  obtain tx' where r: "run_ops [(0, SubLamports 5), (1, AddLamports 5)] example_ix example_tx = Inr tx'"
    and p: "pop_check example_ix tx' = Inr ()" by (simp add: tx_eval)
  have "tx_wf example_tx" "lamports_delta example_tx = 0" "1 < length (tx_accounts example_tx)"
    "total_lamports example_tx = 13" "foreign example_ix example_tx 1" "lamports (acct example_tx 1) = 3"
    by (simp_all add: example_tx_def) (simp_all add: tx_eval total_lamports_def foreign_def)
  with runtime_account_rules [of example_tx, OF _ _ r p, of 1] r show ?thesis by auto
qed

end
