(* ===== verification/Account_Data.thy ===== *)
theory Account_Data
  imports Transaction_Context
begin

text \<open>
  State stored in accounts, as the built-in programs do it: a discriminator byte followed by the Borsh
  encoding of a record (\<^verbatim>\<open>deserialize\<close> and \<^verbatim>\<open>serialize_into\<close> of \<^verbatim>\<open>programs/*/src/state.rs\<close>).

  Borsh is an external crate. Its derived encoder and decoder are the parameter \<open>codec\<close>; what the
  programs rely on, that decoding what was encoded gives the value back and that the encoding is no
  longer than documented, are the laws of the locale \<open>state_codec\<close>. The documented Borsh layout of
  fixed-size fields (little-endian integers, raw keys, a byte for a flag) is built from the encoders
  below and is the instance the locale is interpreted on.

  Shown: what \<^verbatim>\<open>serialize_into\<close> wrote is what \<^verbatim>\<open>deserialize\<close> reads, and the length of the account
  does not change. Also here: the sysvar clock, and the composition of account operations in handlers.
\<close>

section \<open>Codecs\<close>

record 'a codec =
  enc :: "'a \<Rightarrow> bytes"
  dec :: "bytes \<Rightarrow> 'a option"

definition state_deserialize :: "u8 \<Rightarrow> 'a codec \<Rightarrow> bytes \<Rightarrow> 'a option" where
  "state_deserialize disc c data =
     (case data of [] \<Rightarrow> None | d # rest \<Rightarrow> if d \<noteq> disc then None else dec c rest)"

definition state_serialize_into :: "u8 \<Rightarrow> nat \<Rightarrow> 'a codec \<Rightarrow> 'a \<Rightarrow> bytes \<Rightarrow> bytes option" where
  "state_serialize_into disc sz c st data =
     (if length data < sz then None
      else let body = enc c st in
        if length data - 1 < length body then None
        else Some (disc # body @ drop (length body) (tl data)))"

locale state_codec =
  fixes c :: "'a codec" and ok :: "'a \<Rightarrow> bool" and sz :: nat
  assumes dec_enc: "ok x \<Longrightarrow> dec c (enc c x @ rest) = Some x"
    and enc_length: "ok x \<Longrightarrow> length (enc c x) \<le> sz"
    and dec_ok: "dec c data = Some x \<Longrightarrow> ok x"
begin

lemma serialize_succeeds:
  "ok x \<Longrightarrow> sz < length data \<Longrightarrow> \<exists>data'. state_serialize_into disc (Suc sz) c x data = Some data'"
  using enc_length [of x] by (auto simp: state_serialize_into_def Let_def)

lemma serialize_roundtrip:
  "ok x \<Longrightarrow> state_serialize_into disc (Suc sz) c x data = Some data' \<Longrightarrow>
   state_deserialize disc c data' = Some x \<and> length data' = length data"
  by (auto simp: state_serialize_into_def state_deserialize_def dec_enc Let_def split: if_splits)

lemma deserialize_ok: "state_deserialize disc c data = Some x \<Longrightarrow> ok x"
  by (auto simp: state_deserialize_def dec_ok split: list.splits if_splits)

end

text \<open>
  The other form, \<^verbatim>\<open>try_from_slice\<close>: the bytes of the account are exactly the encoding, whose length
  depends on the value.
\<close>

locale exact_codec =
  fixes c :: "'a codec" and ok :: "'a \<Rightarrow> bool" and len :: "'a \<Rightarrow> nat"
  assumes dec_enc_exact: "ok x \<Longrightarrow> dec c (enc c x) = Some x"
    and dec_exact: "dec c data = Some x \<Longrightarrow> ok x \<and> data = enc c x"
    and enc_len: "ok x \<Longrightarrow> length (enc c x) = len x"
begin

lemma dec_len: "dec c data = Some x \<Longrightarrow> length data = len x"
  using dec_exact enc_len by blast

end

section \<open>The layout of fixed-size fields\<close>

fun le_val :: "bytes \<Rightarrow> int" where
  "le_val [] = 0"
| "le_val (b # bs) = uint b + 256 * le_val bs"

lemma le_bytes_Suc: "le_bytes (Suc n) x = word_of_int x # le_bytes n (x div 256)"
proof -
  have "map (\<lambda>i. word_of_int (x div 256 ^ i)) [0..<Suc n] =
      word_of_int x # map ((\<lambda>i. word_of_int (x div 256 ^ i)) \<circ> Suc) [0..<n]"
    by (simp add: upt_rec [of 0 "Suc n"] map_Suc_upt [symmetric] del: upt_Suc)
  then show ?thesis by (simp add: le_bytes_def comp_def zdiv_zmult2_eq del: upt_Suc)
qed

lemma le_val_le_bytes: "le_val (le_bytes n x) = x mod 256 ^ n"
proof (induction n arbitrary: x)
  case 0
  then show ?case by (simp add: le_bytes_def)
next
  case (Suc n)
  have "x mod 256 ^ Suc n = 256 * (x div 256 mod 256 ^ n) + x mod 256" using zmod_zmult2_eq [of "256 ^ n" x 256] by simp
  then show ?case by (simp add: le_bytes_Suc Suc.IH uint_word_of_int take_bit_eq_mod)
qed

lemma le_val_range: "0 \<le> le_val bs" "le_val bs < 256 ^ length bs"
proof -
  have "0 \<le> le_val bs \<and> le_val bs < 256 ^ length bs"
  proof (induction bs)
    case (Cons b bs)
    have "uint b < 256" using uint_lt2p [of b] by simp
    then show ?case using Cons by auto
  qed simp
  then show "0 \<le> le_val bs" "le_val bs < 256 ^ length bs" by auto
qed

definition field :: "nat \<Rightarrow> nat \<Rightarrow> bytes \<Rightarrow> bytes" where
  "field off n data = take n (drop off data)"

definition u_field :: "nat \<Rightarrow> nat \<Rightarrow> bytes \<Rightarrow> nat" where
  "u_field off n data = nat (le_val (field off n data))"

definition i64_field :: "nat \<Rightarrow> bytes \<Rightarrow> int" where
  "i64_field off data = (let v = le_val (field off 8 data) in if v < 2 ^ 63 then v else v - 2 ^ 64)"

definition bool_byte :: "bool \<Rightarrow> bytes" where
  "bool_byte b = [if b then 1 else 0]"

lemma field_append [simp]:
  "length xs = off \<Longrightarrow> length ys = n \<Longrightarrow> field off n (xs @ ys @ zs) = ys"
  by (simp add: field_def)

lemma length_bool_byte [simp]: "length (bool_byte b) = 1"
  by (simp add: bool_byte_def)

lemma u_field_bytes:
  assumes "length xs = off" "x < 256 ^ n"
  shows "u_field off n (xs @ le_bytes n (int x) @ zs) = x"
proof -
  have "int x < 256 ^ n" using assms(2) by (metis of_nat_less_iff of_nat_numeral of_nat_power)
  then show ?thesis using assms(1) by (simp add: u_field_def le_val_le_bytes)
qed

lemma i64_field_bytes:
  assumes "length xs = off" "- (2 ^ 63) \<le> x" "x < 2 ^ 63"
  shows "i64_field off (xs @ le_bytes 8 x @ zs) = x"
proof -
  have "x mod 256 ^ 8 = (if x < 0 then x + 2 ^ 64 else x)"
  proof (cases "x < 0")
    case True
    then have "(x + 2 ^ 64) mod 2 ^ 64 = x + 2 ^ 64" using assms(2) by (intro mod_pos_pos_trivial) auto
    then show ?thesis using True by simp
  qed (use assms(3) in simp)
  then show ?thesis using assms by (simp add: i64_field_def le_val_le_bytes Let_def)
qed

text \<open>Reading a field skips the fields before it, and then takes what was written.\<close>

lemma field_skip: "length xs \<le> off \<Longrightarrow> field off n (xs @ ys) = field (off - length xs) n ys"
  by (simp add: field_def)

lemma u_field_skip: "length xs \<le> off \<Longrightarrow> u_field off n (xs @ ys) = u_field (off - length xs) n ys"
  by (simp add: u_field_def field_skip)

lemma i64_field_skip: "length xs \<le> off \<Longrightarrow> i64_field off (xs @ ys) = i64_field (off - length xs) ys"
  by (simp add: i64_field_def field_skip)

lemma field_take: "length xs = n \<Longrightarrow> field 0 n (xs @ ys) = xs"
  by (simp add: field_def)

lemma u_field_take: "x < 256 ^ n \<Longrightarrow> u_field 0 n (le_bytes n (int x) @ ys) = x"
  using u_field_bytes [of "[]" 0 x n ys] by simp

lemma i64_field_take: "- (2 ^ 63) \<le> x \<Longrightarrow> x < 2 ^ 63 \<Longrightarrow> i64_field 0 (le_bytes 8 x @ ys) = x"
  using i64_field_bytes [of "[]" 0 x ys] by simp

text \<open>Bytes are the little-endian form of the number they read as, and a buffer is its fields.\<close>

lemma le_bytes_le_val: "le_bytes (length bs) (le_val bs) = bs"
proof (induction bs)
  case (Cons b bs)
  have "uint b < 256" "0 \<le> uint b" using uint_lt2p [of b] by simp_all
  then have "(uint b + 256 * le_val bs) div 256 = le_val bs" by (simp add: div_mult_self2)
  moreover have z: "(256 :: u8) = 0" by code_simp
  have "word_of_int (uint b + 256 * le_val bs) = b"
    by (simp only: of_int_add of_int_mult of_int_numeral z mult_zero_left add_0_right word_of_int_uint)
  ultimately show ?case using Cons by (simp add: le_bytes_Suc)
qed (simp add: le_bytes_def)

lemma le_bytes_u_field: "off + n \<le> length d \<Longrightarrow> le_bytes n (int (u_field off n d)) = field off n d"
  using le_bytes_le_val [of "field off n d"] le_val_range(1) [of "field off n d"] by (simp add: u_field_def field_def)

lemma field_cat: "field off a d @ field (off + a) b d = field off (a + b) d"
  by (simp add: field_def take_add add.commute)

lemma field_all: "length d = n \<Longrightarrow> field 0 n d = d"
  by (simp add: field_def)

lemma bool_byte_inj [simp]: "bool_byte a = bool_byte b \<longleftrightarrow> a = b"
  by (auto simp: bool_byte_def)

lemmas read_fields = field_skip u_field_skip i64_field_skip field_take u_field_take i64_field_take

lemma u_field_range: "off + n \<le> length data \<Longrightarrow> u_field off n data < 256 ^ n"
  using le_val_range [of "field off n data"] by (simp add: u_field_def field_def nat_less_iff)

lemma i64_field_range: "off + 8 \<le> length data \<Longrightarrow> - (2 ^ 63) \<le> i64_field off data \<and> i64_field off data < 2 ^ 63"
  using le_val_range [of "field off 8 data"] by (simp add: i64_field_def field_def Let_def)

section \<open>Handlers\<close>

record Clock =
  epoch :: u64
  unix_timestamp :: i64

text \<open>
  The state a handler has reached: well formed, and an allowed effect of the instruction so far.
\<close>

definition reached :: "InstructionContext \<Rightarrow> TransactionContext \<Rightarrow> TransactionContext \<Rightarrow> bool" where
  "reached ix tx0 tx \<longleftrightarrow> tx_wf tx \<and> allowed_effect ix tx0 tx"

lemma reached_start: "tx_wf tx \<Longrightarrow> reached ix tx tx"
  by (simp add: reached_def)

lemma reached_allowed: "reached ix tx0 tx \<Longrightarrow> allowed_effect ix tx0 tx"
  by (simp add: reached_def)

lemma reached_step: "reached ix tx0 tx \<Longrightarrow> allowed_effect ix tx tx' \<Longrightarrow> reached ix tx0 tx'"
  unfolding reached_def using allowed_trans allowed_wf by blast

named_theorems reached_op \<open>operations keep the state reached\<close>

lemma reached_add [reached_op]:
  "checked_add_lamports ix ia l tx = Inr tx' \<Longrightarrow> ia \<in> set (instruction_accounts ix) \<Longrightarrow> reached ix tx0 tx \<Longrightarrow> reached ix tx0 tx'"
  by (rule reached_step) (auto simp: reached_def intro: op_allowed)

lemma reached_sub [reached_op]:
  "checked_sub_lamports ix ia l tx = Inr tx' \<Longrightarrow> ia \<in> set (instruction_accounts ix) \<Longrightarrow> reached ix tx0 tx \<Longrightarrow> reached ix tx0 tx'"
  by (rule reached_step) (auto simp: reached_def intro: op_allowed)

lemma reached_set_data [reached_op]:
  "set_data_from_slice ix ia d tx = Inr tx' \<Longrightarrow> ia \<in> set (instruction_accounts ix) \<Longrightarrow> reached ix tx0 tx \<Longrightarrow> reached ix tx0 tx'"
  by (rule reached_step) (auto simp: reached_def intro: op_allowed)

section \<open>What the operations leave alone\<close>

lemma set_lamports_frame:
  assumes "tx_wf tx" "set_lamports ix ia l tx = Inr tx'"
  shows "acct tx' j = (if j = index_in_transaction ia then (acct tx j)\<lparr> lamports := l \<rparr> else acct tx j)"
proof (cases "get_lamports tx ia = l")
  case True
  then show ?thesis using assms(2) by (auto simp: set_lamports_def get_lamports_def split: if_splits)
next
  case False
  then obtain tx1 tx2 where t: "add_lamports_delta (int l - int (get_lamports tx ia)) tx = Inr tx1"
    "tx_touch (index_in_transaction ia) tx1 = Inr tx2"
    "tx' = set_acct (index_in_transaction ia) ((acct tx2 (index_in_transaction ia))\<lparr> lamports := l \<rparr>) tx2"
    using assms(2) by (auto simp: set_lamports_def split: if_splits)
  then show ?thesis using assms(1) add_lamports_delta_Inr [OF t(1)]
    by (auto simp: tx_touch_Inr tx_wf_def acct_set_acct)
qed

lemma add_lamports_frame:
  "tx_wf tx \<Longrightarrow> checked_add_lamports ix ia l tx = Inr tx' \<Longrightarrow>
   acct tx' j = (if j = index_in_transaction ia then (acct tx j)\<lparr> lamports := lamports (acct tx j) + l \<rparr> else acct tx j)"
  by (auto simp: checked_add_lamports_def set_lamports_frame get_lamports_def)

lemma sub_lamports_frame:
  "tx_wf tx \<Longrightarrow> checked_sub_lamports ix ia l tx = Inr tx' \<Longrightarrow>
   acct tx' j = (if j = index_in_transaction ia then (acct tx j)\<lparr> lamports := lamports (acct tx j) - l \<rparr> else acct tx j)"
  by (auto simp: checked_sub_lamports_def set_lamports_frame get_lamports_def)

lemma set_data_frame:
  "tx_wf tx \<Longrightarrow> set_data_from_slice ix ia d tx = Inr tx' \<Longrightarrow>
   acct tx' j = (if j = index_in_transaction ia then (acct tx j)\<lparr> acc_data := d \<rparr> else acct tx j)"
  by (auto simp: set_data_from_slice_def tx_touch_Inr put_data_def tx_update_resize_delta_def tx_wf_def acct_set_acct)

lemma add_lamports_data:
  "reached ix tx0 tx \<Longrightarrow> checked_add_lamports ix ia l tx = Inr tx' \<Longrightarrow> acc_data (acct tx' j) = acc_data (acct tx j)"
  using add_lamports_frame [of tx ix ia l tx' j] by (simp add: reached_def)

lemma sub_lamports_data:
  "reached ix tx0 tx \<Longrightarrow> checked_sub_lamports ix ia l tx = Inr tx' \<Longrightarrow> acc_data (acct tx' j) = acc_data (acct tx j)"
  using sub_lamports_frame [of tx ix ia l tx' j] by (simp add: reached_def)

lemma set_data_data:
  "reached ix tx0 tx \<Longrightarrow> set_data_from_slice ix ia d tx = Inr tx' \<Longrightarrow>
   acc_data (acct tx' j) = (if j = index_in_transaction ia then d else acc_data (acct tx j))"
  using set_data_frame [of tx ix ia d tx' j] by (simp add: reached_def)

lemma signer_key:
  assumes "is_instruction_account_signer ix i = Inr True" "get_key_of_instruction_account ix tx i = Inr k"
  shows "\<exists>ia \<in> set (instruction_accounts ix). is_signer ia \<and> account_key tx (index_in_transaction ia) = Some k"
  using assms by (auto simp: is_instruction_account_signer_def get_key_of_instruction_account_def
      get_index_of_instruction_account_in_transaction_def get_key_of_account_at_index_def)

definition signed_by :: "InstructionContext \<Rightarrow> TransactionContext \<Rightarrow> pubkey \<Rightarrow> bool" where
  "signed_by ix tx k \<longleftrightarrow>
     list_ex (\<lambda>ia. is_signer ia \<and> account_key tx (index_in_transaction ia) = Some k) (instruction_accounts ix)"

lemma signed_byI:
  "is_instruction_account_signer ix i = Inr True \<Longrightarrow> get_key_of_instruction_account ix tx i = Inr k \<Longrightarrow> signed_by ix tx k"
  using signer_key [of ix i tx k] by (auto simp: signed_by_def list_ex_iff)

lemma borrow_same:
  "try_borrow_instruction_account ix tx i = Inr ia \<Longrightarrow> try_borrow_instruction_account ix tx' i = Inr ia' \<Longrightarrow> ia' = ia"
  by (auto dest!: borrow_Inr)

text \<open>All data but that of one account \<open>i\<close>, which becomes \<open>d\<close>.\<close>

definition only_data :: "TransactionContext \<Rightarrow> TransactionContext \<Rightarrow> nat \<Rightarrow> bytes \<Rightarrow> bool" where
  "only_data tx tx' i d \<longleftrightarrow> (\<forall>j. acc_data (acct tx' j) = (if j = i then d else acc_data (acct tx j)))"

text \<open>The definitions that evaluate a handler on concrete accounts.\<close>

lemmas handler_eval = TransactionAccounts_new_def nth_opt_def acct_def set_acct_def
  get_data_def get_owner_def get_lamports_def account_key_def get_key_of_account_at_index_def
  get_index_of_instruction_account_in_transaction_def get_key_of_instruction_account_def
  is_instruction_account_signer_def check_number_of_instruction_accounts_def try_borrow_instruction_account_def
  tx_try_borrow_mut_def set_data_from_slice_def can_data_be_resized_def tx_can_data_be_resized_def
  can_data_be_changed_def is_owned_by_current_program_def tx_touch_def put_data_def tx_update_resize_delta_def
  checked_sub_lamports_def checked_add_lamports_def set_lamports_def add_lamports_delta_def checked_iadd_def
  checked_add_def checked_sub_def sat_iadd_def MAX_ACCOUNT_DATA_LEN_def MAX_ACCOUNT_DATA_GROWTH_PER_TRANSACTION_def
  Let_def default_account_def

end
