(* ===== verification/Passive_Stake.thy ===== *)
theory Passive_Stake
  imports Account_Data
begin

text \<open>
  The passive-stake program, \<^verbatim>\<open>programs/passive-stake/src\<close>: tiers, stake positions and the five
  instructions. The Borsh codec of the position, the bincode decoder of the instruction data and the
  clock sysvar are parameters. Log messages and the compute budget are left out.

  Shown: the rules under which a position can be closed, for every sequence of instructions; the exact
  epoch rewards; the round trip of the stored position; every instruction obeys the account rules.
\<close>

section \<open>Constants\<close>

definition SECONDS_PER_DAY :: i64 where "SECONDS_PER_DAY = 86400"
definition BPS_DENOMINATOR :: u64 where "BPS_DENOMINATOR = 10000"
definition PERMANENT_LOCK_DAYS :: u64 where "PERMANENT_LOCK_DAYS = umax 64"

definition TIER_NO_LOCK :: u64 where "TIER_NO_LOCK = 0"
definition TIER_30_DAY :: u64 where "TIER_30_DAY = 30"
definition TIER_90_DAY :: u64 where "TIER_90_DAY = 90"
definition TIER_180_DAY :: u64 where "TIER_180_DAY = 180"
definition TIER_360_DAY :: u64 where "TIER_360_DAY = 360"

definition reward_rate_bps_for_tier :: "u64 \<Rightarrow> u64 option" where
  "reward_rate_bps_for_tier d =
     (if d = TIER_NO_LOCK then Some 500 else if d = TIER_30_DAY then Some 1000
      else if d = TIER_90_DAY then Some 2000 else if d = TIER_180_DAY then Some 3000
      else if d = TIER_360_DAY then Some 5000 else if d = PERMANENT_LOCK_DAYS then Some 12000 else None)"

definition vote_weight_bps_for_tier :: "u64 \<Rightarrow> u16 option" where
  "vote_weight_bps_for_tier d =
     (if d = TIER_NO_LOCK then Some 0 else if d = TIER_30_DAY then Some 1000
      else if d = TIER_90_DAY then Some 2000 else if d = TIER_180_DAY then Some 3000
      else if d = TIER_360_DAY then Some 5000 else if d = PERMANENT_LOCK_DAYS then Some 15000 else None)"

definition early_unlock_penalty_bps_for_tier :: "u64 \<Rightarrow> u64 option" where
  "early_unlock_penalty_bps_for_tier d =
     (if d = TIER_NO_LOCK then Some 0 else if d = TIER_30_DAY then Some 250
      else if d = TIER_90_DAY then Some 500 else if d = TIER_180_DAY then Some 750
      else if d = TIER_360_DAY then Some 1250 else None)"

definition is_valid_tier :: "u64 \<Rightarrow> bool" where
  "is_valid_tier d \<longleftrightarrow> d = TIER_NO_LOCK \<or> d = TIER_30_DAY \<or> d = TIER_90_DAY \<or> d = TIER_180_DAY
     \<or> d = TIER_360_DAY \<or> d = PERMANENT_LOCK_DAYS"

lemmas tier_defs = TIER_NO_LOCK_def TIER_30_DAY_def TIER_90_DAY_def TIER_180_DAY_def TIER_360_DAY_def
  PERMANENT_LOCK_DAYS_def umax_def

text \<open>\<^verbatim>\<open>declare_id!\<close>: the bytes of \<^verbatim>\<open>Pass1veStake1111111111111111111111111111111\<close> in base 58.\<close>

definition passive_stake_id :: pubkey where
  "passive_stake_id = [5, 201, 21, 35, 152, 112, 157, 76, 200, 247, 214, 172, 61, 201, 199, 176,
     38, 54, 164, 13, 246, 38, 161, 231, 80, 100, 252, 189, 128, 0, 0, 0]"

section \<open>State\<close>

datatype PassiveStakeError =
    InvalidLockTier | LockNotExpired | EarlyUnlockNotAllowed | InvalidAccountOwner | MissingAuthoritySignature
  | InsufficientLamports | PsArithmeticOverflow | InvalidAccountData | ZeroStakeAmount | NoRewardsToClaim
  | AccountAlreadyInitialized | NotRentExempt

text \<open>The blanket conversion into \<^verbatim>\<open>InstructionError::Custom\<close> uses the position in the enumeration.\<close>

fun ps_err :: "PassiveStakeError \<Rightarrow> InstructionError" where
  "ps_err InvalidLockTier = Custom 0"
| "ps_err LockNotExpired = Custom 1"
| "ps_err EarlyUnlockNotAllowed = Custom 2"
| "ps_err InvalidAccountOwner = Custom 3"
| "ps_err MissingAuthoritySignature = Custom 4"
| "ps_err InsufficientLamports = Custom 5"
| "ps_err PsArithmeticOverflow = Custom 6"
| "ps_err InvalidAccountData = Custom 7"
| "ps_err ZeroStakeAmount = Custom 8"
| "ps_err NoRewardsToClaim = Custom 9"
| "ps_err AccountAlreadyInitialized = Custom 10"
| "ps_err NotRentExempt = Custom 11"

definition PASSIVE_STAKE_ACCOUNT_DISCRIMINATOR :: u8 where
  "PASSIVE_STAKE_ACCOUNT_DISCRIMINATOR = 1"

record PassiveStakeAccount =
  authority :: pubkey
  amount :: u64
  lock_days :: u64
  lock_start :: i64
  lock_end :: i64
  unclaimed_rewards :: u64
  last_reward_epoch :: u64
  is_permanent :: bool
  vote_weight_bps :: u16

definition PS_SERIALIZED_SIZE :: nat where
  "PS_SERIALIZED_SIZE = 1 + 32 + 8 + 8 + 8 + 8 + 8 + 8 + 1 + 2"

definition ps_deserialize :: "PassiveStakeAccount codec \<Rightarrow> bytes \<Rightarrow> PassiveStakeAccount option" where
  "ps_deserialize c data = state_deserialize PASSIVE_STAKE_ACCOUNT_DISCRIMINATOR c data"

definition ps_serialize_into :: "PassiveStakeAccount codec \<Rightarrow> PassiveStakeAccount \<Rightarrow> bytes \<Rightarrow> bytes option" where
  "ps_serialize_into c st data =
     state_serialize_into PASSIVE_STAKE_ACCOUNT_DISCRIMINATOR PS_SERIALIZED_SIZE c st data"

datatype PassiveStakeInstruction =
    InitializePassiveStake u64 u64
  | ClaimRewards
  | Unlock
  | EarlyUnlock
  | CalculateEpochRewards u64 u64

section \<open>Handlers\<close>

text \<open>The end of a lock, and whether it is permanent.\<close>

definition compute_lock_end :: "u64 \<Rightarrow> i64 \<Rightarrow> InstructionError + i64 \<times> bool" where
  "compute_lock_end days now =
     (if days = PERMANENT_LOCK_DAYS then Inr (0, True)
      else if days = TIER_NO_LOCK then Inr (0, False)
      else res_bind (ok_or (ps_err PsArithmeticOverflow) (checked_imul 64 (int days) SECONDS_PER_DAY)) (\<lambda>secs.
        res_bind (ok_or (ps_err PsArithmeticOverflow) (checked_iadd 64 now secs)) (\<lambda>e. Inr (e, False))))"

definition process_initialize_passive_stake ::
    "PassiveStakeAccount codec \<Rightarrow> (InstructionError + Clock) \<Rightarrow> u64 \<Rightarrow> u64 \<Rightarrow> InstructionContext \<Rightarrow> TransactionContext \<Rightarrow>
     InstructionError + TransactionContext" where
  "process_initialize_passive_stake c get_clock days amt ix tx =
     (if \<not> is_valid_tier days then Inl (ps_err InvalidLockTier)
      else if amt = 0 then Inl (ps_err ZeroStakeAmount)
      else
        res_bind (check_number_of_instruction_accounts ix 2) (\<lambda>_.
        res_bind (is_instruction_account_signer ix 0) (\<lambda>signed.
        if \<not> signed then Inl (ps_err MissingAuthoritySignature)
        else
        res_bind (get_key_of_instruction_account ix tx 0) (\<lambda>authority_pubkey.
        res_bind (try_borrow_instruction_account ix tx 1) (\<lambda>stake.
        if get_owner tx stake \<noteq> passive_stake_id then Inl (ps_err InvalidAccountOwner)
        else if get_data tx stake \<noteq> [] \<and> hd (get_data tx stake) = PASSIVE_STAKE_ACCOUNT_DISCRIMINATOR
          then Inl (ps_err AccountAlreadyInitialized)
        else
        res_bind (try_borrow_instruction_account ix tx 0) (\<lambda>auth.
        if get_lamports tx auth < amt then Inl (ps_err InsufficientLamports)
        else
        res_bind (checked_sub_lamports ix auth amt tx) (\<lambda>tx.
        res_bind (try_borrow_instruction_account ix tx 1) (\<lambda>stake.
        res_bind (checked_add_lamports ix stake amt tx) (\<lambda>tx.
        res_bind get_clock (\<lambda>clock.
        res_bind (compute_lock_end days (unix_timestamp clock)) (\<lambda>(lend, perm).
        res_bind (ok_or (ps_err InvalidLockTier) (vote_weight_bps_for_tier days)) (\<lambda>vote_weight.
        let state = \<lparr> authority = authority_pubkey, amount = amt, lock_days = days,
                      lock_start = unix_timestamp clock, lock_end = lend, unclaimed_rewards = 0,
                      last_reward_epoch = epoch clock, is_permanent = perm, vote_weight_bps = vote_weight \<rparr> in
        res_bind (try_borrow_instruction_account ix tx 1) (\<lambda>stake.
        let data = get_data tx stake;
            data = (if length data < PS_SERIALIZED_SIZE then resized PS_SERIALIZED_SIZE data else data) in
        res_bind (ok_or (ps_err InvalidAccountData) (ps_serialize_into c state data)) (\<lambda>data.
        set_data_from_slice ix stake data tx))))))))))))))"

definition process_claim_rewards ::
    "PassiveStakeAccount codec \<Rightarrow> InstructionContext \<Rightarrow> TransactionContext \<Rightarrow> InstructionError + TransactionContext" where
  "process_claim_rewards c ix tx =
     res_bind (check_number_of_instruction_accounts ix 3) (\<lambda>_.
     res_bind (is_instruction_account_signer ix 0) (\<lambda>signed.
     if \<not> signed then Inl (ps_err MissingAuthoritySignature)
     else
     res_bind (get_key_of_instruction_account ix tx 0) (\<lambda>authority_pubkey.
     res_bind (try_borrow_instruction_account ix tx 1) (\<lambda>stake.
     if get_owner tx stake \<noteq> passive_stake_id then Inl (ps_err InvalidAccountOwner)
     else
     res_bind (ok_or (ps_err InvalidAccountData) (ps_deserialize c (get_data tx stake))) (\<lambda>state.
     if authority state \<noteq> authority_pubkey then Inl (ps_err MissingAuthoritySignature)
     else if unclaimed_rewards state = 0 then Inl (ps_err NoRewardsToClaim)
     else
     let rewards_to_claim = unclaimed_rewards state;
         state = state\<lparr> unclaimed_rewards := 0 \<rparr> in
     res_bind (ok_or (ps_err InvalidAccountData) (ps_serialize_into c state (get_data tx stake))) (\<lambda>buf.
     res_bind (set_data_from_slice ix stake buf tx) (\<lambda>tx.
     res_bind (try_borrow_instruction_account ix tx 2) (\<lambda>pool.
     if get_lamports tx pool < rewards_to_claim then Inl (ps_err InsufficientLamports)
     else
     res_bind (checked_sub_lamports ix pool rewards_to_claim tx) (\<lambda>tx.
     res_bind (try_borrow_instruction_account ix tx 0) (\<lambda>auth.
     checked_add_lamports ix auth rewards_to_claim tx))))))))))"

text \<open>The lock of a position has run out.\<close>

definition lock_expired :: "(InstructionError + Clock) \<Rightarrow> PassiveStakeAccount \<Rightarrow> InstructionError + unit" where
  "lock_expired get_clock state =
     (if lock_days state \<noteq> TIER_NO_LOCK
      then res_bind get_clock (\<lambda>clock.
        if unix_timestamp clock < lock_end state then Inl (ps_err LockNotExpired) else Inr ())
      else Inr ())"

definition process_unlock ::
    "PassiveStakeAccount codec \<Rightarrow> (InstructionError + Clock) \<Rightarrow> InstructionContext \<Rightarrow> TransactionContext \<Rightarrow>
     InstructionError + TransactionContext" where
  "process_unlock c get_clock ix tx =
     res_bind (check_number_of_instruction_accounts ix 2) (\<lambda>_.
     res_bind (is_instruction_account_signer ix 0) (\<lambda>signed.
     if \<not> signed then Inl (ps_err MissingAuthoritySignature)
     else
     res_bind (get_key_of_instruction_account ix tx 0) (\<lambda>authority_pubkey.
     res_bind (try_borrow_instruction_account ix tx 1) (\<lambda>stake.
     if get_owner tx stake \<noteq> passive_stake_id then Inl (ps_err InvalidAccountOwner)
     else
     res_bind (ok_or (ps_err InvalidAccountData) (ps_deserialize c (get_data tx stake))) (\<lambda>state.
     if authority state \<noteq> authority_pubkey then Inl (ps_err MissingAuthoritySignature)
     else if is_permanent state then Inl (ps_err EarlyUnlockNotAllowed)
     else
     res_bind (lock_expired get_clock state) (\<lambda>_.
     let principal = amount state in
     res_bind (set_data_from_slice ix stake (replicate (length (get_data tx stake)) 0) tx) (\<lambda>tx.
     res_bind (checked_sub_lamports ix stake (get_lamports tx stake) tx) (\<lambda>tx.
     res_bind (try_borrow_instruction_account ix tx 0) (\<lambda>auth.
     checked_add_lamports ix auth principal tx)))))))))"

definition early_unlock_penalty :: "PassiveStakeAccount \<Rightarrow> InstructionError + u64" where
  "early_unlock_penalty state =
     res_bind (ok_or (ps_err InvalidLockTier) (early_unlock_penalty_bps_for_tier (lock_days state))) (\<lambda>bps.
     res_bind (ok_or (ps_err PsArithmeticOverflow) (checked_mul 64 (amount state) bps)) (\<lambda>x.
     ok_or (ps_err PsArithmeticOverflow) (checked_div x BPS_DENOMINATOR)))"

definition process_early_unlock ::
    "PassiveStakeAccount codec \<Rightarrow> InstructionContext \<Rightarrow> TransactionContext \<Rightarrow> InstructionError + TransactionContext" where
  "process_early_unlock c ix tx =
     res_bind (check_number_of_instruction_accounts ix 2) (\<lambda>_.
     res_bind (is_instruction_account_signer ix 0) (\<lambda>signed.
     if \<not> signed then Inl (ps_err MissingAuthoritySignature)
     else
     res_bind (get_key_of_instruction_account ix tx 0) (\<lambda>authority_pubkey.
     res_bind (try_borrow_instruction_account ix tx 1) (\<lambda>stake.
     if get_owner tx stake \<noteq> passive_stake_id then Inl (ps_err InvalidAccountOwner)
     else
     res_bind (ok_or (ps_err InvalidAccountData) (ps_deserialize c (get_data tx stake))) (\<lambda>state.
     if authority state \<noteq> authority_pubkey then Inl (ps_err MissingAuthoritySignature)
     else if is_permanent state then Inl (ps_err EarlyUnlockNotAllowed)
     else
     res_bind (early_unlock_penalty state) (\<lambda>penalty.
     res_bind (ok_or (ps_err PsArithmeticOverflow) (checked_sub (amount state) penalty)) (\<lambda>return_amount.
     res_bind (set_data_from_slice ix stake (replicate (length (get_data tx stake)) 0) tx) (\<lambda>tx.
     res_bind (checked_sub_lamports ix stake (get_lamports tx stake) tx) (\<lambda>tx.
     res_bind (try_borrow_instruction_account ix tx 0) (\<lambda>auth.
     checked_add_lamports ix auth return_amount tx))))))))))"

text \<open>The rewards of the epochs since the last calculation.\<close>

definition new_epoch_rewards :: "PassiveStakeAccount \<Rightarrow> u64 \<Rightarrow> u64 \<Rightarrow> InstructionError + u64" where
  "new_epoch_rewards state current_epoch validator_reward_rate =
     res_bind (ok_or (ps_err PsArithmeticOverflow) (checked_sub current_epoch (last_reward_epoch state))) (\<lambda>epochs_elapsed.
     res_bind (ok_or (ps_err InvalidLockTier) (reward_rate_bps_for_tier (lock_days state))) (\<lambda>t_rate.
     res_bind (ok_or (ps_err PsArithmeticOverflow) (checked_mul 128 BPS_DENOMINATOR BPS_DENOMINATOR)) (\<lambda>d.
     res_bind (ok_or (ps_err PsArithmeticOverflow) (checked_mul 128 d 365)) (\<lambda>denom.
     res_bind (ok_or (ps_err PsArithmeticOverflow) (checked_mul 128 (amount state) validator_reward_rate)) (\<lambda>x.
     res_bind (ok_or (ps_err PsArithmeticOverflow) (checked_mul 128 x t_rate)) (\<lambda>y.
     res_bind (ok_or (ps_err PsArithmeticOverflow) (checked_div y denom)) (\<lambda>reward_per_epoch.
     res_bind (ok_or (ps_err PsArithmeticOverflow) (checked_mul 128 reward_per_epoch epochs_elapsed)) (\<lambda>total_new.
     Inr (min total_new (umax 64))))))))))"

definition process_calculate_epoch_rewards ::
    "PassiveStakeAccount codec \<Rightarrow> u64 \<Rightarrow> u64 \<Rightarrow> InstructionContext \<Rightarrow> TransactionContext \<Rightarrow>
     InstructionError + TransactionContext" where
  "process_calculate_epoch_rewards c current_epoch validator_reward_rate ix tx =
     res_bind (check_number_of_instruction_accounts ix 1) (\<lambda>_.
     res_bind (try_borrow_instruction_account ix tx 0) (\<lambda>stake.
     if get_owner tx stake \<noteq> passive_stake_id then Inl (ps_err InvalidAccountOwner)
     else
     res_bind (ok_or (ps_err InvalidAccountData) (ps_deserialize c (get_data tx stake))) (\<lambda>state.
     if current_epoch \<le> last_reward_epoch state then Inr tx
     else
     res_bind (new_epoch_rewards state current_epoch validator_reward_rate) (\<lambda>new_rewards.
     res_bind (ok_or (ps_err PsArithmeticOverflow) (checked_add 64 (unclaimed_rewards state) new_rewards)) (\<lambda>unclaimed.
     let state = state\<lparr> unclaimed_rewards := unclaimed, last_reward_epoch := current_epoch \<rparr> in
     res_bind (ok_or (ps_err InvalidAccountData) (ps_serialize_into c state (get_data tx stake))) (\<lambda>buf.
     set_data_from_slice ix stake buf tx))))))"

fun ps_dispatch ::
    "PassiveStakeAccount codec \<Rightarrow> (InstructionError + Clock) \<Rightarrow> PassiveStakeInstruction \<Rightarrow> InstructionContext \<Rightarrow> TransactionContext \<Rightarrow>
     InstructionError + TransactionContext" where
  "ps_dispatch c clk (InitializePassiveStake days amt) ix tx = process_initialize_passive_stake c clk days amt ix tx"
| "ps_dispatch c clk ClaimRewards ix tx = process_claim_rewards c ix tx"
| "ps_dispatch c clk Unlock ix tx = process_unlock c clk ix tx"
| "ps_dispatch c clk EarlyUnlock ix tx = process_early_unlock c ix tx"
| "ps_dispatch c clk (CalculateEpochRewards e r) ix tx = process_calculate_epoch_rewards c e r ix tx"

definition ps_entrypoint ::
    "(bytes \<Rightarrow> PassiveStakeInstruction option) \<Rightarrow> PassiveStakeAccount codec \<Rightarrow> (InstructionError + Clock) \<Rightarrow>
     bytes \<Rightarrow> InstructionContext \<Rightarrow> TransactionContext \<Rightarrow> InstructionError + TransactionContext" where
  "ps_entrypoint limited_deserialize c clk instruction_data ix tx =
     res_bind (ok_or InvalidInstructionData (limited_deserialize instruction_data)) (\<lambda>ins.
     ps_dispatch c clk ins ix tx)"

section \<open>Account rules\<close>

lemma ps_reached:
  "reached ix tx0 tx \<Longrightarrow> ps_dispatch c clk ins ix tx = Inr tx' \<Longrightarrow> reached ix tx0 tx'"
  by (cases ins; auto simp: process_initialize_passive_stake_def process_claim_rewards_def process_unlock_def
      process_early_unlock_def process_calculate_epoch_rewards_def Let_def dest!: borrow_mem
      split: if_splits prod.splits; blast intro: reached_op)

interpretation passive_stake: account_program "ps_dispatch c clk" for c clk
  by unfold_locales (blast intro: reached_allowed ps_reached reached_start)

section \<open>What each instruction does to the stored data\<close>

lemma initialize_data:
  assumes "tx_wf tx" "process_initialize_passive_stake c clk days amt ix tx = Inr tx'"
  obtains stake d where "get_data tx stake = [] \<or> hd (get_data tx stake) \<noteq> PASSIVE_STAKE_ACCOUNT_DISCRIMINATOR"
    "only_data tx tx' (index_in_transaction stake) d"
proof -
  from assms(2) obtain stake auth tx1 tx2 d stake1 stake2 where
    h: "try_borrow_instruction_account ix tx 1 = Inr stake" "try_borrow_instruction_account ix tx 0 = Inr auth"
      "checked_sub_lamports ix auth amt tx = Inr tx1" "try_borrow_instruction_account ix tx1 1 = Inr stake1"
      "checked_add_lamports ix stake1 amt tx1 = Inr tx2" "try_borrow_instruction_account ix tx2 1 = Inr stake2"
      "set_data_from_slice ix stake2 d tx2 = Inr tx'"
    and u: "get_data tx stake = [] \<or> hd (get_data tx stake) \<noteq> PASSIVE_STAKE_ACCOUNT_DISCRIMINATOR"
    by (auto simp: process_initialize_passive_stake_def Let_def split: if_splits prod.splits)
  note r0 = reached_start [OF assms(1), of ix]
  note r1 = reached_sub [OF h(3) borrow_mem [OF h(2)] r0]
  note r2 = reached_add [OF h(5) borrow_mem [OF h(4)] r1]
  have "stake2 = stake" using borrow_same [OF h(1,6)] .
  then have "only_data tx tx' (index_in_transaction stake) d"
    using set_data_data [OF r2 h(7)] add_lamports_data [OF r1 h(5)] sub_lamports_data [OF r0 h(3)]
    by (simp add: only_data_def)
  then show thesis using that u by blast
qed

lemma claim_data:
  assumes "tx_wf tx" "process_claim_rewards c ix tx = Inr tx'"
  obtains stake st buf where "ps_deserialize c (get_data tx stake) = Some st" "signed_by ix tx (authority st)"
    "ps_serialize_into c (st\<lparr> unclaimed_rewards := 0 \<rparr>) (get_data tx stake) = Some buf"
    "only_data tx tx' (index_in_transaction stake) buf"
proof -
  from assms(2) obtain stake st buf tx1 pool tx2 auth where
    h: "is_instruction_account_signer ix 0 = Inr True" "get_key_of_instruction_account ix tx 0 = Inr (authority st)"
      "try_borrow_instruction_account ix tx 1 = Inr stake" "ps_deserialize c (get_data tx stake) = Some st"
      "ps_serialize_into c (st\<lparr> unclaimed_rewards := 0 \<rparr>) (get_data tx stake) = Some buf"
      "set_data_from_slice ix stake buf tx = Inr tx1" "try_borrow_instruction_account ix tx1 2 = Inr pool"
      "checked_sub_lamports ix pool (unclaimed_rewards st) tx1 = Inr tx2"
      "checked_add_lamports ix auth (unclaimed_rewards st) tx2 = Inr tx'"
    by (auto simp: process_claim_rewards_def Let_def split: if_splits)
  note r0 = reached_start [OF assms(1), of ix]
  note r1 = reached_set_data [OF h(6) borrow_mem [OF h(3)] r0]
  note r2 = reached_sub [OF h(8) borrow_mem [OF h(7)] r1]
  have "only_data tx tx' (index_in_transaction stake) buf"
    using set_data_data [OF r0 h(6)] sub_lamports_data [OF r1 h(8)] add_lamports_data [OF r2 h(9)]
    by (simp add: only_data_def)
  then show thesis using that h signed_byI [OF h(1,2)] by blast
qed

lemma unlock_data:
  assumes "tx_wf tx" "process_unlock c clk ix tx = Inr tx'"
  obtains stake st where "ps_deserialize c (get_data tx stake) = Some st" "signed_by ix tx (authority st)"
    "\<not> is_permanent st" "lock_expired clk st = Inr ()"
    "only_data tx tx' (index_in_transaction stake) (replicate (length (get_data tx stake)) 0)"
proof -
  from assms(2) obtain stake st tx1 tx2 auth where
    h: "is_instruction_account_signer ix 0 = Inr True" "get_key_of_instruction_account ix tx 0 = Inr (authority st)"
      "try_borrow_instruction_account ix tx 1 = Inr stake" "ps_deserialize c (get_data tx stake) = Some st"
      "\<not> is_permanent st" "lock_expired clk st = Inr ()"
      "set_data_from_slice ix stake (replicate (length (get_data tx stake)) 0) tx = Inr tx1"
      "checked_sub_lamports ix stake (get_lamports tx1 stake) tx1 = Inr tx2"
      "checked_add_lamports ix auth (amount st) tx2 = Inr tx'"
    by (auto simp: process_unlock_def Let_def split: if_splits)
  note r0 = reached_start [OF assms(1), of ix]
  note r1 = reached_set_data [OF h(7) borrow_mem [OF h(3)] r0]
  note r2 = reached_sub [OF h(8) borrow_mem [OF h(3)] r1]
  have "only_data tx tx' (index_in_transaction stake) (replicate (length (get_data tx stake)) 0)"
    using set_data_data [OF r0 h(7)] sub_lamports_data [OF r1 h(8)] add_lamports_data [OF r2 h(9)]
    by (simp add: only_data_def)
  then show thesis using that h signed_byI [OF h(1,2)] by blast
qed

lemma early_unlock_data:
  assumes "tx_wf tx" "process_early_unlock c ix tx = Inr tx'"
  obtains stake st where "ps_deserialize c (get_data tx stake) = Some st" "signed_by ix tx (authority st)"
    "\<not> is_permanent st" "only_data tx tx' (index_in_transaction stake) (replicate (length (get_data tx stake)) 0)"
proof -
  from assms(2) obtain stake st tx1 tx2 auth x where
    h: "is_instruction_account_signer ix 0 = Inr True" "get_key_of_instruction_account ix tx 0 = Inr (authority st)"
      "try_borrow_instruction_account ix tx 1 = Inr stake" "ps_deserialize c (get_data tx stake) = Some st"
      "\<not> is_permanent st"
      "set_data_from_slice ix stake (replicate (length (get_data tx stake)) 0) tx = Inr tx1"
      "checked_sub_lamports ix stake (get_lamports tx1 stake) tx1 = Inr tx2"
      "checked_add_lamports ix auth x tx2 = Inr tx'"
    by (auto simp: process_early_unlock_def Let_def split: if_splits)
  note r0 = reached_start [OF assms(1), of ix]
  note r1 = reached_set_data [OF h(6) borrow_mem [OF h(3)] r0]
  note r2 = reached_sub [OF h(7) borrow_mem [OF h(3)] r1]
  have "only_data tx tx' (index_in_transaction stake) (replicate (length (get_data tx stake)) 0)"
    using set_data_data [OF r0 h(6)] sub_lamports_data [OF r1 h(7)] add_lamports_data [OF r2 h(8)]
    by (simp add: only_data_def)
  then show thesis using that h signed_byI [OF h(1,2)] by blast
qed

lemma rewards_data:
  assumes "tx_wf tx" "process_calculate_epoch_rewards c e r ix tx = Inr tx'" "tx' \<noteq> tx"
  obtains stake st new buf where "ps_deserialize c (get_data tx stake) = Some st"
    "try_borrow_instruction_account ix tx 0 = Inr stake"
    "last_reward_epoch st < e" "new_epoch_rewards st e r = Inr new" "unclaimed_rewards st + new < 2 ^ 64"
    "ps_serialize_into c (st\<lparr> unclaimed_rewards := unclaimed_rewards st + new, last_reward_epoch := e \<rparr>) (get_data tx stake) = Some buf"
    "only_data tx tx' (index_in_transaction stake) buf"
proof -
  from assms(2,3) obtain stake st new buf where
    h: "try_borrow_instruction_account ix tx 0 = Inr stake" "ps_deserialize c (get_data tx stake) = Some st"
      "\<not> e \<le> last_reward_epoch st" "new_epoch_rewards st e r = Inr new" "unclaimed_rewards st + new < 2 ^ 64"
      "ps_serialize_into c (st\<lparr> unclaimed_rewards := unclaimed_rewards st + new, last_reward_epoch := e \<rparr>) (get_data tx stake) = Some buf"
      "set_data_from_slice ix stake buf tx = Inr tx'"
    by (auto simp: process_calculate_epoch_rewards_def Let_def split: if_splits)
  have "only_data tx tx' (index_in_transaction stake) buf"
    using set_data_data [OF reached_start [OF assms(1)] h(7)] by (simp add: only_data_def)
  then show thesis using that h by (metis not_le)
qed

section \<open>The stored position\<close>

text \<open>A position whose fields fit their types.\<close>

definition ps_ok :: "PassiveStakeAccount \<Rightarrow> bool" where
  "ps_ok s \<longleftrightarrow> length (authority s) = 32 \<and> amount s < 2 ^ 64 \<and> lock_days s < 2 ^ 64
     \<and> - (2 ^ 63) \<le> lock_start s \<and> lock_start s < 2 ^ 63 \<and> - (2 ^ 63) \<le> lock_end s \<and> lock_end s < 2 ^ 63
     \<and> unclaimed_rewards s < 2 ^ 64 \<and> last_reward_epoch s < 2 ^ 64 \<and> vote_weight_bps s < 2 ^ 16"

text \<open>The documented Borsh layout.\<close>

definition ps_borsh :: "PassiveStakeAccount codec" where
  "ps_borsh =
     \<lparr> enc = (\<lambda>s. authority s @ le_bytes 8 (int (amount s)) @ le_bytes 8 (int (lock_days s))
         @ le_bytes 8 (lock_start s) @ le_bytes 8 (lock_end s) @ le_bytes 8 (int (unclaimed_rewards s))
         @ le_bytes 8 (int (last_reward_epoch s)) @ bool_byte (is_permanent s) @ le_bytes 2 (int (vote_weight_bps s))),
       dec = (\<lambda>d. if length d < 83 \<or> field 80 1 d \<noteq> bool_byte True \<and> field 80 1 d \<noteq> bool_byte False then None
         else Some \<lparr> authority = field 0 32 d, amount = u_field 32 8 d, lock_days = u_field 40 8 d,
           lock_start = i64_field 48 d, lock_end = i64_field 56 d, unclaimed_rewards = u_field 64 8 d,
           last_reward_epoch = u_field 72 8 d, is_permanent = (field 80 1 d = bool_byte True),
           vote_weight_bps = u_field 81 2 d \<rparr>) \<rparr>"

lemma ps_borsh_dec_enc: "ps_ok s \<Longrightarrow> dec ps_borsh (enc ps_borsh s @ rest) = Some s"
  by (simp add: ps_borsh_def ps_ok_def read_fields)

interpretation ps_borsh: state_codec ps_borsh ps_ok 83
proof
  fix s rest
  show "ps_ok s \<Longrightarrow> dec ps_borsh (enc ps_borsh s @ rest) = Some s" by (rule ps_borsh_dec_enc)
  show "ps_ok s \<Longrightarrow> length (enc ps_borsh s) \<le> 83" by (simp add: ps_borsh_def ps_ok_def)
next
  fix data s
  assume "dec ps_borsh data = Some s"
  then show "ps_ok s"
    using u_field_range [of 32 8 data] u_field_range [of 40 8 data] u_field_range [of 64 8 data]
      u_field_range [of 72 8 data] u_field_range [of 81 2 data] i64_field_range [of 48 data] i64_field_range [of 56 data]
    by (auto simp: ps_borsh_def ps_ok_def field_def split: if_splits)
qed

section \<open>The life of a position\<close>

definition position_of :: "PassiveStakeAccount codec \<Rightarrow> TransactionContext \<Rightarrow> nat \<Rightarrow> PassiveStakeAccount option" where
  "position_of c tx i = ps_deserialize c (acc_data (acct tx i))"

text \<open>Everything but the unclaimed rewards is as before, and rewards are calculated for later epochs only.\<close>

definition same_terms :: "PassiveStakeAccount \<Rightarrow> PassiveStakeAccount \<Rightarrow> bool" where
  "same_terms s s' \<longleftrightarrow>
     s' = s\<lparr> unclaimed_rewards := unclaimed_rewards s', last_reward_epoch := last_reward_epoch s' \<rparr>
     \<and> last_reward_epoch s \<le> last_reward_epoch s'"

fun ins_ok :: "PassiveStakeInstruction \<Rightarrow> bool" where
  "ins_ok (InitializePassiveStake d a) = (d < 2 ^ 64 \<and> a < 2 ^ 64)"
| "ins_ok (CalculateEpochRewards e r) = (e < 2 ^ 64 \<and> r < 2 ^ 64)"
| "ins_ok _ = True"

lemma same_terms_refl [simp]: "same_terms s s"
  by (simp add: same_terms_def)

lemma same_terms_trans: "same_terms s s' \<Longrightarrow> same_terms s' s'' \<Longrightarrow> same_terms s s''"
  unfolding same_terms_def by (cases s; cases s'; cases s'') auto

lemma ps_store:
  assumes "state_codec c ps_ok 83" "ps_ok s" "ps_serialize_into c s data = Some buf"
  shows "ps_deserialize c buf = Some s \<and> length buf = length data"
  using state_codec.serialize_roundtrip [OF assms(1,2)] assms(3)
  by (simp add: ps_serialize_into_def ps_deserialize_def PS_SERIALIZED_SIZE_def)

lemma ps_store_succeeds:
  assumes "state_codec c ps_ok 83" "ps_ok s" "PS_SERIALIZED_SIZE \<le> length data"
  shows "\<exists>buf. ps_serialize_into c s data = Some buf \<and> ps_deserialize c buf = Some s \<and> length buf = length data"
proof -
  obtain buf where "ps_serialize_into c s data = Some buf"
    using state_codec.serialize_succeeds [OF assms(1,2), of data PASSIVE_STAKE_ACCOUNT_DISCRIMINATOR] assms(3)
    by (auto simp: ps_serialize_into_def PS_SERIALIZED_SIZE_def)
  then show ?thesis using ps_store [OF assms(1,2)] by blast
qed

lemma ps_loaded_ok: "state_codec c ps_ok 83 \<Longrightarrow> ps_deserialize c data = Some s \<Longrightarrow> ps_ok s"
  by (simp add: ps_deserialize_def state_codec.deserialize_ok)

lemma uninitialised_no_position:
  "data = [] \<or> hd data \<noteq> PASSIVE_STAKE_ACCOUNT_DISCRIMINATOR \<Longrightarrow> ps_deserialize c data = None"
  by (cases data) (auto simp: ps_deserialize_def state_deserialize_def)

text \<open>The ways a successful instruction can leave a position.\<close>

lemma position_step:
  assumes c: "state_codec c ps_ok 83" and wf: "tx_wf tx" and run: "ps_dispatch c clk ins ix tx = Inr tx'"
    and s: "position_of c tx i = Some s" and ok: "ins_ok ins"
  shows "(\<exists>s'. position_of c tx' i = Some s' \<and> same_terms s s') \<or>
    is_zeroed (acc_data (acct tx' i)) \<and> signed_by ix tx (authority s) \<and> \<not> is_permanent s
    \<and> (ins = EarlyUnlock \<or> ins = Unlock \<and> lock_expired clk s = Inr ())"
proof (cases "acc_data (acct tx' i) = acc_data (acct tx i)")
  case True
  then show ?thesis using s by (auto simp: position_of_def)
next
  case diff: False
  have at: "get_data tx st = acc_data (acct tx i)" if "only_data tx tx' (index_in_transaction st) d" for st d
    using that diff by (auto simp: only_data_def get_data_def split: if_splits)
  have here: "acc_data (acct tx' i) = d" if "only_data tx tx' (index_in_transaction st) d" for st d
    using that diff by (auto simp: only_data_def split: if_splits)
  note s' = s [unfolded position_of_def]
  show ?thesis
  proof (cases ins)
    case (InitializePassiveStake days amt)
    then have "process_initialize_passive_stake c clk days amt ix tx = Inr tx'" using run by simp
    then obtain st d where "get_data tx st = [] \<or> hd (get_data tx st) \<noteq> PASSIVE_STAKE_ACCOUNT_DISCRIMINATOR"
      "only_data tx tx' (index_in_transaction st) d" using initialize_data [OF wf] by metis
    then show ?thesis using uninitialised_no_position s' at by fastforce
  next
    case ClaimRewards
    then have "process_claim_rewards c ix tx = Inr tx'" using run by simp
    then obtain st x buf where h: "ps_deserialize c (get_data tx st) = Some x"
      "ps_serialize_into c (x\<lparr> unclaimed_rewards := 0 \<rparr>) (get_data tx st) = Some buf"
      "only_data tx tx' (index_in_transaction st) buf" using claim_data [OF wf] by metis
    have x: "x = s" using h(1) s' at [OF h(3)] by simp
    have "ps_ok (s\<lparr> unclaimed_rewards := 0 \<rparr>)" using ps_loaded_ok [OF c s'] by (simp add: ps_ok_def)
    then have "position_of c tx' i = Some (s\<lparr> unclaimed_rewards := 0 \<rparr>)"
      using ps_store [OF c _ h(2)] here [OF h(3)] by (simp add: position_of_def x)
    then show ?thesis by (auto simp: same_terms_def)
  next
    case Unlock
    then have "process_unlock c clk ix tx = Inr tx'" using run by simp
    then obtain st x where h: "ps_deserialize c (get_data tx st) = Some x" "signed_by ix tx (authority x)"
      "\<not> is_permanent x" "lock_expired clk x = Inr ()"
      "only_data tx tx' (index_in_transaction st) (replicate (length (get_data tx st)) 0)" using unlock_data [OF wf] by metis
    then show ?thesis using s' at [OF h(5)] here [OF h(5)] Unlock by (auto simp: is_zeroed_def list_all_iff)
  next
    case EarlyUnlock
    then have "process_early_unlock c ix tx = Inr tx'" using run by simp
    then obtain st x where h: "ps_deserialize c (get_data tx st) = Some x" "signed_by ix tx (authority x)" "\<not> is_permanent x"
      "only_data tx tx' (index_in_transaction st) (replicate (length (get_data tx st)) 0)" using early_unlock_data [OF wf] by metis
    then show ?thesis using s' at [OF h(4)] here [OF h(4)] EarlyUnlock by (auto simp: is_zeroed_def list_all_iff)
  next
    case (CalculateEpochRewards e r)
    then have "process_calculate_epoch_rewards c e r ix tx = Inr tx'" "tx' \<noteq> tx" using run diff by auto
    then obtain st x new buf where h: "ps_deserialize c (get_data tx st) = Some x" "last_reward_epoch x < e"
      "unclaimed_rewards x + new < 2 ^ 64"
      "ps_serialize_into c (x\<lparr> unclaimed_rewards := unclaimed_rewards x + new, last_reward_epoch := e \<rparr>) (get_data tx st) = Some buf"
      "only_data tx tx' (index_in_transaction st) buf" using rewards_data [OF wf] by metis
    have x: "x = s" using h(1) s' at [OF h(5)] by simp
    let ?n = "s\<lparr> unclaimed_rewards := unclaimed_rewards s + new, last_reward_epoch := e \<rparr>"
    have "ps_ok ?n" using ps_loaded_ok [OF c s'] h(3) ok CalculateEpochRewards by (simp add: ps_ok_def x)
    then have "position_of c tx' i = Some ?n"
      using ps_store [OF c _ h(4)] here [OF h(5)] by (simp add: position_of_def x)
    then show ?thesis using h(2) by (auto simp: same_terms_def x)
  qed
qed

section \<open>Sequences of instructions\<close>

text \<open>An instruction that fails, or leaves the lamports unbalanced, is rolled back.\<close>

definition ps_step :: "PassiveStakeAccount codec \<Rightarrow> TransactionContext \<Rightarrow>
    (InstructionError + Clock) \<times> PassiveStakeInstruction \<times> InstructionContext \<Rightarrow> TransactionContext" where
  "ps_step c tx = (\<lambda>(clk, ins, ix).
     case ps_dispatch c clk ins ix tx of
       Inl _ \<Rightarrow> tx | Inr tx' \<Rightarrow> if pop_check ix tx' = Inr () then tx' else tx)"

definition permanent_inv :: "PassiveStakeAccount codec \<Rightarrow> nat \<Rightarrow> PassiveStakeAccount \<Rightarrow> TransactionContext \<Rightarrow> bool" where
  "permanent_inv c i s tx \<longleftrightarrow> state_codec c ps_ok 83 \<and> is_permanent s \<and> tx_wf tx
     \<and> (\<exists>s'. position_of c tx i = Some s' \<and> same_terms s s')"

lemma permanent_step:
  assumes "permanent_inv c i s tx" "ins_ok (fst (snd e))"
  shows "permanent_inv c i s (ps_step c tx e)"
proof -
  obtain clk ins ix where e: "e = (clk, ins, ix)" by (cases e)
  have p: "state_codec c ps_ok 83" "is_permanent s" "tx_wf tx" using assms(1) by (auto simp: permanent_inv_def)
  show ?thesis
  proof (cases "ps_step c tx e = tx")
    case False
    then have r: "ps_dispatch c clk ins ix tx = Inr (ps_step c tx e)"
      by (auto simp: ps_step_def e split: sum.splits if_splits)
    obtain s' where s': "position_of c tx i = Some s'" "same_terms s s'" using assms(1) by (auto simp: permanent_inv_def)
    have "is_permanent s'" using s'(2) p(2) unfolding same_terms_def by (metis PassiveStakeAccount.select_convs(8)
        PassiveStakeAccount.surjective PassiveStakeAccount.update_convs(6,7))
    then have "\<exists>s''. position_of c (ps_step c tx e) i = Some s'' \<and> same_terms s' s''"
      using position_step [OF p(1,3) r s'(1)] assms(2) by (auto simp: e)
    moreover have "tx_wf (ps_step c tx e)"
      using passive_stake.run_allowed [OF p(3) r] allowed_wf p(3) by blast
    ultimately show ?thesis using p s'(2) same_terms_trans by (auto simp: permanent_inv_def)
  qed (use assms(1) in simp)
qed

interpretation ps_run: guarded_system "ps_step c" "\<lambda>tx e. ins_ok (fst (snd e))" "permanent_inv c i s" for c i s
  by unfold_locales (rule permanent_step)

section \<open>Properties\<close>

definition example_position :: PassiveStakeAccount where
  "example_position = \<lparr> authority = replicate 32 1, amount = 500, lock_days = 30, lock_start = 0, lock_end = 2592000,
     unclaimed_rewards = 7, last_reward_epoch = 3, is_permanent = False, vote_weight_bps = 1000 \<rparr>"

definition stored :: "PassiveStakeAccount \<Rightarrow> bytes" where
  "stored s = PASSIVE_STAKE_ACCOUNT_DISCRIMINATOR # enc ps_borsh s"

definition stake_tx :: "PassiveStakeAccount \<Rightarrow> TransactionContext" where
  "stake_tx s = TransactionAccounts_new
     [(replicate 32 1, default_account\<lparr> lamports := 1000 \<rparr>),
      (replicate 32 2, default_account\<lparr> lamports := 500, acc_data := stored s, owner := passive_stake_id \<rparr>),
      (passive_stake_id, default_account)]"

definition stake_ix :: InstructionContext where
  "stake_ix = \<lparr> program_account_index_in_tx = 2,
     instruction_accounts = [\<lparr> index_in_transaction = 0, is_signer = True, is_writable = True \<rparr>,
                             \<lparr> index_in_transaction = 1, is_signer = False, is_writable = True \<rparr>] \<rparr>"

lemma example_position_ok [simp]: "ps_ok example_position" "ps_ok (example_position\<lparr> is_permanent := True \<rparr>)"
  by (simp_all add: ps_ok_def example_position_def)

lemma example_position_sel:
  "authority example_position = replicate 32 1" "amount example_position = 500" "lock_days example_position = 30"
  "lock_end example_position = 2592000" "unclaimed_rewards example_position = 7"
  "last_reward_epoch example_position = 3" "\<not> is_permanent example_position"
  by (simp_all add: example_position_def)

lemma stored_read: "ps_ok s \<Longrightarrow> ps_deserialize ps_borsh (stored s) = Some s"
  using ps_borsh.dec_enc [of s "[]"] by (simp add: ps_deserialize_def stored_def state_deserialize_def)

lemma stake_tx_wf: "tx_wf (stake_tx s)"
  by (simp add: stake_tx_def)

lemma stake_tx_position: "ps_ok s \<Longrightarrow> position_of ps_borsh (stake_tx s) 1 = Some s"
  by (simp add: position_of_def stake_tx_def TransactionAccounts_new_def acct_def stored_read)

text \<open>
  C20: A stored position keeps its authority, principal and lock terms through every instruction of
  the program, unless it is closed; it is closed only by an instruction signed by its authority, never
  when it is permanent, and only by \<^verbatim>\<open>EarlyUnlock\<close> or by \<^verbatim>\<open>Unlock\<close> after the lock has run out.
\<close>

theorem position_closing_rules:
  assumes "state_codec c ps_ok 83" "tx_wf tx" "ps_dispatch c clk ins ix tx = Inr tx'"
    and "position_of c tx i = Some s" "ins_ok ins"
  shows "(\<exists>s'. position_of c tx' i = Some s' \<and> same_terms s s') \<or>
    is_zeroed (acc_data (acct tx' i)) \<and> signed_by ix tx (authority s) \<and> \<not> is_permanent s
    \<and> (ins = EarlyUnlock \<or> ins = Unlock \<and> lock_expired clk s = Inr ())"
  using assms by (rule position_step)

theorem position_closing_rules_witness:
  "\<exists>tx'. ps_dispatch ps_borsh (Inr \<lparr> epoch = 40, unix_timestamp = 3000000 \<rparr>) Unlock stake_ix (stake_tx example_position) = Inr tx'
     \<and> ((\<exists>s'. position_of ps_borsh tx' 1 = Some s' \<and> same_terms example_position s')
        \<or> is_zeroed (acc_data (acct tx' 1)))"
proof -
  have len: "length (stored example_position) = 84" by (simp add: stored_def ps_borsh_def example_position_def)
  obtain tx' where r: "ps_dispatch ps_borsh (Inr \<lparr> epoch = 40, unix_timestamp = 3000000 \<rparr>) Unlock stake_ix (stake_tx example_position) = Inr tx'"
    by (simp add: process_unlock_def stake_ix_def stake_tx_def handler_eval stored_read len example_position_sel lock_expired_def tier_defs)
  have "ins_ok Unlock" by simp
  with position_closing_rules [OF ps_borsh.state_codec_axioms stake_tx_wf r stake_tx_position [OF example_position_ok(1)]] r
  show ?thesis by blast
qed

text \<open>
  C21: A permanent stake is permanent: no sequence of instructions, by whomever and at whatever time,
  ever closes the position or changes its authority, principal or terms.
\<close>

theorem permanent_stake_is_forever:
  assumes "state_codec c ps_ok 83" "tx_wf tx" "position_of c tx i = Some s" "is_permanent s"
    and "list_all (\<lambda>e. ins_ok (fst (snd e))) es"
  shows "\<exists>s'. position_of c (foldl (ps_step c) tx es) i = Some s' \<and> same_terms s s'"
proof -
  have g: "guarded_run (ps_step c) (\<lambda>tx e. ins_ok (fst (snd e))) tx0 es" for tx0
    using assms(5) by (induction es arbitrary: tx0) auto
  have "permanent_inv c i s tx" using assms by (auto simp: permanent_inv_def)
  from ps_run.guarded_inv [OF this g] show ?thesis by (simp add: permanent_inv_def)
qed

theorem permanent_stake_is_forever_witness:
  "let s = example_position\<lparr> is_permanent := True \<rparr>; clk = Inr \<lparr> epoch = 40, unix_timestamp = 3000000 \<rparr>;
       tx' = foldl (ps_step ps_borsh) (stake_tx s) [(clk, EarlyUnlock, stake_ix), (clk, Unlock, stake_ix)] in
   \<exists>s'. position_of ps_borsh tx' 1 = Some s' \<and> same_terms s s'"
proof -
  have "is_permanent (example_position\<lparr> is_permanent := True \<rparr>)" by simp
  then show ?thesis unfolding Let_def
    by (rule permanent_stake_is_forever [OF ps_borsh.state_codec_axioms stake_tx_wf stake_tx_position [OF example_position_ok(2)]]) simp
qed

lemma new_epoch_rewards_value:
  "new_epoch_rewards s e r = Inr new \<Longrightarrow> reward_rate_bps_for_tier (lock_days s) = Some t \<Longrightarrow>
   new = min (amount s * r * t div 36500000000 * (e - last_reward_epoch s)) (umax 64)"
  by (auto simp: new_epoch_rewards_def BPS_DENOMINATOR_def)

text \<open>
  The rewards are exact: calculating them for an epoch adds, for every epoch since the last
  calculation, the principal times the validator rate times the tier rate over \<open>365 * 10000 * 10000\<close>,
  rounded down per epoch, and calculating them again for the same epoch changes nothing.
\<close>

theorem epoch_rewards_exact:
  assumes "state_codec c ps_ok 83" "tx_wf tx" "process_calculate_epoch_rewards c e r ix tx = Inr tx'"
    and "try_borrow_instruction_account ix tx 0 = Inr st" "position_of c tx (index_in_transaction st) = Some s"
    and "reward_rate_bps_for_tier (lock_days s) = Some t" "last_reward_epoch s < e" "e < 2 ^ 64"
  shows "position_of c tx' (index_in_transaction st) =
      Some (s\<lparr> unclaimed_rewards := unclaimed_rewards s
                 + min (amount s * r * t div 36500000000 * (e - last_reward_epoch s)) (umax 64),
               last_reward_epoch := e \<rparr>)
    \<and> process_calculate_epoch_rewards c e r' ix tx' = Inr tx'"
proof -
  let ?i = "index_in_transaction st"
  have s: "ps_deserialize c (get_data tx st) = Some s" using assms(5) by (simp add: position_of_def get_data_def)
  have "\<not> e \<le> last_reward_epoch s" using assms(7) by simp
  then obtain new buf where h: "check_number_of_instruction_accounts ix 1 = Inr ()" "get_owner tx st = passive_stake_id"
      "new_epoch_rewards s e r = Inr new" "unclaimed_rewards s + new < 2 ^ 64"
      "ps_serialize_into c (s\<lparr> unclaimed_rewards := unclaimed_rewards s + new, last_reward_epoch := e \<rparr>) (get_data tx st) = Some buf"
      "set_data_from_slice ix st buf tx = Inr tx'"
    using assms(3) by (auto simp: process_calculate_epoch_rewards_def Let_def assms(4) s split: if_splits)
  let ?n = "s\<lparr> unclaimed_rewards := unclaimed_rewards s + new, last_reward_epoch := e \<rparr>"
  have "ps_ok ?n" using ps_loaded_ok [OF assms(1) s] h(4) assms(8) by (simp add: ps_ok_def)
  then have n: "ps_deserialize c buf = Some ?n" using ps_store [OF assms(1) _ h(5)] by simp
  have a: "acct tx' ?i = (acct tx ?i)\<lparr> acc_data := buf \<rparr>" using set_data_frame [OF assms(2) h(6)] by simp
  have "borrow_counters tx' = borrow_counters tx"
    using set_data_from_slice_allowed [OF assms(2) borrow_mem [OF assms(4)] h(6)] by (simp add: allowed_effect_def)
  then have b: "try_borrow_instruction_account ix tx' 0 = Inr st"
    using assms(4) by (simp add: try_borrow_instruction_account_def tx_try_borrow_mut_def)
  have "process_calculate_epoch_rewards c e r' ix tx' = Inr tx'"
    using h(1,2) a n by (simp add: process_calculate_epoch_rewards_def b get_owner_def get_data_def)
  then show ?thesis using a n new_epoch_rewards_value [OF h(3) assms(6)] by (simp add: position_of_def)
qed

definition rewards_ix :: InstructionContext where
  "rewards_ix = \<lparr> program_account_index_in_tx = 2,
     instruction_accounts = [\<lparr> index_in_transaction = 1, is_signer = False, is_writable = True \<rparr>] \<rparr>"

theorem epoch_rewards_exact_witness:
  "let s = example_position\<lparr> amount := 1000000000000 \<rparr> in
   \<exists>tx'. process_calculate_epoch_rewards ps_borsh 13 500 rewards_ix (stake_tx s) = Inr tx'
     \<and> position_of ps_borsh tx' 1 = Some (s\<lparr> unclaimed_rewards := 136986307, last_reward_epoch := 13 \<rparr>)"
proof -
  let ?s = "example_position\<lparr> amount := 1000000000000 \<rparr>"
  let ?n = "?s\<lparr> unclaimed_rewards := 136986307, last_reward_epoch := 13 \<rparr>"
  have ok: "ps_ok ?s" "ps_ok ?n" by (simp_all add: ps_ok_def example_position_def)
  have len: "length (stored ?s) = 84" by (simp add: stored_def ps_borsh_def example_position_def)
  have new: "new_epoch_rewards ?s 13 500 = Inr 136986300"
    by (simp add: new_epoch_rewards_def example_position_sel reward_rate_bps_for_tier_def tier_defs BPS_DENOMINATOR_def
        checked_sub_def checked_mul_def checked_div_def)
  obtain buf where buf: "ps_serialize_into ps_borsh ?n (stored ?s) = Some buf" "length buf = 84"
    using ps_store_succeeds [OF ps_borsh.state_codec_axioms ok(2), of "stored ?s"] len
    by (auto simp: PS_SERIALIZED_SIZE_def)
  obtain tx' where r: "process_calculate_epoch_rewards ps_borsh 13 500 rewards_ix (stake_tx ?s) = Inr tx'"
    using buf by (simp add: process_calculate_epoch_rewards_def rewards_ix_def stake_ix_def stake_tx_def handler_eval stored_read ok len new
        example_position_sel)
  let ?st = "\<lparr> index_in_transaction = 1, is_signer = False, is_writable = True \<rparr>"
  have b: "try_borrow_instruction_account rewards_ix (stake_tx ?s) 0 = Inr ?st" by (simp add: rewards_ix_def stake_ix_def stake_tx_def handler_eval)
  have p: "position_of ps_borsh (stake_tx ?s) (index_in_transaction ?st) = Some ?s"
    using stake_tx_position [OF ok(1)] by simp
  have l: "reward_rate_bps_for_tier (lock_days ?s) = Some 1000" "last_reward_epoch ?s < 13"
    by (simp_all add: example_position_sel reward_rate_bps_for_tier_def tier_defs)
  show ?thesis
    using epoch_rewards_exact [OF ps_borsh.state_codec_axioms stake_tx_wf r b p l] r
    by (simp add: Let_def example_position_sel umax_def)
qed

text \<open>
  What the program stores is what it reads back, and storing never changes the size of an
  account that is large enough.
\<close>

theorem stored_position_roundtrip:
  assumes "state_codec c ps_ok 83" "ps_ok s" "PS_SERIALIZED_SIZE \<le> length data"
  shows "\<exists>buf. ps_serialize_into c s data = Some buf \<and> ps_deserialize c buf = Some s \<and> length buf = length data"
  using assms by (rule ps_store_succeeds)

theorem stored_position_roundtrip_witness:
  "\<exists>buf. ps_serialize_into ps_borsh example_position (replicate 100 0) = Some buf
     \<and> ps_deserialize ps_borsh buf = Some example_position \<and> length buf = 100"
  using stored_position_roundtrip [OF ps_borsh.state_codec_axioms example_position_ok(1), of "replicate 100 0"]
  by (simp add: PS_SERIALIZED_SIZE_def)


text \<open>
  No ordinary wallet can open a position: \<^verbatim>\<open>InitializePassiveStake\<close> fails whenever the funding
  account is not itself owned by the passive-stake program, since a program cannot debit a foreign account.
\<close>

theorem wallet_cannot_initialize:
  assumes "nth_opt (instruction_accounts ix) 0 = Some ia" "foreign ix tx (index_in_transaction ia)"
  shows "\<exists>err. process_initialize_passive_stake c clk days amt ix tx = Inl err"
proof (cases "process_initialize_passive_stake c clk days amt ix tx")
  case (Inr tx')
  then obtain auth tx1 where h: "try_borrow_instruction_account ix tx 0 = Inr auth" "0 < amt" "amt \<le> get_lamports tx auth"
    "checked_sub_lamports ix auth amt tx = Inr tx1"
    by (auto simp: process_initialize_passive_stake_def Let_def split: if_splits)
  have "auth = ia" using borrow_Inr [OF h(1)] assms(1) by simp
  then show ?thesis using h assms(2)
    by (auto simp: checked_sub_lamports_def set_lamports_def owned_foreign split: if_splits)
qed simp

lemma passive_id_not_system: "passive_stake_id \<noteq> replicate 32 0"
proof
  assume "passive_stake_id = replicate 32 0"
  then have "hd passive_stake_id = hd (replicate 32 0)" by simp
  then show False by (simp add: passive_stake_id_def)
qed

theorem wallet_cannot_initialize_witness:
  "\<exists>err. process_initialize_passive_stake ps_borsh (Inr \<lparr> epoch = 1, unix_timestamp = 9 \<rparr>) 30 100 stake_ix (stake_tx example_position) = Inl err"
proof -
  have "foreign stake_ix (stake_tx example_position) 0"
    by (simp add: foreign_def stake_ix_def stake_tx_def handler_eval passive_id_not_system)
  then show ?thesis using wallet_cannot_initialize [of stake_ix "instruction_accounts stake_ix ! 0"]
    by (simp add: stake_ix_def nth_opt_def)
qed

end
