(* ===== verification/Treasury.thy ===== *)
theory Treasury
  imports Account_Data
begin

text \<open>
  The treasury program, \<^verbatim>\<open>programs/treasury/src\<close>: the configuration account and the four
  instructions. The Borsh codec of the configuration, the bincode decoder of the instruction data and
  the clock sysvar are parameters. Log messages and the compute budget are left out.

  Shown: only the current authority can disburse, hand over or activate governance; the switch to
  governance is one-way; a disbursement moves exactly its amount; every instruction obeys the account
  rules.
\<close>

section \<open>State\<close>

definition MAX_MEMO_LEN :: nat where
  "MAX_MEMO_LEN = 256"

text \<open>\<^verbatim>\<open>declare_id!\<close>: the bytes of \<^verbatim>\<open>Treasury11111111111111111111111111111111111\<close> in base 58.\<close>

definition treasury_id :: pubkey where
  "treasury_id = [6, 225, 60, 251, 92, 100, 61, 234, 106, 40, 240, 40, 235, 24, 90, 194,
     135, 179, 8, 41, 160, 66, 234, 26, 251, 142, 191, 80, 0, 0, 0, 0]"

datatype TreasuryError =
    AlreadyInitialized | NotInitialized | TrMissingAuthoritySignature | AuthorityMismatch | TrInvalidAccountOwner
  | InsufficientFunds | TrInvalidAccountData | RecipientMismatch | ZeroDisbursement | MemoTooLong
  | GovernanceAlreadyActive | TrArithmeticOverflow

text \<open>The blanket conversion into \<^verbatim>\<open>InstructionError::Custom\<close> uses the position in the enumeration.\<close>

fun tr_err :: "TreasuryError \<Rightarrow> InstructionError" where
  "tr_err AlreadyInitialized = Custom 0"
| "tr_err NotInitialized = Custom 1"
| "tr_err TrMissingAuthoritySignature = Custom 2"
| "tr_err AuthorityMismatch = Custom 3"
| "tr_err TrInvalidAccountOwner = Custom 4"
| "tr_err InsufficientFunds = Custom 5"
| "tr_err TrInvalidAccountData = Custom 6"
| "tr_err RecipientMismatch = Custom 7"
| "tr_err ZeroDisbursement = Custom 8"
| "tr_err MemoTooLong = Custom 9"
| "tr_err GovernanceAlreadyActive = Custom 10"
| "tr_err TrArithmeticOverflow = Custom 11"

definition TREASURY_CONFIG_DISCRIMINATOR :: u8 where
  "TREASURY_CONFIG_DISCRIMINATOR = 1"

record TreasuryConfig =
  tr_authority :: pubkey
  treasury_account :: pubkey
  governance_active :: bool
  total_received :: u64
  total_disbursed :: u64
  last_updated_epoch :: u64

definition TR_SERIALIZED_SIZE :: nat where
  "TR_SERIALIZED_SIZE = 1 + 32 + 32 + 1 + 8 + 8 + 8"

definition tr_deserialize :: "TreasuryConfig codec \<Rightarrow> bytes \<Rightarrow> TreasuryConfig option" where
  "tr_deserialize c data = state_deserialize TREASURY_CONFIG_DISCRIMINATOR c data"

definition tr_serialize_into :: "TreasuryConfig codec \<Rightarrow> TreasuryConfig \<Rightarrow> bytes \<Rightarrow> bytes option" where
  "tr_serialize_into c cfg data = state_serialize_into TREASURY_CONFIG_DISCRIMINATOR TR_SERIALIZED_SIZE c cfg data"

text \<open>The memo is kept as its bytes.\<close>

datatype TreasuryInstruction =
    InitializeTreasury pubkey pubkey
  | Disburse u64 pubkey bytes
  | UpdateAuthority pubkey
  | ActivateGovernance

section \<open>Handlers\<close>

definition process_initialize_treasury ::
    "TreasuryConfig codec \<Rightarrow> (InstructionError + Clock) \<Rightarrow> pubkey \<Rightarrow> pubkey \<Rightarrow> InstructionContext \<Rightarrow> TransactionContext \<Rightarrow>
     InstructionError + TransactionContext" where
  "process_initialize_treasury c get_clock auth acc ix tx =
     res_bind (check_number_of_instruction_accounts ix 2) (\<lambda>_.
     res_bind (is_instruction_account_signer ix 0) (\<lambda>signed.
     if \<not> signed then Inl (tr_err TrMissingAuthoritySignature)
     else
     res_bind (try_borrow_instruction_account ix tx 1) (\<lambda>config_account.
     if get_owner tx config_account \<noteq> treasury_id then Inl (tr_err TrInvalidAccountOwner)
     else if get_data tx config_account \<noteq> [] \<and> hd (get_data tx config_account) = TREASURY_CONFIG_DISCRIMINATOR
       then Inl (tr_err AlreadyInitialized)
     else
     res_bind get_clock (\<lambda>clock.
     let config = \<lparr> tr_authority = auth, treasury_account = acc, governance_active = False,
                    total_received = 0, total_disbursed = 0, last_updated_epoch = epoch clock \<rparr> in
     res_bind (try_borrow_instruction_account ix tx 1) (\<lambda>config_account.
     let data = get_data tx config_account;
         data = (if length data < TR_SERIALIZED_SIZE then resized TR_SERIALIZED_SIZE data else data) in
     res_bind (ok_or (tr_err TrInvalidAccountData) (tr_serialize_into c config data)) (\<lambda>data.
     set_data_from_slice ix config_account data tx))))))"

definition process_disburse ::
    "TreasuryConfig codec \<Rightarrow> (InstructionError + Clock) \<Rightarrow> u64 \<Rightarrow> pubkey \<Rightarrow> bytes \<Rightarrow> InstructionContext \<Rightarrow> TransactionContext \<Rightarrow>
     InstructionError + TransactionContext" where
  "process_disburse c get_clock amt recipient memo ix tx =
     res_bind (check_number_of_instruction_accounts ix 4) (\<lambda>_.
     if amt = 0 then Inl (tr_err ZeroDisbursement)
     else if length memo > MAX_MEMO_LEN then Inl (tr_err MemoTooLong)
     else
     res_bind (is_instruction_account_signer ix 0) (\<lambda>signed.
     if \<not> signed then Inl (tr_err TrMissingAuthoritySignature)
     else
     res_bind (get_key_of_instruction_account ix tx 0) (\<lambda>signer_pubkey.
     res_bind get_clock (\<lambda>clock.
     res_bind (try_borrow_instruction_account ix tx 1) (\<lambda>config_account.
     if get_owner tx config_account \<noteq> treasury_id then Inl (tr_err TrInvalidAccountOwner)
     else
     res_bind (ok_or (tr_err NotInitialized) (tr_deserialize c (get_data tx config_account))) (\<lambda>config.
     if tr_authority config \<noteq> signer_pubkey then Inl (tr_err AuthorityMismatch)
     else
     res_bind (get_key_of_instruction_account ix tx 3) (\<lambda>recipient_key.
     if recipient_key \<noteq> recipient then Inl (tr_err RecipientMismatch)
     else
     res_bind (ok_or (tr_err TrArithmeticOverflow) (checked_add 64 (total_disbursed config) amt)) (\<lambda>disbursed.
     let config = config\<lparr> total_disbursed := disbursed, last_updated_epoch := epoch clock \<rparr> in
     res_bind (ok_or (tr_err TrInvalidAccountData) (tr_serialize_into c config (get_data tx config_account))) (\<lambda>buf.
     res_bind (set_data_from_slice ix config_account buf tx) (\<lambda>tx.
     res_bind (try_borrow_instruction_account ix tx 2) (\<lambda>treasury.
     if get_lamports tx treasury < amt then Inl (tr_err InsufficientFunds)
     else
     res_bind (checked_sub_lamports ix treasury amt tx) (\<lambda>tx.
     res_bind (try_borrow_instruction_account ix tx 3) (\<lambda>recipient_account.
     checked_add_lamports ix recipient_account amt tx)))))))))))))"

text \<open>
  The common part of the two instructions that rewrite the configuration: the authority signs, the
  configuration is loaded, changed by \<open>f\<close> and stored.
\<close>

definition update_config ::
    "TreasuryConfig codec \<Rightarrow> (InstructionError + Clock) \<Rightarrow> (TreasuryConfig \<Rightarrow> InstructionError + TreasuryConfig) \<Rightarrow>
     InstructionContext \<Rightarrow> TransactionContext \<Rightarrow> InstructionError + TransactionContext" where
  "update_config c get_clock f ix tx =
     res_bind (check_number_of_instruction_accounts ix 2) (\<lambda>_.
     res_bind (is_instruction_account_signer ix 0) (\<lambda>signed.
     if \<not> signed then Inl (tr_err TrMissingAuthoritySignature)
     else
     res_bind (get_key_of_instruction_account ix tx 0) (\<lambda>signer_pubkey.
     res_bind get_clock (\<lambda>clock.
     res_bind (try_borrow_instruction_account ix tx 1) (\<lambda>config_account.
     if get_owner tx config_account \<noteq> treasury_id then Inl (tr_err TrInvalidAccountOwner)
     else
     res_bind (ok_or (tr_err NotInitialized) (tr_deserialize c (get_data tx config_account))) (\<lambda>config.
     if tr_authority config \<noteq> signer_pubkey then Inl (tr_err AuthorityMismatch)
     else
     res_bind (f config) (\<lambda>config.
     let config = config\<lparr> last_updated_epoch := epoch clock \<rparr> in
     res_bind (ok_or (tr_err TrInvalidAccountData) (tr_serialize_into c config (get_data tx config_account))) (\<lambda>buf.
     set_data_from_slice ix config_account buf tx))))))))"

definition process_update_authority ::
    "TreasuryConfig codec \<Rightarrow> (InstructionError + Clock) \<Rightarrow> pubkey \<Rightarrow> InstructionContext \<Rightarrow> TransactionContext \<Rightarrow>
     InstructionError + TransactionContext" where
  "process_update_authority c get_clock new_authority ix tx =
     update_config c get_clock (\<lambda>config. Inr (config\<lparr> tr_authority := new_authority \<rparr>)) ix tx"

definition process_activate_governance ::
    "TreasuryConfig codec \<Rightarrow> (InstructionError + Clock) \<Rightarrow> InstructionContext \<Rightarrow> TransactionContext \<Rightarrow>
     InstructionError + TransactionContext" where
  "process_activate_governance c get_clock ix tx =
     update_config c get_clock
       (\<lambda>config. if governance_active config then Inl (tr_err GovernanceAlreadyActive)
                 else Inr (config\<lparr> governance_active := True \<rparr>)) ix tx"

fun tr_dispatch ::
    "TreasuryConfig codec \<Rightarrow> (InstructionError + Clock) \<Rightarrow> TreasuryInstruction \<Rightarrow> InstructionContext \<Rightarrow> TransactionContext \<Rightarrow>
     InstructionError + TransactionContext" where
  "tr_dispatch c clk (InitializeTreasury auth acc) ix tx = process_initialize_treasury c clk auth acc ix tx"
| "tr_dispatch c clk (Disburse amt recipient memo) ix tx = process_disburse c clk amt recipient memo ix tx"
| "tr_dispatch c clk (UpdateAuthority k) ix tx = process_update_authority c clk k ix tx"
| "tr_dispatch c clk ActivateGovernance ix tx = process_activate_governance c clk ix tx"

definition tr_entrypoint ::
    "(bytes \<Rightarrow> TreasuryInstruction option) \<Rightarrow> TreasuryConfig codec \<Rightarrow> (InstructionError + Clock) \<Rightarrow>
     bytes \<Rightarrow> InstructionContext \<Rightarrow> TransactionContext \<Rightarrow> InstructionError + TransactionContext" where
  "tr_entrypoint limited_deserialize c clk instruction_data ix tx =
     res_bind (ok_or InvalidInstructionData (limited_deserialize instruction_data)) (\<lambda>ins.
     tr_dispatch c clk ins ix tx)"

section \<open>Account rules\<close>

lemma tr_reached:
  "reached ix tx0 tx \<Longrightarrow> tr_dispatch c clk ins ix tx = Inr tx' \<Longrightarrow> reached ix tx0 tx'"
  by (cases ins; auto simp: process_initialize_treasury_def process_disburse_def process_update_authority_def
      process_activate_governance_def update_config_def Let_def dest!: borrow_mem
      split: if_splits; blast intro: reached_op)

interpretation treasury: account_program "tr_dispatch c clk" for c clk
  by unfold_locales (blast intro: reached_allowed tr_reached reached_start)

section \<open>What each instruction does to the stored data\<close>

lemma tr_initialize_data:
  assumes "tx_wf tx" "process_initialize_treasury c clk k a ix tx = Inr tx'"
  obtains cfg d where "get_data tx cfg = [] \<or> hd (get_data tx cfg) \<noteq> TREASURY_CONFIG_DISCRIMINATOR"
    "only_data tx tx' (index_in_transaction cfg) d"
proof -
  from assms(2) obtain cfg cfg2 d where
    h: "try_borrow_instruction_account ix tx 1 = Inr cfg" "try_borrow_instruction_account ix tx 1 = Inr cfg2"
      "set_data_from_slice ix cfg2 d tx = Inr tx'"
    and u: "get_data tx cfg = [] \<or> hd (get_data tx cfg) \<noteq> TREASURY_CONFIG_DISCRIMINATOR"
    by (auto simp: process_initialize_treasury_def Let_def split: if_splits)
  have "only_data tx tx' (index_in_transaction cfg) d"
    using set_data_data [OF reached_start [OF assms(1)] h(3)] borrow_same [OF h(1,2)] by (simp add: only_data_def)
  then show thesis using that u by blast
qed

lemma update_config_data:
  assumes "tx_wf tx" "update_config c clk f ix tx = Inr tx'"
  obtains acc cfg cfg' clock buf where "tr_deserialize c (get_data tx acc) = Some cfg" "signed_by ix tx (tr_authority cfg)"
    "f cfg = Inr cfg'" "clk = Inr clock"
    "tr_serialize_into c (cfg'\<lparr> last_updated_epoch := epoch clock \<rparr>) (get_data tx acc) = Some buf"
    "only_data tx tx' (index_in_transaction acc) buf"
proof -
  from assms(2) obtain acc cfg cfg' clock buf where
    h: "is_instruction_account_signer ix 0 = Inr True" "get_key_of_instruction_account ix tx 0 = Inr (tr_authority cfg)"
      "tr_deserialize c (get_data tx acc) = Some cfg" "f cfg = Inr cfg'" "clk = Inr clock"
      "tr_serialize_into c (cfg'\<lparr> last_updated_epoch := epoch clock \<rparr>) (get_data tx acc) = Some buf"
      "set_data_from_slice ix acc buf tx = Inr tx'"
    by (auto simp: update_config_def Let_def split: if_splits)
  have "only_data tx tx' (index_in_transaction acc) buf"
    using set_data_data [OF reached_start [OF assms(1)] h(7)] by (simp add: only_data_def)
  then show thesis using that h signed_byI [OF h(1,2)] by blast
qed

text \<open>The run of a successful disbursement.\<close>

lemma disburse_run:
  assumes "tx_wf tx" "process_disburse c clk amt rcp memo ix tx = Inr tx'"
  obtains acc cfg clock buf tx1 src tx2 dst where
    "is_instruction_account_signer ix 0 = Inr True" "get_key_of_instruction_account ix tx 0 = Inr (tr_authority cfg)"
    "try_borrow_instruction_account ix tx 1 = Inr acc" "tr_deserialize c (get_data tx acc) = Some cfg"
    "get_key_of_instruction_account ix tx 3 = Inr rcp" "0 < amt" "total_disbursed cfg + amt < 2 ^ 64" "clk = Inr clock"
    "tr_serialize_into c (cfg\<lparr> total_disbursed := total_disbursed cfg + amt, last_updated_epoch := epoch clock \<rparr>) (get_data tx acc) = Some buf"
    "set_data_from_slice ix acc buf tx = Inr tx1" "try_borrow_instruction_account ix tx1 2 = Inr src"
    "amt \<le> get_lamports tx1 src" "checked_sub_lamports ix src amt tx1 = Inr tx2"
    "try_borrow_instruction_account ix tx2 3 = Inr dst" "checked_add_lamports ix dst amt tx2 = Inr tx'"
  using assms(2) by (auto simp: process_disburse_def Let_def not_less split: if_splits)

section \<open>The stored configuration\<close>

definition tr_ok :: "TreasuryConfig \<Rightarrow> bool" where
  "tr_ok s \<longleftrightarrow> length (tr_authority s) = 32 \<and> length (treasury_account s) = 32 \<and> total_received s < 2 ^ 64
     \<and> total_disbursed s < 2 ^ 64 \<and> last_updated_epoch s < 2 ^ 64"

text \<open>The documented Borsh layout.\<close>

definition tr_borsh :: "TreasuryConfig codec" where
  "tr_borsh =
     \<lparr> enc = (\<lambda>s. tr_authority s @ treasury_account s @ bool_byte (governance_active s)
         @ le_bytes 8 (int (total_received s)) @ le_bytes 8 (int (total_disbursed s)) @ le_bytes 8 (int (last_updated_epoch s))),
       dec = (\<lambda>d. if length d < 89 \<or> field 64 1 d \<noteq> bool_byte True \<and> field 64 1 d \<noteq> bool_byte False then None
         else Some \<lparr> tr_authority = field 0 32 d, treasury_account = field 32 32 d,
           governance_active = (field 64 1 d = bool_byte True), total_received = u_field 65 8 d,
           total_disbursed = u_field 73 8 d, last_updated_epoch = u_field 81 8 d \<rparr>) \<rparr>"

lemma tr_borsh_dec_enc: "tr_ok s \<Longrightarrow> dec tr_borsh (enc tr_borsh s @ rest) = Some s"
  by (simp add: tr_borsh_def tr_ok_def read_fields)

interpretation tr_borsh: state_codec tr_borsh tr_ok 89
proof
  fix s rest
  show "tr_ok s \<Longrightarrow> dec tr_borsh (enc tr_borsh s @ rest) = Some s" by (rule tr_borsh_dec_enc)
  show "tr_ok s \<Longrightarrow> length (enc tr_borsh s) \<le> 89" by (simp add: tr_borsh_def tr_ok_def)
next
  fix data s
  assume "dec tr_borsh data = Some s"
  then show "tr_ok s"
    using u_field_range [of 65 8 data] u_field_range [of 73 8 data] u_field_range [of 81 8 data]
    by (auto simp: tr_borsh_def tr_ok_def field_def split: if_splits)
qed

definition config_of :: "TreasuryConfig codec \<Rightarrow> TransactionContext \<Rightarrow> nat \<Rightarrow> TreasuryConfig option" where
  "config_of c tx i = tr_deserialize c (acc_data (acct tx i))"

lemma tr_store:
  assumes "state_codec c tr_ok 89" "tr_ok s" "tr_serialize_into c s data = Some buf"
  shows "tr_deserialize c buf = Some s"
  using state_codec.serialize_roundtrip [OF assms(1,2)] assms(3)
  by (simp add: tr_serialize_into_def tr_deserialize_def TR_SERIALIZED_SIZE_def)

lemma tr_loaded_ok: "state_codec c tr_ok 89 \<Longrightarrow> tr_deserialize c data = Some s \<Longrightarrow> tr_ok s"
  by (simp add: tr_deserialize_def state_codec.deserialize_ok)

lemma tr_uninitialised:
  "data = [] \<or> hd data \<noteq> TREASURY_CONFIG_DISCRIMINATOR \<Longrightarrow> tr_deserialize c data = None"
  by (cases data) (auto simp: tr_deserialize_def state_deserialize_def)

text \<open>The arguments fit their types.\<close>

fun tr_ins_ok :: "TreasuryInstruction \<Rightarrow> bool" where
  "tr_ins_ok (UpdateAuthority k) = (length k = 32)"
| "tr_ins_ok _ = True"

definition clock_ok :: "(InstructionError + Clock) \<Rightarrow> bool" where
  "clock_ok clk = (case clk of Inl _ \<Rightarrow> True | Inr clock \<Rightarrow> epoch clock < 2 ^ 64)"

text \<open>What may happen to the configuration in one instruction.\<close>

definition config_change :: "TreasuryInstruction \<Rightarrow> TreasuryConfig \<Rightarrow> TreasuryConfig \<Rightarrow> bool" where
  "config_change ins cfg cfg' \<longleftrightarrow>
     treasury_account cfg' = treasury_account cfg \<and> total_received cfg' = total_received cfg
     \<and> (governance_active cfg \<longrightarrow> governance_active cfg') \<and> total_disbursed cfg \<le> total_disbursed cfg'
     \<and> (tr_authority cfg' \<noteq> tr_authority cfg \<longrightarrow> ins = UpdateAuthority (tr_authority cfg'))
     \<and> (total_disbursed cfg' \<noteq> total_disbursed cfg \<longrightarrow>
          (\<exists>rcp memo. ins = Disburse (total_disbursed cfg' - total_disbursed cfg) rcp memo))"

lemma disburse_data:
  assumes "tx_wf tx" "process_disburse c clk amt rcp memo ix tx = Inr tx'"
  obtains acc cfg clock buf where "tr_deserialize c (get_data tx acc) = Some cfg" "signed_by ix tx (tr_authority cfg)"
    "total_disbursed cfg + amt < 2 ^ 64" "clk = Inr clock"
    "tr_serialize_into c (cfg\<lparr> total_disbursed := total_disbursed cfg + amt, last_updated_epoch := epoch clock \<rparr>) (get_data tx acc) = Some buf"
    "only_data tx tx' (index_in_transaction acc) buf"
proof (rule disburse_run [OF assms])
  fix acc cfg clock buf tx1 src tx2 dst
  assume h: "is_instruction_account_signer ix 0 = Inr True" "get_key_of_instruction_account ix tx 0 = Inr (tr_authority cfg)"
    "try_borrow_instruction_account ix tx 1 = Inr acc" "tr_deserialize c (get_data tx acc) = Some cfg"
    "total_disbursed cfg + amt < 2 ^ 64" "clk = Inr clock"
    "tr_serialize_into c (cfg\<lparr> total_disbursed := total_disbursed cfg + amt, last_updated_epoch := epoch clock \<rparr>) (get_data tx acc) = Some buf"
    "set_data_from_slice ix acc buf tx = Inr tx1" "try_borrow_instruction_account ix tx1 2 = Inr src"
    "checked_sub_lamports ix src amt tx1 = Inr tx2" "checked_add_lamports ix dst amt tx2 = Inr tx'"
  note r0 = reached_start [OF assms(1), of ix]
  note r1 = reached_set_data [OF h(8) borrow_mem [OF h(3)] r0]
  note r2 = reached_sub [OF h(10) borrow_mem [OF h(9)] r1]
  have "only_data tx tx' (index_in_transaction acc) buf"
    using set_data_data [OF r0 h(8)] sub_lamports_data [OF r1 h(10)] add_lamports_data [OF r2 h(11)]
    by (simp add: only_data_def)
  then show thesis using that h(4-7) signed_byI [OF h(1,2)] by blast
qed

lemma config_step:
  assumes c: "state_codec c tr_ok 89" and wf: "tx_wf tx" and run: "tr_dispatch c clk ins ix tx = Inr tx'"
    and cfg: "config_of c tx i = Some cfg" and ok: "tr_ins_ok ins" "clock_ok clk"
  shows "\<exists>cfg'. config_of c tx' i = Some cfg' \<and> config_change ins cfg cfg'
    \<and> (cfg' \<noteq> cfg \<longrightarrow> signed_by ix tx (tr_authority cfg))"
proof (cases "acc_data (acct tx' i) = acc_data (acct tx i)")
  case True
  then show ?thesis using cfg by (auto simp: config_of_def config_change_def)
next
  case diff: False
  have at: "get_data tx st = acc_data (acct tx i) \<and> acc_data (acct tx' i) = d"
    if "only_data tx tx' (index_in_transaction st) d" for st d
    using that diff by (auto simp: only_data_def get_data_def split: if_splits)
  note cfg' = cfg [unfolded config_of_def]
  note cok = tr_loaded_ok [OF c cfg']
  have stored: ?thesis if u: "update_config c clk f ix tx = Inr tx'"
    and f: "\<And>x. f cfg = Inr x \<Longrightarrow> tr_ok x \<and> (\<forall>e. config_change ins cfg (x\<lparr> last_updated_epoch := e \<rparr>))" for f
  proof -
    obtain acc y x clock buf where h: "tr_deserialize c (get_data tx acc) = Some y" "signed_by ix tx (tr_authority y)"
      "f y = Inr x" "clk = Inr clock" "tr_serialize_into c (x\<lparr> last_updated_epoch := epoch clock \<rparr>) (get_data tx acc) = Some buf"
      "only_data tx tx' (index_in_transaction acc) buf" using update_config_data [OF wf u] by metis
    have y: "y = cfg" using h(1) cfg' at [OF h(6)] by simp
    have "tr_ok (x\<lparr> last_updated_epoch := epoch clock \<rparr>)" using f [of x] h(3,4) ok(2) by (simp add: y tr_ok_def clock_ok_def)
    from tr_store [OF c this h(5)] show ?thesis using at [OF h(6)] f [of x] h(2,3) by (auto simp: config_of_def y)
  qed
  show ?thesis
  proof (cases ins)
    case (InitializeTreasury k a)
    then have "process_initialize_treasury c clk k a ix tx = Inr tx'" using run by simp
    then obtain st d where "get_data tx st = [] \<or> hd (get_data tx st) \<noteq> TREASURY_CONFIG_DISCRIMINATOR"
      "only_data tx tx' (index_in_transaction st) d" using tr_initialize_data [OF wf] by metis
    then show ?thesis using tr_uninitialised cfg' at by fastforce
  next
    case (Disburse amt rcp memo)
    then have "process_disburse c clk amt rcp memo ix tx = Inr tx'" using run by simp
    then obtain acc y clock buf where h: "tr_deserialize c (get_data tx acc) = Some y" "signed_by ix tx (tr_authority y)"
      "total_disbursed y + amt < 2 ^ 64" "clk = Inr clock"
      "tr_serialize_into c (y\<lparr> total_disbursed := total_disbursed y + amt, last_updated_epoch := epoch clock \<rparr>) (get_data tx acc) = Some buf"
      "only_data tx tx' (index_in_transaction acc) buf" using disburse_data [OF wf] by metis
    have y: "y = cfg" using h(1) cfg' at [OF h(6)] by simp
    have "tr_ok (y\<lparr> total_disbursed := total_disbursed y + amt, last_updated_epoch := epoch clock \<rparr>)"
      using cok h(3,4) ok(2) by (simp add: y tr_ok_def clock_ok_def)
    from tr_store [OF c this h(5)] show ?thesis using at [OF h(6)] h(2)
      by (auto simp: config_of_def config_change_def y Disburse)
  next
    case (UpdateAuthority k)
    show ?thesis by (rule stored [of "\<lambda>config. Inr (config\<lparr> tr_authority := k \<rparr>)"])
      (use run ok(1) cok in \<open>auto simp: UpdateAuthority process_update_authority_def tr_ok_def config_change_def\<close>)
  next
    case ActivateGovernance
    show ?thesis by (rule stored [of "\<lambda>config. if governance_active config then Inl (tr_err GovernanceAlreadyActive)
        else Inr (config\<lparr> governance_active := True \<rparr>)"])
      (use run cok in \<open>auto simp: ActivateGovernance process_activate_governance_def tr_ok_def config_change_def split: if_splits\<close>)
  qed
qed

section \<open>Properties\<close>

definition example_config :: TreasuryConfig where
  "example_config = \<lparr> tr_authority = replicate 32 1, treasury_account = replicate 32 3, governance_active = False,
     total_received = 0, total_disbursed = 40, last_updated_epoch = 2 \<rparr>"

definition treasury_tx :: TransactionContext where
  "treasury_tx = TransactionAccounts_new
     [(replicate 32 1, default_account\<lparr> lamports := 1000 \<rparr>),
      (replicate 32 2, default_account\<lparr> lamports := 500, owner := treasury_id,
         acc_data := TREASURY_CONFIG_DISCRIMINATOR # enc tr_borsh example_config \<rparr>),
      (replicate 32 3, default_account\<lparr> lamports := 9000, owner := treasury_id \<rparr>),
      (replicate 32 4, default_account\<lparr> lamports := 10 \<rparr>),
      (treasury_id, default_account)]"

definition treasury_ix :: InstructionContext where
  "treasury_ix = \<lparr> program_account_index_in_tx = 4,
     instruction_accounts = [\<lparr> index_in_transaction = 0, is_signer = True, is_writable = False \<rparr>,
                             \<lparr> index_in_transaction = 1, is_signer = False, is_writable = True \<rparr>,
                             \<lparr> index_in_transaction = 2, is_signer = False, is_writable = True \<rparr>,
                             \<lparr> index_in_transaction = 3, is_signer = False, is_writable = True \<rparr>] \<rparr>"

lemma example_config_facts:
  "tr_ok example_config" "tr_authority example_config = replicate 32 1" "total_disbursed example_config = 40"
  "length (enc tr_borsh example_config) = 89"
  by (simp_all add: tr_ok_def example_config_def tr_borsh_def)

lemma example_config_read:
  "tr_deserialize tr_borsh (TREASURY_CONFIG_DISCRIMINATOR # enc tr_borsh example_config) = Some example_config"
  using tr_borsh.dec_enc [OF example_config_facts(1), of "[]"] by (simp add: tr_deserialize_def state_deserialize_def)

lemma treasury_tx_config: "config_of tr_borsh treasury_tx 1 = Some example_config"
  by (simp add: config_of_def treasury_tx_def TransactionAccounts_new_def acct_def example_config_read)

lemma example_disburse:
  "\<exists>tx'. process_disburse tr_borsh (Inr \<lparr> epoch = 9, unix_timestamp = 5 \<rparr>) 600 (replicate 32 4) [] treasury_ix treasury_tx = Inr tx'"
proof -
  let ?n = "example_config\<lparr> total_disbursed := 640, last_updated_epoch := 9 \<rparr>"
  have ok: "tr_ok ?n" by (simp add: tr_ok_def example_config_def)
  let ?d = "TREASURY_CONFIG_DISCRIMINATOR # enc tr_borsh example_config"
  obtain buf where buf: "tr_serialize_into tr_borsh ?n ?d = Some buf" "length buf = 90"
    using tr_borsh.serialize_succeeds [OF ok, of ?d TREASURY_CONFIG_DISCRIMINATOR]
      tr_borsh.serialize_roundtrip [OF ok, of TREASURY_CONFIG_DISCRIMINATOR ?d]
    by (auto simp: tr_serialize_into_def TR_SERIALIZED_SIZE_def example_config_facts)
  then show ?thesis
    by (simp add: process_disburse_def treasury_ix_def treasury_tx_def handler_eval example_config_facts example_config_read)
qed

text \<open>
  C22: The authority controls the treasury: every instruction keeps an existing configuration in
  place; it is changed only with the signature of its current authority, the authority changes only by
  \<^verbatim>\<open>UpdateAuthority\<close>, the total disbursed only by \<^verbatim>\<open>Disburse\<close> and by the amount disbursed, governance is
  never deactivated, and the treasury account is fixed.
\<close>

theorem treasury_controlled_by_authority:
  assumes "state_codec c tr_ok 89" "tx_wf tx" "tr_dispatch c clk ins ix tx = Inr tx'"
    and "config_of c tx i = Some cfg" "tr_ins_ok ins" "clock_ok clk"
  shows "\<exists>cfg'. config_of c tx' i = Some cfg' \<and> config_change ins cfg cfg'
    \<and> (cfg' \<noteq> cfg \<longrightarrow> signed_by ix tx (tr_authority cfg))"
  using assms by (rule config_step)

theorem treasury_controlled_by_authority_witness:
  "let ins = Disburse 600 (replicate 32 4) [] in
   \<exists>tx' cfg'. tr_dispatch tr_borsh (Inr \<lparr> epoch = 9, unix_timestamp = 5 \<rparr>) ins treasury_ix treasury_tx = Inr tx'
     \<and> config_of tr_borsh tx' 1 = Some cfg' \<and> config_change ins example_config cfg'"
proof -
  let ?clk = "Inr \<lparr> epoch = 9, unix_timestamp = 5 \<rparr>" and ?ins = "Disburse 600 (replicate 32 4) []"
  obtain tx' where r: "tr_dispatch tr_borsh ?clk ?ins treasury_ix treasury_tx = Inr tx'"
    using example_disburse by auto
  have "tx_wf treasury_tx" "tr_ins_ok ?ins" "clock_ok ?clk" by (simp_all add: treasury_tx_def clock_ok_def)
  from treasury_controlled_by_authority [OF tr_borsh.state_codec_axioms this(1) r treasury_tx_config this(2,3)] r
  show ?thesis unfolding Let_def by blast
qed

text \<open>
  A disbursement moves exactly its amount from the given source to the named recipient and
  nothing else: the signer is the authority of the configuration, every other balance is unchanged,
  and the configuration records the amount.
\<close>

theorem disburse_moves_exactly:
  assumes "state_codec c tr_ok 89" "tx_wf tx" "process_disburse c clk amt rcp memo ix tx = Inr tx'" "clock_ok clk"
    and "acc = instruction_accounts ix ! 1" "src = instruction_accounts ix ! 2" "dst = instruction_accounts ix ! 3"
    and "index_in_transaction src \<noteq> index_in_transaction dst"
  shows "\<exists>cfg cfg'. config_of c tx (index_in_transaction acc) = Some cfg \<and> signed_by ix tx (tr_authority cfg)
    \<and> config_of c tx' (index_in_transaction acc) = Some cfg' \<and> total_disbursed cfg' = total_disbursed cfg + amt
    \<and> account_key tx (index_in_transaction dst) = Some rcp
    \<and> (\<forall>j. lamports (acct tx' j) + (if j = index_in_transaction src then amt else 0)
         = lamports (acct tx j) + (if j = index_in_transaction dst then amt else 0))"
proof (rule disburse_run [OF assms(2,3)])
  fix acc' cfg clock buf tx1 src' tx2 dst'
  assume h: "is_instruction_account_signer ix 0 = Inr True" "get_key_of_instruction_account ix tx 0 = Inr (tr_authority cfg)"
    "try_borrow_instruction_account ix tx 1 = Inr acc'" "tr_deserialize c (get_data tx acc') = Some cfg"
    "get_key_of_instruction_account ix tx 3 = Inr rcp" "total_disbursed cfg + amt < 2 ^ 64" "clk = Inr clock"
    "tr_serialize_into c (cfg\<lparr> total_disbursed := total_disbursed cfg + amt, last_updated_epoch := epoch clock \<rparr>) (get_data tx acc') = Some buf"
    "set_data_from_slice ix acc' buf tx = Inr tx1" "try_borrow_instruction_account ix tx1 2 = Inr src'"
    "amt \<le> get_lamports tx1 src'" "checked_sub_lamports ix src' amt tx1 = Inr tx2"
    "try_borrow_instruction_account ix tx2 3 = Inr dst'" "checked_add_lamports ix dst' amt tx2 = Inr tx'"
  have e: "acc' = acc" "src' = src" "dst' = dst"
    using borrow_Inr [OF h(3)] borrow_Inr [OF h(10)] borrow_Inr [OF h(13)] assms(5-7) by simp_all
  note r0 = reached_start [OF assms(2), of ix]
  note r1 = reached_set_data [OF h(9) borrow_mem [OF h(3)] r0]
  note r2 = reached_sub [OF h(12) borrow_mem [OF h(10)] r1]
  have w: "tx_wf tx1" "tx_wf tx2" using r1 r2 by (auto simp: reached_def)
  note f = set_data_frame [OF assms(2) h(9)] sub_lamports_frame [OF w(1) h(12)] add_lamports_frame [OF w(2) h(14)]
  have "tr_ok (cfg\<lparr> total_disbursed := total_disbursed cfg + amt, last_updated_epoch := epoch clock \<rparr>)"
    using tr_loaded_ok [OF assms(1) h(4)] h(6,7) assms(4) by (simp add: tr_ok_def clock_ok_def)
  from tr_store [OF assms(1) this h(8)]
  have "config_of c tx' (index_in_transaction acc) =
      Some (cfg\<lparr> total_disbursed := total_disbursed cfg + amt, last_updated_epoch := epoch clock \<rparr>)"
    using f by (simp add: config_of_def e)
  moreover have "account_key tx (index_in_transaction dst) = Some rcp"
    using h(5) borrow_Inr [OF h(13)] e(3) by (auto simp: get_key_of_instruction_account_def
        get_index_of_instruction_account_in_transaction_def get_key_of_account_at_index_def)
  moreover have "lamports (acct tx' j) + (if j = index_in_transaction src then amt else 0)
         = lamports (acct tx j) + (if j = index_in_transaction dst then amt else 0)" for j
    using f h(11) assms(8) by (auto simp: e get_lamports_def)
  ultimately show ?thesis using h(4) signed_byI [OF h(1,2)] by (auto simp: config_of_def get_data_def e)
qed

theorem disburse_moves_exactly_witness:
  "\<exists>tx' cfg'. process_disburse tr_borsh (Inr \<lparr> epoch = 9, unix_timestamp = 5 \<rparr>) 600 (replicate 32 4) [] treasury_ix treasury_tx = Inr tx'
     \<and> config_of tr_borsh tx' 1 = Some cfg' \<and> total_disbursed cfg' = 640 \<and> lamports (acct tx' 3) = 610"
proof -
  let ?clk = "Inr \<lparr> epoch = 9, unix_timestamp = 5 \<rparr>"
  obtain tx' where r: "process_disburse tr_borsh ?clk 600 (replicate 32 4) [] treasury_ix treasury_tx = Inr tx'"
    using example_disburse by auto
  have "tx_wf treasury_tx" "clock_ok ?clk" "lamports (acct treasury_tx 3) = 10"
    by (simp_all add: treasury_tx_def clock_ok_def) (simp add: handler_eval)
  with disburse_moves_exactly [OF tr_borsh.state_codec_axioms _ r _ refl refl refl] r treasury_tx_config
  show ?thesis by (auto simp: treasury_ix_def example_config_facts split: if_splits)
qed

end
