(* ===== verification/Governance_State.thy ===== *)
theory Governance_State
  imports Passive_Stake
begin

text \<open>
  The data of the governance program, \<^verbatim>\<open>programs/governance/src\<close>: constants, errors, the three kinds
  of accounts with their stored form (\<^verbatim>\<open>state.rs\<close>), the instructions, and the voting power
  (\<^verbatim>\<open>vote_weight.rs\<close>). The Borsh codecs of the three records are a parameter; the locale
  \<open>governance_codecs\<close> states their laws and is interpreted on the documented layout.

  Shown: the layout satisfies the laws, also for the proposal, whose encoding varies with its type; the
  voting power read from the bytes of a stake position is the one of its amount and tier.
\<close>

section \<open>Constants and errors\<close>

definition EMERGENCY_UNLOCK_PASS_THRESHOLD_BPS :: u16 where "EMERGENCY_UNLOCK_PASS_THRESHOLD_BPS = 8000"
definition MAX_TITLE_LEN :: nat where "MAX_TITLE_LEN = 64"
definition VOTE_WEIGHT_VALIDATOR_BPS :: u64 where "VOTE_WEIGHT_VALIDATOR_BPS = 10000"
definition VOTE_WEIGHT_NO_LOCK_BPS :: u64 where "VOTE_WEIGHT_NO_LOCK_BPS = 0"
definition VOTE_WEIGHT_30_DAY_BPS :: u64 where "VOTE_WEIGHT_30_DAY_BPS = 1000"
definition VOTE_WEIGHT_90_DAY_BPS :: u64 where "VOTE_WEIGHT_90_DAY_BPS = 2000"
definition VOTE_WEIGHT_180_DAY_BPS :: u64 where "VOTE_WEIGHT_180_DAY_BPS = 3000"
definition VOTE_WEIGHT_360_DAY_BPS :: u64 where "VOTE_WEIGHT_360_DAY_BPS = 5000"
definition VOTE_WEIGHT_PERMANENT_BPS :: u64 where "VOTE_WEIGHT_PERMANENT_BPS = 15000"

lemmas vote_weight_defs = VOTE_WEIGHT_VALIDATOR_BPS_def VOTE_WEIGHT_NO_LOCK_BPS_def VOTE_WEIGHT_30_DAY_BPS_def
  VOTE_WEIGHT_90_DAY_BPS_def VOTE_WEIGHT_180_DAY_BPS_def VOTE_WEIGHT_360_DAY_BPS_def VOTE_WEIGHT_PERMANENT_BPS_def

text \<open>\<^verbatim>\<open>declare_id!\<close>: the bytes of \<^verbatim>\<open>Governance1111111111111111111111111111111111\<close> in base 58.\<close>

definition governance_id :: pubkey where
  "governance_id = [234, 228, 175, 187, 25, 230, 196, 31, 85, 171, 193, 154, 57, 189, 249, 124,
     48, 192, 178, 195, 80, 48, 146, 37, 2, 66, 135, 220, 0, 0, 0, 0]"

text \<open>Constructors that another theory already uses carry the prefix \<open>Gv\<close>.\<close>

datatype GovernanceError =
    GvInvalidAccountOwner | GvMissingAuthoritySignature | GvAuthorityMismatch | GvAlreadyInitialized | GvNotInitialized
  | GvInvalidAccountData | GvArithmeticOverflow | GovernanceNotActive | GvGovernanceAlreadyActive
  | InsufficientStakeForProposal | InvalidProposalStatus | VotingPeriodNotEnded | VotingPeriodEnded
  | TimelockNotExpired | ProposalAlreadyExecuted | QuorumNotReached | PassThresholdNotMet | VetoThresholdReached
  | NotEmergencyMultisig | AlreadyVoted | NoVotingPower | InvalidWeightProof | TitleTooLong | TooManyActiveProposals
  | InvalidConfigValue | MultisigOnly | InvalidProposalType | ProposalExpired

text \<open>The blanket conversion into \<^verbatim>\<open>InstructionError::Custom\<close> uses the position in the enumeration.\<close>

fun gv_err :: "GovernanceError \<Rightarrow> InstructionError" where
  "gv_err GvInvalidAccountOwner = Custom 0"
| "gv_err GvMissingAuthoritySignature = Custom 1"
| "gv_err GvAuthorityMismatch = Custom 2"
| "gv_err GvAlreadyInitialized = Custom 3"
| "gv_err GvNotInitialized = Custom 4"
| "gv_err GvInvalidAccountData = Custom 5"
| "gv_err GvArithmeticOverflow = Custom 6"
| "gv_err GovernanceNotActive = Custom 7"
| "gv_err GvGovernanceAlreadyActive = Custom 8"
| "gv_err InsufficientStakeForProposal = Custom 9"
| "gv_err InvalidProposalStatus = Custom 10"
| "gv_err VotingPeriodNotEnded = Custom 11"
| "gv_err VotingPeriodEnded = Custom 12"
| "gv_err TimelockNotExpired = Custom 13"
| "gv_err ProposalAlreadyExecuted = Custom 14"
| "gv_err QuorumNotReached = Custom 15"
| "gv_err PassThresholdNotMet = Custom 16"
| "gv_err VetoThresholdReached = Custom 17"
| "gv_err NotEmergencyMultisig = Custom 18"
| "gv_err AlreadyVoted = Custom 19"
| "gv_err NoVotingPower = Custom 20"
| "gv_err InvalidWeightProof = Custom 21"
| "gv_err TitleTooLong = Custom 22"
| "gv_err TooManyActiveProposals = Custom 23"
| "gv_err InvalidConfigValue = Custom 24"
| "gv_err MultisigOnly = Custom 25"
| "gv_err InvalidProposalType = Custom 26"
| "gv_err ProposalExpired = Custom 27"

section \<open>State\<close>

definition GOVERNANCE_CONFIG_DISCRIMINATOR :: u8 where "GOVERNANCE_CONFIG_DISCRIMINATOR = 1"
definition PROPOSAL_DISCRIMINATOR :: u8 where "PROPOSAL_DISCRIMINATOR = 2"
definition VOTE_RECORD_DISCRIMINATOR :: u8 where "VOTE_RECORD_DISCRIMINATOR = 3"

lemmas gv_disc = GOVERNANCE_CONFIG_DISCRIMINATOR_def PROPOSAL_DISCRIMINATOR_def VOTE_RECORD_DISCRIMINATOR_def

record GovernanceConfig =
  is_active :: bool
  gv_authority :: pubkey
  proposal_threshold :: u64
  voting_period_epochs :: u64
  quorum_bps :: u16
  pass_threshold_bps :: u16
  veto_threshold_bps :: u16
  timelock_epochs :: u64
  emergency_multisig :: pubkey
  next_proposal_id :: u64

definition GV_CONFIG_SERIALIZED_SIZE :: nat where
  "GV_CONFIG_SERIALIZED_SIZE = 1 + 1 + 32 + 8 + 8 + 2 + 2 + 2 + 8 + 32 + 8"

datatype ProposalType =
    ParameterChange u32 u64
  | TreasurySpend pubkey u64 bytes
  | EmergencyUnlock pubkey
  | ProgramUpgrade pubkey pubkey
  | FeatureToggle u32 bool
  | TextProposal

datatype ProposalStatus =
  Draft | Active | Passed | Rejected | Vetoed | Timelocked | Executed | Cancelled | Expired

datatype Vote = For | Against | Abstain | Veto

record Proposal =
  pr_id :: u64
  pr_proposer :: pubkey
  title :: bytes
  description_hash :: hash
  proposal_type :: ProposalType
  status :: ProposalStatus
  created_epoch :: u64
  voting_ends_epoch :: u64
  execution_epoch :: u64
  votes_for :: u64
  votes_against :: u64
  votes_abstain :: u64
  veto_votes :: u64
  executed :: bool

definition PROPOSAL_SERIALIZED_SIZE :: nat where
  "PROPOSAL_SERIALIZED_SIZE = 512"

definition is_emergency_unlock :: "Proposal \<Rightarrow> bool" where
  "is_emergency_unlock p = (case proposal_type p of EmergencyUnlock _ \<Rightarrow> True | _ \<Rightarrow> False)"

record VoteRecord =
  vr_proposal_id :: u64
  vr_voter :: pubkey
  vr_vote :: Vote
  vr_weight :: u64
  voted_epoch :: u64

definition VOTE_RECORD_SERIALIZED_SIZE :: nat where
  "VOTE_RECORD_SERIALIZED_SIZE = 1 + 8 + 32 + 1 + 8 + 8"

text \<open>The derived Borsh codecs.\<close>

record gv_codecs =
  config_codec :: "GovernanceConfig codec"
  proposal_codec :: "Proposal codec"
  record_codec :: "VoteRecord codec"

definition gv_config_deserialize :: "gv_codecs \<Rightarrow> bytes \<Rightarrow> GovernanceConfig option" where
  "gv_config_deserialize cs data = state_deserialize GOVERNANCE_CONFIG_DISCRIMINATOR (config_codec cs) data"

definition gv_config_serialize_into :: "gv_codecs \<Rightarrow> GovernanceConfig \<Rightarrow> bytes \<Rightarrow> bytes option" where
  "gv_config_serialize_into cs cfg data =
     state_serialize_into GOVERNANCE_CONFIG_DISCRIMINATOR GV_CONFIG_SERIALIZED_SIZE (config_codec cs) cfg data"

definition proposal_deserialize :: "gv_codecs \<Rightarrow> bytes \<Rightarrow> Proposal option" where
  "proposal_deserialize cs data = state_deserialize PROPOSAL_DISCRIMINATOR (proposal_codec cs) data"

definition proposal_serialize_into :: "gv_codecs \<Rightarrow> Proposal \<Rightarrow> bytes \<Rightarrow> bytes option" where
  "proposal_serialize_into cs p data =
     state_serialize_into PROPOSAL_DISCRIMINATOR PROPOSAL_SERIALIZED_SIZE (proposal_codec cs) p data"

definition vote_record_deserialize :: "gv_codecs \<Rightarrow> bytes \<Rightarrow> VoteRecord option" where
  "vote_record_deserialize cs data = state_deserialize VOTE_RECORD_DISCRIMINATOR (record_codec cs) data"

definition vote_record_serialize_into :: "gv_codecs \<Rightarrow> VoteRecord \<Rightarrow> bytes \<Rightarrow> bytes option" where
  "vote_record_serialize_into cs r data =
     state_serialize_into VOTE_RECORD_DISCRIMINATOR VOTE_RECORD_SERIALIZED_SIZE (record_codec cs) r data"

text \<open>The fields of \<^verbatim>\<open>InitializeGovernance\<close> and \<^verbatim>\<open>UpdateConfig\<close> are in the order of the source.\<close>

datatype GovernanceInstruction =
    InitializeGovernance pubkey u64 u64 u16 u16 u16 u64 pubkey
  | CreateProposal bytes hash ProposalType
  | CastVote u64 Vote
  | ExecuteProposal u64
  | CancelProposal u64
  | VetoProposal u64
  | GvActivateGovernance
  | UpdateConfig u64 u64 u16 u16 u16 u64 pubkey

section \<open>Voting power\<close>

datatype StakeSource = ValidatorOrDelegator | PassiveStake u64 | Unstaked

definition gv_vote_weight_bps :: "StakeSource \<Rightarrow> u64" where
  "gv_vote_weight_bps source =
     (case source of
        ValidatorOrDelegator \<Rightarrow> VOTE_WEIGHT_VALIDATOR_BPS
      | Unstaked \<Rightarrow> 0
      | PassiveStake days \<Rightarrow>
          if days = TIER_NO_LOCK then VOTE_WEIGHT_NO_LOCK_BPS
          else if days = TIER_30_DAY then VOTE_WEIGHT_30_DAY_BPS
          else if days = TIER_90_DAY then VOTE_WEIGHT_90_DAY_BPS
          else if days = TIER_180_DAY then VOTE_WEIGHT_180_DAY_BPS
          else if days = TIER_360_DAY then VOTE_WEIGHT_360_DAY_BPS
          else if days = PERMANENT_LOCK_DAYS then VOTE_WEIGHT_PERMANENT_BPS
          else 0)"

text \<open>\<^verbatim>\<open>u64::try_from\<close> of a \<^verbatim>\<open>u128\<close>.\<close>

definition u64_try_from :: "u128 \<Rightarrow> u64 option" where
  "u64_try_from x = (if x < 2 ^ 64 then Some x else None)"

definition weighted_power :: "u64 \<Rightarrow> u64 \<Rightarrow> u64 option" where
  "weighted_power amt weight =
     Option.bind (checked_mul 128 amt weight) (\<lambda>x.
     Option.bind (checked_div x BPS_DENOMINATOR) (\<lambda>power. u64_try_from power))"

definition calculate_voting_power :: "u64 \<Rightarrow> StakeSource \<Rightarrow> u64 option" where
  "calculate_voting_power amt source =
     (let weight = gv_vote_weight_bps source in if weight = 0 then Some 0 else weighted_power amt weight)"

definition voting_power_from_passive_stake_data :: "bytes \<Rightarrow> (u64 \<times> u64) option" where
  "voting_power_from_passive_stake_data data =
     (if length data < 84 then None
      else if hd data \<noteq> 1 then None
      else let amt = u_field 33 8 data; weight = u_field 82 2 data in
        if weight = 0 then None
        else Option.bind (weighted_power amt weight) (\<lambda>power. Some (amt, power)))"

lemma weighted_power_value:
  assumes "amt < 2 ^ 64" "w < 2 ^ 16"
  shows "weighted_power amt w = (if amt * w div 10000 < 2 ^ 64 then Some (amt * w div 10000) else None)"
proof -
  have "amt * w < 2 ^ 64 * 2 ^ 16" using assms by (intro mult_strict_mono) auto
  then have "amt * w < 2 ^ 128" by simp
  then show ?thesis
    by (simp add: weighted_power_def checked_mul_def checked_div_def BPS_DENOMINATOR_def u64_try_from_def)
qed

lemma weighted_power_bound: "weighted_power amt w = Some x \<Longrightarrow> x < 2 ^ 64"
  by (auto simp: weighted_power_def u64_try_from_def split: bind_splits if_splits)

lemma stake_power_bound: "voting_power_from_passive_stake_data d = Some (a, x) \<Longrightarrow> x < 2 ^ 64"
  using weighted_power_bound
  by (auto simp: voting_power_from_passive_stake_data_def Let_def split: bind_splits if_splits)

section \<open>The documented layout\<close>

definition gv_config_ok :: "GovernanceConfig \<Rightarrow> bool" where
  "gv_config_ok s \<longleftrightarrow> length (gv_authority s) = 32 \<and> proposal_threshold s < 2 ^ 64 \<and> voting_period_epochs s < 2 ^ 64
     \<and> quorum_bps s < 2 ^ 16 \<and> pass_threshold_bps s < 2 ^ 16 \<and> veto_threshold_bps s < 2 ^ 16
     \<and> timelock_epochs s < 2 ^ 64 \<and> length (emergency_multisig s) = 32 \<and> next_proposal_id s < 2 ^ 64"

fun type_ok :: "ProposalType \<Rightarrow> bool" where
  "type_ok (ParameterChange i v) = (i < 2 ^ 32 \<and> v < 2 ^ 64)"
| "type_ok (TreasurySpend k a m) = (length k = 32 \<and> a < 2 ^ 64 \<and> length m = 32)"
| "type_ok (EmergencyUnlock k) = (length k = 32)"
| "type_ok (ProgramUpgrade k b) = (length k = 32 \<and> length b = 32)"
| "type_ok (FeatureToggle i e) = (i < 2 ^ 32)"
| "type_ok TextProposal = True"

definition proposal_ok :: "Proposal \<Rightarrow> bool" where
  "proposal_ok s \<longleftrightarrow> pr_id s < 2 ^ 64 \<and> length (pr_proposer s) = 32 \<and> length (title s) = 64 \<and> length (description_hash s) = 32
     \<and> type_ok (proposal_type s) \<and> created_epoch s < 2 ^ 64 \<and> voting_ends_epoch s < 2 ^ 64 \<and> execution_epoch s < 2 ^ 64
     \<and> votes_for s < 2 ^ 64 \<and> votes_against s < 2 ^ 64 \<and> votes_abstain s < 2 ^ 64 \<and> veto_votes s < 2 ^ 64"

definition vote_record_ok :: "VoteRecord \<Rightarrow> bool" where
  "vote_record_ok s \<longleftrightarrow> vr_proposal_id s < 2 ^ 64 \<and> length (vr_voter s) = 32 \<and> vr_weight s < 2 ^ 64 \<and> voted_epoch s < 2 ^ 64"

locale governance_codecs =
    config: state_codec "config_codec cs" gv_config_ok 103
  + pr: state_codec "proposal_codec cs" proposal_ok 511
  + vr: state_codec "record_codec cs" vote_record_ok 57
  for cs :: gv_codecs
begin

lemma config_store:
  "gv_config_ok s \<Longrightarrow> gv_config_serialize_into cs s data = Some buf \<Longrightarrow> gv_config_deserialize cs buf = Some s"
  using config.serialize_roundtrip
  by (simp add: gv_config_serialize_into_def gv_config_deserialize_def GV_CONFIG_SERIALIZED_SIZE_def)

lemma config_loaded_ok: "gv_config_deserialize cs data = Some s \<Longrightarrow> gv_config_ok s"
  using config.deserialize_ok by (simp add: gv_config_deserialize_def)

lemma proposal_store:
  "proposal_ok s \<Longrightarrow> proposal_serialize_into cs s data = Some buf \<Longrightarrow> proposal_deserialize cs buf = Some s"
  using pr.serialize_roundtrip
  by (simp add: proposal_serialize_into_def proposal_deserialize_def PROPOSAL_SERIALIZED_SIZE_def)

lemma proposal_loaded_ok: "proposal_deserialize cs data = Some s \<Longrightarrow> proposal_ok s"
  using pr.deserialize_ok by (simp add: proposal_deserialize_def)

end

definition config_borsh :: "GovernanceConfig codec" where
  "config_borsh =
     \<lparr> enc = (\<lambda>s. bool_byte (is_active s) @ gv_authority s @ le_bytes 8 (int (proposal_threshold s))
         @ le_bytes 8 (int (voting_period_epochs s)) @ le_bytes 2 (int (quorum_bps s)) @ le_bytes 2 (int (pass_threshold_bps s))
         @ le_bytes 2 (int (veto_threshold_bps s)) @ le_bytes 8 (int (timelock_epochs s)) @ emergency_multisig s
         @ le_bytes 8 (int (next_proposal_id s))),
       dec = (\<lambda>d. if length d < 103 \<or> field 0 1 d \<noteq> bool_byte True \<and> field 0 1 d \<noteq> bool_byte False then None
         else Some \<lparr> is_active = (field 0 1 d = bool_byte True), gv_authority = field 1 32 d,
           proposal_threshold = u_field 33 8 d, voting_period_epochs = u_field 41 8 d, quorum_bps = u_field 49 2 d,
           pass_threshold_bps = u_field 51 2 d, veto_threshold_bps = u_field 53 2 d, timelock_epochs = u_field 55 8 d,
           emergency_multisig = field 63 32 d, next_proposal_id = u_field 95 8 d \<rparr>) \<rparr>"

interpretation config_borsh: state_codec config_borsh gv_config_ok 103
proof
  fix s rest
  show "gv_config_ok s \<Longrightarrow> dec config_borsh (enc config_borsh s @ rest) = Some s"
    by (simp add: config_borsh_def gv_config_ok_def read_fields)
  show "gv_config_ok s \<Longrightarrow> length (enc config_borsh s) \<le> 103" by (simp add: config_borsh_def gv_config_ok_def)
next
  fix data s
  assume "dec config_borsh data = Some s"
  then show "gv_config_ok s"
    using u_field_range [of 33 8 data] u_field_range [of 41 8 data] u_field_range [of 49 2 data]
      u_field_range [of 51 2 data] u_field_range [of 53 2 data] u_field_range [of 55 8 data] u_field_range [of 95 8 data]
    by (auto simp: config_borsh_def gv_config_ok_def field_def split: if_splits)
qed

fun vote_byte :: "Vote \<Rightarrow> bytes" where
  "vote_byte For = [0]"
| "vote_byte Against = [1]"
| "vote_byte Abstain = [2]"
| "vote_byte Veto = [3]"

definition vote_of :: "bytes \<Rightarrow> Vote option" where
  "vote_of d = find (\<lambda>v. vote_byte v = d) [For, Against, Abstain, Veto]"

lemma vote_of_byte [simp]: "vote_of (vote_byte v) = Some v" "length (vote_byte v) = 1"
  by (cases v; simp add: vote_of_def)+

definition record_borsh :: "VoteRecord codec" where
  "record_borsh =
     \<lparr> enc = (\<lambda>s. le_bytes 8 (int (vr_proposal_id s)) @ vr_voter s @ vote_byte (vr_vote s)
         @ le_bytes 8 (int (vr_weight s)) @ le_bytes 8 (int (voted_epoch s))),
       dec = (\<lambda>d. if length d < 57 then None
         else Option.bind (vote_of (field 40 1 d)) (\<lambda>v.
           Some \<lparr> vr_proposal_id = u_field 0 8 d, vr_voter = field 8 32 d, vr_vote = v, vr_weight = u_field 41 8 d,
             voted_epoch = u_field 49 8 d \<rparr>)) \<rparr>"

interpretation record_borsh: state_codec record_borsh vote_record_ok 57
proof
  fix s rest
  show "vote_record_ok s \<Longrightarrow> dec record_borsh (enc record_borsh s @ rest) = Some s"
    by (simp add: record_borsh_def vote_record_ok_def read_fields)
  show "vote_record_ok s \<Longrightarrow> length (enc record_borsh s) \<le> 57" by (simp add: record_borsh_def vote_record_ok_def)
next
  fix data s
  assume "dec record_borsh data = Some s"
  then show "vote_record_ok s"
    using u_field_range [of 0 8 data] u_field_range [of 41 8 data] u_field_range [of 49 8 data]
    by (auto simp: record_borsh_def vote_record_ok_def field_def split: if_splits bind_splits)
qed

text \<open>A proposal: a fixed head, the type with its tag, a fixed tail.\<close>

fun status_byte :: "ProposalStatus \<Rightarrow> bytes" where
  "status_byte Draft = [0]"
| "status_byte Active = [1]"
| "status_byte Passed = [2]"
| "status_byte Rejected = [3]"
| "status_byte Vetoed = [4]"
| "status_byte Timelocked = [5]"
| "status_byte Executed = [6]"
| "status_byte Cancelled = [7]"
| "status_byte Expired = [8]"

definition status_of :: "bytes \<Rightarrow> ProposalStatus option" where
  "status_of d = find (\<lambda>s. status_byte s = d)
     [Draft, Active, Passed, Rejected, Vetoed, Timelocked, Executed, Cancelled, Expired]"

lemma status_of_byte [simp]: "status_of (status_byte s) = Some s" "length (status_byte s) = 1"
  by (cases s; simp add: status_of_def)+

fun type_enc :: "ProposalType \<Rightarrow> bytes" where
  "type_enc (ParameterChange i v) = [0] @ le_bytes 4 (int i) @ le_bytes 8 (int v)"
| "type_enc (TreasurySpend k a m) = [1] @ k @ le_bytes 8 (int a) @ m"
| "type_enc (EmergencyUnlock k) = [2] @ k"
| "type_enc (ProgramUpgrade k b) = [3] @ k @ b"
| "type_enc (FeatureToggle i e) = [4] @ le_bytes 4 (int i) @ bool_byte e"
| "type_enc TextProposal = [5]"

text \<open>The type at the front of the bytes, and the number of bytes it takes.\<close>

definition type_dec :: "bytes \<Rightarrow> (ProposalType \<times> nat) option" where
  "type_dec d =
     (let tag = field 0 1 d; n = length d in
      if tag = [0] \<and> 13 \<le> n then Some (ParameterChange (u_field 1 4 d) (u_field 5 8 d), 13)
      else if tag = [1] \<and> 73 \<le> n then Some (TreasurySpend (field 1 32 d) (u_field 33 8 d) (field 41 32 d), 73)
      else if tag = [2] \<and> 33 \<le> n then Some (EmergencyUnlock (field 1 32 d), 33)
      else if tag = [3] \<and> 65 \<le> n then Some (ProgramUpgrade (field 1 32 d) (field 33 32 d), 65)
      else if tag = [4] \<and> 6 \<le> n \<and> (field 5 1 d = bool_byte True \<or> field 5 1 d = bool_byte False)
        then Some (FeatureToggle (u_field 1 4 d) (field 5 1 d = bool_byte True), 6)
      else if tag = [5] then Some (TextProposal, 1)
      else None)"

lemma tag_skip:
  "field (Suc n) m (t # xs) = field n m xs" "u_field (Suc n) m (t # xs) = u_field n m xs" "field 0 (Suc 0) (t # xs) = [t]"
  by (simp_all add: u_field_def field_def)

lemma type_dec_enc: "type_ok ty \<Longrightarrow> type_dec (type_enc ty @ r) = Some (ty, length (type_enc ty))"
  by (cases ty) (simp_all add: type_dec_def read_fields tag_skip numeral_eq_Suc [symmetric] Let_def
      field_skip [of "[_]", simplified] u_field_skip [of "[_]", simplified])

lemma type_dec_ok: "type_dec d = Some (ty, n) \<Longrightarrow> type_ok ty"
  using u_field_range [of 1 4 d] u_field_range [of 5 8 d] u_field_range [of 33 8 d]
  by (auto simp: type_dec_def Let_def field_def split: if_splits)

lemma type_enc_length: "type_ok ty \<Longrightarrow> length (type_enc ty) \<le> 73"
  by (cases ty) auto

definition tail_enc :: "Proposal \<Rightarrow> bytes" where
  "tail_enc s = status_byte (status s) @ le_bytes 8 (int (created_epoch s)) @ le_bytes 8 (int (voting_ends_epoch s))
     @ le_bytes 8 (int (execution_epoch s)) @ le_bytes 8 (int (votes_for s)) @ le_bytes 8 (int (votes_against s))
     @ le_bytes 8 (int (votes_abstain s)) @ le_bytes 8 (int (veto_votes s)) @ bool_byte (executed s)"

definition proposal_borsh :: "Proposal codec" where
  "proposal_borsh =
     \<lparr> enc = (\<lambda>s. le_bytes 8 (int (pr_id s)) @ pr_proposer s @ title s @ description_hash s
         @ type_enc (proposal_type s) @ tail_enc s),
       dec = (\<lambda>d. if length d < 136 then None
         else Option.bind (type_dec (drop 136 d)) (\<lambda>(ty, n). let t = drop (136 + n) d in
           if length t < 58 \<or> field 57 1 t \<noteq> bool_byte True \<and> field 57 1 t \<noteq> bool_byte False then None
           else Option.bind (status_of (field 0 1 t)) (\<lambda>st. Some
             \<lparr> pr_id = u_field 0 8 d, pr_proposer = field 8 32 d, title = field 40 64 d, description_hash = field 104 32 d,
               proposal_type = ty, status = st, created_epoch = u_field 1 8 t, voting_ends_epoch = u_field 9 8 t,
               execution_epoch = u_field 17 8 t, votes_for = u_field 25 8 t, votes_against = u_field 33 8 t,
               votes_abstain = u_field 41 8 t, veto_votes = u_field 49 8 t,
               executed = (field 57 1 t = bool_byte True) \<rparr>))) \<rparr>"

lemma tail_fields:
  assumes "proposal_ok s"
  shows "field 0 1 (tail_enc s @ r) = status_byte (status s)" "u_field 1 8 (tail_enc s @ r) = created_epoch s"
    "u_field 9 8 (tail_enc s @ r) = voting_ends_epoch s" "u_field 17 8 (tail_enc s @ r) = execution_epoch s"
    "u_field 25 8 (tail_enc s @ r) = votes_for s" "u_field 33 8 (tail_enc s @ r) = votes_against s"
    "u_field 41 8 (tail_enc s @ r) = votes_abstain s" "u_field 49 8 (tail_enc s @ r) = veto_votes s"
    "field 57 1 (tail_enc s @ r) = bool_byte (executed s)" "length (tail_enc s) = 58"
  using assms by (simp_all add: proposal_ok_def tail_enc_def read_fields)

lemma proposal_borsh_dec_enc:
  assumes ok: "proposal_ok s"
  shows "dec proposal_borsh (enc proposal_borsh s @ rest) = Some s"
proof -
  note o = ok [unfolded proposal_ok_def]
  define h where "h = le_bytes 8 (int (pr_id s)) @ pr_proposer s @ title s @ description_hash s"
  define ty where "ty = type_enc (proposal_type s)"
  define d where "d = h @ ty @ tail_enc s @ rest"
  have e: "enc proposal_borsh s @ rest = d" by (simp add: proposal_borsh_def d_def h_def ty_def)
  have h: "length h = 136" using o by (simp add: h_def)
  then have "drop 136 d = ty @ tail_enc s @ rest" "drop (136 + length ty) d = tail_enc s @ rest" "length d = 136 + length ty + length (tail_enc s @ rest)"
    by (simp_all add: d_def)
  moreover have "type_dec (ty @ tail_enc s @ rest) = Some (proposal_type s, length ty)"
    using o by (simp add: ty_def type_dec_enc)
  moreover have "u_field 0 8 d = pr_id s" "field 8 32 d = pr_proposer s" "field 40 64 d = title s" "field 104 32 d = description_hash s"
    using o by (simp_all add: d_def h_def read_fields)
  ultimately show ?thesis unfolding e using tail_fields(1-9) [OF ok, of rest] tail_fields(10) [OF ok] by (simp add: proposal_borsh_def Let_def)
qed

interpretation proposal_borsh: state_codec proposal_borsh proposal_ok 511
proof
  fix s rest
  show "proposal_ok s \<Longrightarrow> dec proposal_borsh (enc proposal_borsh s @ rest) = Some s" by (rule proposal_borsh_dec_enc)
  show "proposal_ok s \<Longrightarrow> length (enc proposal_borsh s) \<le> 511"
    using type_enc_length [of "proposal_type s"] by (simp add: proposal_borsh_def proposal_ok_def tail_enc_def)
next
  fix data s
  assume a: "dec proposal_borsh data = Some s"
  then obtain ty n where t: "type_dec (drop 136 data) = Some (ty, n)" by (auto simp: proposal_borsh_def split: if_splits bind_splits)
  let ?t = "drop (136 + n) data"
  show "proposal_ok s"
    using a t type_dec_ok [OF t] u_field_range [of 0 8 data] u_field_range [of 1 8 ?t] u_field_range [of 9 8 ?t]
      u_field_range [of 17 8 ?t] u_field_range [of 25 8 ?t] u_field_range [of 33 8 ?t] u_field_range [of 41 8 ?t]
      u_field_range [of 49 8 ?t]
    by (auto simp: proposal_borsh_def proposal_ok_def field_def Let_def split: if_splits bind_splits)
qed

definition gv_borsh :: gv_codecs where
  "gv_borsh = \<lparr> config_codec = config_borsh, proposal_codec = proposal_borsh, record_codec = record_borsh \<rparr>"

interpretation gv_borsh: governance_codecs gv_borsh
  by (simp add: governance_codecs_def gv_borsh_def config_borsh.state_codec_axioms proposal_borsh.state_codec_axioms
      record_borsh.state_codec_axioms)

section \<open>Voting power of a stored position\<close>

lemma stored_position_fields:
  assumes "ps_ok s"
  shows "u_field 33 8 (stored s @ rest) = amount s" "u_field 82 2 (stored s @ rest) = vote_weight_bps s"
    "length (stored s) = 84" "hd (stored s @ rest) = 1"
proof -
  have "enc ps_borsh s = authority s @ le_bytes 8 (int (amount s)) @ le_bytes 8 (int (lock_days s))
         @ le_bytes 8 (lock_start s) @ le_bytes 8 (lock_end s) @ le_bytes 8 (int (unclaimed_rewards s))
         @ le_bytes 8 (int (last_reward_epoch s)) @ bool_byte (is_permanent s) @ le_bytes 2 (int (vote_weight_bps s))"
    by (simp add: ps_borsh_def)
  then show "u_field 33 8 (stored s @ rest) = amount s" "u_field 82 2 (stored s @ rest) = vote_weight_bps s"
    "length (stored s) = 84" "hd (stored s @ rest) = 1"
    using assms by (simp_all add: stored_def ps_ok_def PASSIVE_STAKE_ACCOUNT_DISCRIMINATOR_def read_fields
        u_field_skip [of "[_]", simplified])
qed

lemma position_voting_power:
  assumes "ps_ok s"
  shows "voting_power_from_passive_stake_data (stored s @ rest) =
    (let power = amount s * vote_weight_bps s div 10000 in
     if vote_weight_bps s = 0 \<or> 2 ^ 64 \<le> power then None else Some (amount s, power))"
  using assms stored_position_fields [OF assms] weighted_power_value [of "amount s" "vote_weight_bps s"]
  by (simp add: voting_power_from_passive_stake_data_def Let_def ps_ok_def)

lemma tier_weight:
  "vote_weight_bps_for_tier d = Some w \<Longrightarrow> gv_vote_weight_bps (PassiveStake d) = w"
  by (auto simp: vote_weight_bps_for_tier_def gv_vote_weight_bps_def vote_weight_defs tier_defs split: if_splits)

end
