(* ===== verification/Governance.thy ===== *)
theory Governance
  imports Governance_State
begin

text \<open>
  The governance program, \<^verbatim>\<open>programs/governance/src/processor.rs\<close>: the loading and saving of its
  accounts and the eight instructions. A handler that saves a status and then returns an error keeps
  that order; since an error discards the transaction, such a status is never stored. The Borsh codecs,
  the bincode decoder of the instruction data and the clock sysvar are parameters. Log messages and the
  compute budget are left out.

  Shown here: every instruction obeys the account rules. The protocol is in \<open>Governance_Protocol\<close>.
\<close>

section \<open>Accounts\<close>

definition load_governance_config ::
    "gv_codecs \<Rightarrow> InstructionContext \<Rightarrow> TransactionContext \<Rightarrow> nat \<Rightarrow> InstructionError + GovernanceConfig" where
  "load_governance_config cs ix tx i =
     res_bind (try_borrow_instruction_account ix tx i) (\<lambda>account.
     if get_owner tx account \<noteq> governance_id then Inl (gv_err GvInvalidAccountOwner)
     else ok_or (gv_err GvNotInitialized) (gv_config_deserialize cs (get_data tx account)))"

definition load_proposal ::
    "gv_codecs \<Rightarrow> InstructionContext \<Rightarrow> TransactionContext \<Rightarrow> nat \<Rightarrow> InstructionError + Proposal" where
  "load_proposal cs ix tx i =
     res_bind (try_borrow_instruction_account ix tx i) (\<lambda>account.
     if get_owner tx account \<noteq> governance_id then Inl (gv_err GvInvalidAccountOwner)
     else ok_or (gv_err GvInvalidAccountData) (proposal_deserialize cs (get_data tx account)))"

text \<open>\<^verbatim>\<open>Vec::resize\<close> to a minimal size.\<close>

definition grown :: "nat \<Rightarrow> bytes \<Rightarrow> bytes" where
  "grown n data = (if length data < n then resized n data else data)"

definition save_governance_config ::
    "gv_codecs \<Rightarrow> InstructionContext \<Rightarrow> nat \<Rightarrow> GovernanceConfig \<Rightarrow> TransactionContext \<Rightarrow> InstructionError + TransactionContext" where
  "save_governance_config cs ix i config tx =
     res_bind (try_borrow_instruction_account ix tx i) (\<lambda>account.
     res_bind (ok_or (gv_err GvInvalidAccountData)
        (gv_config_serialize_into cs config (grown GV_CONFIG_SERIALIZED_SIZE (get_data tx account)))) (\<lambda>data.
     set_data_from_slice ix account data tx))"

definition save_proposal ::
    "gv_codecs \<Rightarrow> InstructionContext \<Rightarrow> nat \<Rightarrow> Proposal \<Rightarrow> TransactionContext \<Rightarrow> InstructionError + TransactionContext" where
  "save_proposal cs ix i p tx =
     res_bind (try_borrow_instruction_account ix tx i) (\<lambda>account.
     res_bind (ok_or (gv_err GvInvalidAccountData)
        (proposal_serialize_into cs p (grown PROPOSAL_SERIALIZED_SIZE (get_data tx account)))) (\<lambda>data.
     set_data_from_slice ix account data tx))"

definition effective_pass_threshold :: "Proposal \<Rightarrow> GovernanceConfig \<Rightarrow> u16" where
  "effective_pass_threshold p config =
     (if is_emergency_unlock p then EMERGENCY_UNLOCK_PASS_THRESHOLD_BPS else pass_threshold_bps config)"

section \<open>Configuration and proposals\<close>

definition config_values_ok :: "u16 \<Rightarrow> u16 \<Rightarrow> u16 \<Rightarrow> u64 \<Rightarrow> bool" where
  "config_values_ok quorum pass veto period \<longleftrightarrow>
     \<not> (quorum = 0 \<or> quorum > 10000) \<and> \<not> (pass = 0 \<or> pass > 10000) \<and> \<not> (veto = 0 \<or> veto > 10000) \<and> period \<noteq> 0"

definition process_initialize_governance ::
    "gv_codecs \<Rightarrow> pubkey \<Rightarrow> u64 \<Rightarrow> u64 \<Rightarrow> u16 \<Rightarrow> u16 \<Rightarrow> u16 \<Rightarrow> u64 \<Rightarrow> pubkey \<Rightarrow> InstructionContext \<Rightarrow> TransactionContext \<Rightarrow>
     InstructionError + TransactionContext" where
  "process_initialize_governance cs auth threshold period quorum pass veto timelock multisig ix tx =
     res_bind (check_number_of_instruction_accounts ix 2) (\<lambda>_.
     res_bind (is_instruction_account_signer ix 0) (\<lambda>signed.
     if \<not> signed then Inl (gv_err GvMissingAuthoritySignature)
     else if \<not> config_values_ok quorum pass veto period then Inl (gv_err InvalidConfigValue)
     else
     res_bind (try_borrow_instruction_account ix tx 1) (\<lambda>config_account.
     if get_owner tx config_account \<noteq> governance_id then Inl (gv_err GvInvalidAccountOwner)
     else if get_data tx config_account \<noteq> [] \<and> hd (get_data tx config_account) = GOVERNANCE_CONFIG_DISCRIMINATOR
       then Inl (gv_err GvAlreadyInitialized)
     else
     let config = \<lparr> is_active = False, gv_authority = auth, proposal_threshold = threshold, voting_period_epochs = period,
                    quorum_bps = quorum, pass_threshold_bps = pass, veto_threshold_bps = veto, timelock_epochs = timelock,
                    emergency_multisig = multisig, next_proposal_id = 0 \<rparr> in
     save_governance_config cs ix 1 config tx)))"

text \<open>Who may propose: with active governance the stake decides, otherwise the authority.\<close>

definition may_propose ::
    "GovernanceConfig \<Rightarrow> pubkey \<Rightarrow> InstructionContext \<Rightarrow> TransactionContext \<Rightarrow> InstructionError + unit" where
  "may_propose config proposer ix tx =
     (if is_active config then
        res_bind (check_number_of_instruction_accounts ix 4) (\<lambda>_.
        res_bind (try_borrow_instruction_account ix tx 3) (\<lambda>stake_account.
        res_bind (ok_or (gv_err InsufficientStakeForProposal)
           (voting_power_from_passive_stake_data (get_data tx stake_account))) (\<lambda>(_, voting_power).
        if voting_power < proposal_threshold config then Inl (gv_err InsufficientStakeForProposal) else Inr ())))
      else if proposer \<noteq> gv_authority config then Inl (gv_err MultisigOnly)
      else Inr ())"

definition process_create_proposal ::
    "gv_codecs \<Rightarrow> (InstructionError + Clock) \<Rightarrow> bytes \<Rightarrow> hash \<Rightarrow> ProposalType \<Rightarrow> InstructionContext \<Rightarrow> TransactionContext \<Rightarrow>
     InstructionError + TransactionContext" where
  "process_create_proposal cs get_clock title_vec hash ty ix tx =
     res_bind (check_number_of_instruction_accounts ix 3) (\<lambda>_.
     res_bind (is_instruction_account_signer ix 0) (\<lambda>signed.
     if \<not> signed then Inl (gv_err GvMissingAuthoritySignature)
     else
     res_bind (get_key_of_instruction_account ix tx 0) (\<lambda>proposer.
     if length title_vec > MAX_TITLE_LEN then Inl (gv_err TitleTooLong)
     else
     res_bind (load_governance_config cs ix tx 1) (\<lambda>config.
     res_bind (may_propose config proposer ix tx) (\<lambda>_.
     res_bind (try_borrow_instruction_account ix tx 2) (\<lambda>proposal_account.
     if get_owner tx proposal_account \<noteq> governance_id then Inl (gv_err GvInvalidAccountOwner)
     else if get_data tx proposal_account \<noteq> [] \<and> hd (get_data tx proposal_account) = PROPOSAL_DISCRIMINATOR
       then Inl (gv_err GvAlreadyInitialized)
     else
     res_bind get_clock (\<lambda>clock.
     res_bind (ok_or (gv_err GvArithmeticOverflow) (checked_add 64 (next_proposal_id config) 1)) (\<lambda>next_id.
     res_bind (ok_or (gv_err GvArithmeticOverflow) (checked_add 64 (epoch clock) (voting_period_epochs config))) (\<lambda>ends.
     res_bind (ok_or (gv_err GvArithmeticOverflow) (checked_add 64 ends (timelock_epochs config))) (\<lambda>execution.
     let p = \<lparr> pr_id = next_proposal_id config, pr_proposer = proposer,
               title = title_vec @ replicate (64 - length title_vec) 0, description_hash = hash, proposal_type = ty,
               status = (if is_active config then Active else Timelocked), created_epoch = epoch clock,
               voting_ends_epoch = ends, execution_epoch = execution, votes_for = 0, votes_against = 0,
               votes_abstain = 0, veto_votes = 0, executed = False \<rparr> in
     res_bind (save_governance_config cs ix 1 (config\<lparr> next_proposal_id := next_id \<rparr>) tx) (\<lambda>tx.
     save_proposal cs ix 2 p tx)))))))))))"

section \<open>Votes\<close>

definition apply_vote :: "Vote \<Rightarrow> u64 \<Rightarrow> Proposal \<Rightarrow> InstructionError + Proposal" where
  "apply_vote vote weight p =
     (case vote of
        For \<Rightarrow> res_bind (ok_or (gv_err GvArithmeticOverflow) (checked_add 64 (votes_for p) weight))
          (\<lambda>n. Inr (p\<lparr> votes_for := n \<rparr>))
      | Against \<Rightarrow> res_bind (ok_or (gv_err GvArithmeticOverflow) (checked_add 64 (votes_against p) weight))
          (\<lambda>n. Inr (p\<lparr> votes_against := n \<rparr>))
      | Abstain \<Rightarrow> res_bind (ok_or (gv_err GvArithmeticOverflow) (checked_add 64 (votes_abstain p) weight))
          (\<lambda>n. Inr (p\<lparr> votes_abstain := n \<rparr>))
      | Veto \<Rightarrow> res_bind (ok_or (gv_err GvArithmeticOverflow) (checked_add 64 (veto_votes p) weight))
          (\<lambda>n. Inr (p\<lparr> veto_votes := n \<rparr>)))"

definition process_cast_vote ::
    "gv_codecs \<Rightarrow> (InstructionError + Clock) \<Rightarrow> u64 \<Rightarrow> Vote \<Rightarrow> InstructionContext \<Rightarrow> TransactionContext \<Rightarrow>
     InstructionError + TransactionContext" where
  "process_cast_vote cs get_clock proposal_id vote ix tx =
     res_bind (check_number_of_instruction_accounts ix 5) (\<lambda>_.
     res_bind (is_instruction_account_signer ix 0) (\<lambda>signed.
     if \<not> signed then Inl (gv_err GvMissingAuthoritySignature)
     else
     res_bind (get_key_of_instruction_account ix tx 0) (\<lambda>voter.
     res_bind (load_governance_config cs ix tx 2) (\<lambda>config.
     if \<not> is_active config then Inl (gv_err GovernanceNotActive)
     else
     res_bind (load_proposal cs ix tx 1) (\<lambda>p.
     if pr_id p \<noteq> proposal_id then Inl (gv_err GvInvalidAccountData)
     else if status p \<noteq> Active then Inl (gv_err InvalidProposalStatus)
     else
     res_bind get_clock (\<lambda>clock.
     if epoch clock \<ge> voting_ends_epoch p then Inl (gv_err VotingPeriodEnded)
     else
     res_bind (try_borrow_instruction_account ix tx 4) (\<lambda>vote_record_account.
     if get_owner tx vote_record_account \<noteq> governance_id then Inl (gv_err GvInvalidAccountOwner)
     else if get_data tx vote_record_account \<noteq> [] \<and> hd (get_data tx vote_record_account) = VOTE_RECORD_DISCRIMINATOR
       then Inl (gv_err AlreadyVoted)
     else
     res_bind (try_borrow_instruction_account ix tx 3) (\<lambda>stake_account.
     res_bind (ok_or (gv_err NoVotingPower) (voting_power_from_passive_stake_data (get_data tx stake_account))) (\<lambda>(_, weight).
     if weight = 0 then Inl (gv_err NoVotingPower)
     else
     res_bind (apply_vote vote weight p) (\<lambda>p.
     res_bind (save_proposal cs ix 1 p tx) (\<lambda>tx.
     let vote_record = \<lparr> vr_proposal_id = proposal_id, vr_voter = voter, vr_vote = vote, vr_weight = weight,
                         voted_epoch = epoch clock \<rparr> in
     res_bind (try_borrow_instruction_account ix tx 4) (\<lambda>vote_record_account.
     res_bind (ok_or (gv_err GvInvalidAccountData)
        (vote_record_serialize_into cs vote_record (grown VOTE_RECORD_SERIALIZED_SIZE (get_data tx vote_record_account)))) (\<lambda>data.
     set_data_from_slice ix vote_record_account data tx)))))))))))))"

section \<open>Outcome\<close>

definition total_votes :: "Proposal \<Rightarrow> InstructionError + u64" where
  "total_votes p =
     res_bind (ok_or (gv_err GvArithmeticOverflow) (checked_add 64 (votes_for p) (votes_against p))) (\<lambda>x.
     res_bind (ok_or (gv_err GvArithmeticOverflow) (checked_add 64 x (votes_abstain p))) (\<lambda>x.
     ok_or (gv_err GvArithmeticOverflow) (checked_add 64 x (veto_votes p))))"

definition share_bps :: "u64 \<Rightarrow> u64 \<Rightarrow> InstructionError + u128" where
  "share_bps part whole =
     res_bind (ok_or (gv_err GvArithmeticOverflow) (checked_mul 128 part BPS_DENOMINATOR)) (\<lambda>x.
     ok_or (gv_err GvArithmeticOverflow) (checked_div x whole))"

text \<open>An active proposal whose voting period is over.\<close>

definition close_voting ::
    "gv_codecs \<Rightarrow> GovernanceConfig \<Rightarrow> Proposal \<Rightarrow> Clock \<Rightarrow> InstructionContext \<Rightarrow> TransactionContext \<Rightarrow>
     InstructionError + TransactionContext" where
  "close_voting cs config p clock ix tx =
     (if epoch clock < voting_ends_epoch p then Inl (gv_err VotingPeriodNotEnded)
      else
      res_bind (total_votes p) (\<lambda>votes.
      if votes = 0 then
        res_bind (save_proposal cs ix 1 (p\<lparr> status := Expired \<rparr>) tx) (\<lambda>_. Inl (gv_err ProposalExpired))
      else
      res_bind (share_bps (veto_votes p) votes) (\<lambda>veto_pct.
      if veto_pct \<ge> veto_threshold_bps config then
        res_bind (save_proposal cs ix 1 (p\<lparr> status := Vetoed \<rparr>) tx) (\<lambda>_. Inl (gv_err VetoThresholdReached))
      else
      res_bind (ok_or (gv_err GvArithmeticOverflow) (checked_add 64 (votes_for p) (votes_against p))) (\<lambda>decisive.
      let pass_threshold = effective_pass_threshold p config in
      if decisive = 0 then
        res_bind (save_proposal cs ix 1 (p\<lparr> status := Rejected \<rparr>) tx) (\<lambda>_. Inl (gv_err PassThresholdNotMet))
      else
      res_bind (share_bps (votes_for p) decisive) (\<lambda>for_pct.
      if for_pct < pass_threshold then
        res_bind (save_proposal cs ix 1 (p\<lparr> status := Rejected \<rparr>) tx) (\<lambda>_. Inl (gv_err PassThresholdNotMet))
      else save_proposal cs ix 1 (p\<lparr> status := Timelocked \<rparr>) tx)))))"

text \<open>The execution itself only marks the proposal: the effects of the types are not implemented.\<close>

definition process_execute_proposal ::
    "gv_codecs \<Rightarrow> (InstructionError + Clock) \<Rightarrow> u64 \<Rightarrow> InstructionContext \<Rightarrow> TransactionContext \<Rightarrow>
     InstructionError + TransactionContext" where
  "process_execute_proposal cs get_clock proposal_id ix tx =
     res_bind (check_number_of_instruction_accounts ix 3) (\<lambda>_.
     res_bind (is_instruction_account_signer ix 0) (\<lambda>signed.
     if \<not> signed then Inl (gv_err GvMissingAuthoritySignature)
     else
     res_bind (get_key_of_instruction_account ix tx 0) (\<lambda>executor.
     res_bind (load_governance_config cs ix tx 2) (\<lambda>config.
     res_bind (load_proposal cs ix tx 1) (\<lambda>p.
     if pr_id p \<noteq> proposal_id then Inl (gv_err GvInvalidAccountData)
     else if \<not> is_active config \<and> executor \<noteq> gv_authority config then Inl (gv_err MultisigOnly)
     else if executed p then Inl (gv_err ProposalAlreadyExecuted)
     else
     res_bind get_clock (\<lambda>clock.
     let execute = save_proposal cs ix 1 (p\<lparr> status := Executed, executed := True \<rparr>) tx in
     if is_active config then
       (case status p of
          Active \<Rightarrow> close_voting cs config p clock ix tx
        | Passed \<Rightarrow> if epoch clock < execution_epoch p then Inl (gv_err TimelockNotExpired) else execute
        | Timelocked \<Rightarrow> if epoch clock < execution_epoch p then Inl (gv_err TimelockNotExpired) else execute
        | _ \<Rightarrow> Inl (gv_err InvalidProposalStatus))
     else if status p \<noteq> Timelocked then Inl (gv_err InvalidProposalStatus)
     else if epoch clock < execution_epoch p then Inl (gv_err TimelockNotExpired)
     else execute))))))"

definition process_cancel_proposal ::
    "gv_codecs \<Rightarrow> u64 \<Rightarrow> InstructionContext \<Rightarrow> TransactionContext \<Rightarrow> InstructionError + TransactionContext" where
  "process_cancel_proposal cs proposal_id ix tx =
     res_bind (check_number_of_instruction_accounts ix 3) (\<lambda>_.
     res_bind (is_instruction_account_signer ix 0) (\<lambda>signed.
     if \<not> signed then Inl (gv_err GvMissingAuthoritySignature)
     else
     res_bind (get_key_of_instruction_account ix tx 0) (\<lambda>signer.
     res_bind (load_governance_config cs ix tx 2) (\<lambda>config.
     if signer \<noteq> emergency_multisig config then Inl (gv_err NotEmergencyMultisig)
     else
     res_bind (load_proposal cs ix tx 1) (\<lambda>p.
     if pr_id p \<noteq> proposal_id then Inl (gv_err GvInvalidAccountData)
     else if status p \<notin> {Active, Passed, Timelocked} then Inl (gv_err InvalidProposalStatus)
     else save_proposal cs ix 1 (p\<lparr> status := Cancelled \<rparr>) tx)))))"

definition process_veto_proposal ::
    "gv_codecs \<Rightarrow> u64 \<Rightarrow> InstructionContext \<Rightarrow> TransactionContext \<Rightarrow> InstructionError + TransactionContext" where
  "process_veto_proposal cs proposal_id ix tx =
     res_bind (check_number_of_instruction_accounts ix 3) (\<lambda>_.
     res_bind (is_instruction_account_signer ix 0) (\<lambda>signed.
     if \<not> signed then Inl (gv_err GvMissingAuthoritySignature)
     else
     res_bind (load_governance_config cs ix tx 2) (\<lambda>config.
     res_bind (load_proposal cs ix tx 1) (\<lambda>p.
     if pr_id p \<noteq> proposal_id then Inl (gv_err GvInvalidAccountData)
     else if status p \<notin> {Active, Timelocked} then Inl (gv_err InvalidProposalStatus)
     else
     res_bind (total_votes p) (\<lambda>votes.
     if votes = 0 then Inl (gv_err VetoThresholdReached)
     else
     res_bind (share_bps (veto_votes p) votes) (\<lambda>veto_pct.
     if veto_pct < veto_threshold_bps config then Inl (gv_err InvalidProposalStatus)
     else save_proposal cs ix 1 (p\<lparr> status := Vetoed \<rparr>) tx))))))"

section \<open>Authority\<close>

definition process_activate_gv ::
    "gv_codecs \<Rightarrow> InstructionContext \<Rightarrow> TransactionContext \<Rightarrow> InstructionError + TransactionContext" where
  "process_activate_gv cs ix tx =
     res_bind (check_number_of_instruction_accounts ix 2) (\<lambda>_.
     res_bind (is_instruction_account_signer ix 0) (\<lambda>signed.
     if \<not> signed then Inl (gv_err GvMissingAuthoritySignature)
     else
     res_bind (get_key_of_instruction_account ix tx 0) (\<lambda>signer.
     res_bind (load_governance_config cs ix tx 1) (\<lambda>config.
     if signer \<noteq> gv_authority config then Inl (gv_err GvAuthorityMismatch)
     else if is_active config then Inl (gv_err GvGovernanceAlreadyActive)
     else save_governance_config cs ix 1 (config\<lparr> is_active := True \<rparr>) tx))))"

definition process_update_config ::
    "gv_codecs \<Rightarrow> u64 \<Rightarrow> u64 \<Rightarrow> u16 \<Rightarrow> u16 \<Rightarrow> u16 \<Rightarrow> u64 \<Rightarrow> pubkey \<Rightarrow> InstructionContext \<Rightarrow> TransactionContext \<Rightarrow>
     InstructionError + TransactionContext" where
  "process_update_config cs threshold period quorum pass veto timelock multisig ix tx =
     res_bind (check_number_of_instruction_accounts ix 2) (\<lambda>_.
     res_bind (is_instruction_account_signer ix 0) (\<lambda>signed.
     if \<not> signed then Inl (gv_err GvMissingAuthoritySignature)
     else
     res_bind (get_key_of_instruction_account ix tx 0) (\<lambda>signer.
     res_bind (load_governance_config cs ix tx 1) (\<lambda>config.
     if signer \<noteq> gv_authority config then Inl (gv_err GvAuthorityMismatch)
     else if \<not> config_values_ok quorum pass veto period then Inl (gv_err InvalidConfigValue)
     else save_governance_config cs ix 1
       (config\<lparr> proposal_threshold := threshold, voting_period_epochs := period, quorum_bps := quorum,
                pass_threshold_bps := pass, veto_threshold_bps := veto, timelock_epochs := timelock,
                emergency_multisig := multisig \<rparr>) tx))))"

fun gv_dispatch ::
    "gv_codecs \<Rightarrow> (InstructionError + Clock) \<Rightarrow> GovernanceInstruction \<Rightarrow> InstructionContext \<Rightarrow> TransactionContext \<Rightarrow>
     InstructionError + TransactionContext" where
  "gv_dispatch cs clk (InitializeGovernance a t p q pa v d m) ix tx = process_initialize_governance cs a t p q pa v d m ix tx"
| "gv_dispatch cs clk (CreateProposal ti h ty) ix tx = process_create_proposal cs clk ti h ty ix tx"
| "gv_dispatch cs clk (CastVote i v) ix tx = process_cast_vote cs clk i v ix tx"
| "gv_dispatch cs clk (ExecuteProposal i) ix tx = process_execute_proposal cs clk i ix tx"
| "gv_dispatch cs clk (CancelProposal i) ix tx = process_cancel_proposal cs i ix tx"
| "gv_dispatch cs clk (VetoProposal i) ix tx = process_veto_proposal cs i ix tx"
| "gv_dispatch cs clk GvActivateGovernance ix tx = process_activate_gv cs ix tx"
| "gv_dispatch cs clk (UpdateConfig t p q pa v d m) ix tx = process_update_config cs t p q pa v d m ix tx"

definition gv_entrypoint ::
    "(bytes \<Rightarrow> GovernanceInstruction option) \<Rightarrow> gv_codecs \<Rightarrow> (InstructionError + Clock) \<Rightarrow>
     bytes \<Rightarrow> InstructionContext \<Rightarrow> TransactionContext \<Rightarrow> InstructionError + TransactionContext" where
  "gv_entrypoint limited_deserialize cs clk instruction_data ix tx =
     res_bind (ok_or InvalidInstructionData (limited_deserialize instruction_data)) (\<lambda>ins.
     gv_dispatch cs clk ins ix tx)"

section \<open>Account rules\<close>

lemma reached_save [reached_op]:
  "save_proposal cs ix k p tx = Inr tx' \<Longrightarrow> reached ix tx0 tx \<Longrightarrow> reached ix tx0 tx'"
  "save_governance_config cs ix k cfg tx = Inr tx' \<Longrightarrow> reached ix tx0 tx \<Longrightarrow> reached ix tx0 tx'"
  by (auto simp: save_proposal_def save_governance_config_def intro: reached_set_data dest: borrow_mem)

lemmas gv_handlers = process_initialize_governance_def process_create_proposal_def process_cast_vote_def
  process_execute_proposal_def close_voting_def process_cancel_proposal_def process_veto_proposal_def
  process_activate_gv_def process_update_config_def

lemma gv_reached:
  "reached ix tx0 tx \<Longrightarrow> gv_dispatch cs clk ins ix tx = Inr tx' \<Longrightarrow> reached ix tx0 tx'"
  by (cases ins; auto simp: gv_handlers Let_def dest!: borrow_mem split: if_splits ProposalStatus.splits;
      blast intro: reached_op)

interpretation governance: account_program "gv_dispatch cs clk" for cs clk
  by unfold_locales (blast intro: reached_allowed gv_reached reached_start)

end
