(* ===== verification/Governance_Protocol.thy ===== *)
theory Governance_Protocol
  imports Governance
begin

text \<open>
  What the governance program guarantees. The abstract protocol of a proposal is the relation \<open>life\<close>;
  every instruction refines it, and sequences of instructions inherit its invariants. The configuration
  changes only by its authority. An explicit execution shows what the handlers do not check: an account
  passed as vote record may be any account of the program, and an account passed as proof of stake may
  be any account at all.
\<close>

section \<open>What the accounts hold\<close>

definition at :: "InstructionContext \<Rightarrow> nat \<Rightarrow> nat" where
  "at ix k = index_in_transaction (instruction_accounts ix ! k)"

definition proposal_at :: "gv_codecs \<Rightarrow> TransactionContext \<Rightarrow> nat \<Rightarrow> Proposal option" where
  "proposal_at cs tx i = proposal_deserialize cs (acc_data (acct tx i))"

definition gv_config_at :: "gv_codecs \<Rightarrow> TransactionContext \<Rightarrow> nat \<Rightarrow> GovernanceConfig option" where
  "gv_config_at cs tx i = gv_config_deserialize cs (acc_data (acct tx i))"

lemma load_proposal_at:
  "load_proposal cs ix tx k = Inr p \<Longrightarrow> proposal_at cs tx (at ix k) = Some p \<and> k < length (instruction_accounts ix)"
  by (auto simp: load_proposal_def proposal_at_def at_def get_data_def dest!: borrow_Inr split: if_splits)

lemma load_config_at:
  "load_governance_config cs ix tx k = Inr cfg \<Longrightarrow> gv_config_at cs tx (at ix k) = Some cfg \<and> k < length (instruction_accounts ix)"
  by (auto simp: load_governance_config_def gv_config_at_def at_def get_data_def dest!: borrow_Inr split: if_splits)

lemma save_proposal_data:
  assumes "reached ix tx0 tx" "save_proposal cs ix k p tx = Inr tx'"
  obtains d buf where "proposal_serialize_into cs p d = Some buf" "only_data tx tx' (at ix k) buf" "k < length (instruction_accounts ix)"
proof -
  from assms(2) obtain acc buf where h: "try_borrow_instruction_account ix tx k = Inr acc"
    "proposal_serialize_into cs p (grown PROPOSAL_SERIALIZED_SIZE (get_data tx acc)) = Some buf" "set_data_from_slice ix acc buf tx = Inr tx'"
    by (auto simp: save_proposal_def)
  show thesis using that h(2) set_data_data [OF assms(1) h(3)] borrow_Inr [OF h(1)] by (simp add: only_data_def at_def)
qed

lemma save_config_data:
  assumes "reached ix tx0 tx" "save_governance_config cs ix k cfg tx = Inr tx'"
  obtains d buf where "gv_config_serialize_into cs cfg d = Some buf" "only_data tx tx' (at ix k) buf" "k < length (instruction_accounts ix)"
proof -
  from assms(2) obtain acc buf where h: "try_borrow_instruction_account ix tx k = Inr acc"
    "gv_config_serialize_into cs cfg (grown GV_CONFIG_SERIALIZED_SIZE (get_data tx acc)) = Some buf" "set_data_from_slice ix acc buf tx = Inr tx'"
    by (auto simp: save_governance_config_def)
  show thesis using that h(2) set_data_data [OF assms(1) h(3)] borrow_Inr [OF h(1)] by (simp add: only_data_def at_def)
qed

lemma serialized_hd: "state_serialize_into disc n c s d = Some buf \<Longrightarrow> \<exists>rest. buf = disc # rest"
  by (auto simp: state_serialize_into_def Let_def split: if_splits)

text \<open>The three kinds of accounts exclude each other by their discriminator.\<close>

lemma other_kind:
  "gv_config_serialize_into cs cfg d = Some buf \<Longrightarrow> proposal_deserialize cs buf = None"
  "proposal_serialize_into cs p d = Some buf \<Longrightarrow> gv_config_deserialize cs buf = None"
  "vote_record_serialize_into cs r d = Some buf \<Longrightarrow> gv_config_deserialize cs buf = None \<and> proposal_deserialize cs buf = None"
  by (auto simp: gv_config_serialize_into_def proposal_serialize_into_def vote_record_serialize_into_def
      proposal_deserialize_def gv_config_deserialize_def state_deserialize_def gv_disc dest!: serialized_hd)

lemma not_a_proposal: "data = [] \<or> hd data \<noteq> PROPOSAL_DISCRIMINATOR \<Longrightarrow> proposal_deserialize cs data = None"
  by (cases data) (auto simp: proposal_deserialize_def state_deserialize_def)

lemma not_a_config: "data = [] \<or> hd data \<noteq> GOVERNANCE_CONFIG_DISCRIMINATOR \<Longrightarrow> gv_config_deserialize cs data = None"
  by (cases data) (auto simp: gv_config_deserialize_def state_deserialize_def)

context governance_codecs
begin

lemma save_proposal_view:
  assumes "reached ix tx0 tx" "save_proposal cs ix k p tx = Inr tx'" "proposal_ok p"
  shows "proposal_at cs tx' j = (if j = at ix k then Some p else proposal_at cs tx j)"
    "gv_config_at cs tx' j = (if j = at ix k then None else gv_config_at cs tx j)"
  using save_proposal_data [OF assms(1,2)] proposal_store [OF assms(3)] other_kind(2)
  by (auto simp: proposal_at_def gv_config_at_def only_data_def) metis+

lemma save_config_view:
  assumes "reached ix tx0 tx" "save_governance_config cs ix k cfg tx = Inr tx'" "gv_config_ok cfg"
  shows "gv_config_at cs tx' j = (if j = at ix k then Some cfg else gv_config_at cs tx j)"
    "proposal_at cs tx' j = (if j = at ix k then None else proposal_at cs tx j)"
  using save_config_data [OF assms(1,2)] config_store [OF assms(3)] other_kind(1)
  by (auto simp: proposal_at_def gv_config_at_def only_data_def) metis+

end

section \<open>The life of a proposal\<close>

text \<open>
  The abstract protocol of a proposal. \<open>S\<close> is who signed, \<open>cfg\<close> the configuration account the caller
  named, \<open>clk\<close> the clock.
\<close>

definition vetoed :: "GovernanceConfig \<Rightarrow> Proposal \<Rightarrow> bool" where
  "vetoed cfg p \<longleftrightarrow> (let n = votes_for p + votes_against p + votes_abstain p + veto_votes p in
     0 < n \<and> veto_threshold_bps cfg \<le> veto_votes p * 10000 div n)"

definition approved :: "GovernanceConfig \<Rightarrow> Proposal \<Rightarrow> bool" where
  "approved cfg p \<longleftrightarrow> (let n = votes_for p + votes_against p in
     0 < n \<and> effective_pass_threshold p cfg \<le> votes_for p * 10000 div n)"

definition due :: "(InstructionError + Clock) \<Rightarrow> u64 \<Rightarrow> bool" where
  "due clk e = (case clk of Inl _ \<Rightarrow> False | Inr clock \<Rightarrow> e \<le> epoch clock)"

definition voting_open :: "(InstructionError + Clock) \<Rightarrow> Proposal \<Rightarrow> bool" where
  "voting_open clk p = (case clk of Inl _ \<Rightarrow> False | Inr clock \<Rightarrow> epoch clock < voting_ends_epoch p)"

inductive life :: "(pubkey \<Rightarrow> bool) \<Rightarrow> GovernanceConfig \<Rightarrow> (InstructionError + Clock) \<Rightarrow> Proposal \<Rightarrow> Proposal \<Rightarrow> bool"
  for S cfg clk where
  vote: "is_active cfg \<Longrightarrow> status p = Active \<Longrightarrow> voting_open clk p \<Longrightarrow> 0 < w \<Longrightarrow> apply_vote v w p = Inr q \<Longrightarrow> life S cfg clk p q"
| pass: "is_active cfg \<Longrightarrow> status p = Active \<Longrightarrow> due clk (voting_ends_epoch p) \<Longrightarrow> approved cfg p \<Longrightarrow> \<not> vetoed cfg p \<Longrightarrow>
    \<not> executed p \<Longrightarrow> life S cfg clk p (p\<lparr> status := Timelocked \<rparr>)"
| execute: "status p = Timelocked \<or> status p = Passed \<and> is_active cfg \<Longrightarrow> due clk (execution_epoch p) \<Longrightarrow> \<not> executed p \<Longrightarrow>
    is_active cfg \<or> S (gv_authority cfg) \<Longrightarrow> life S cfg clk p (p\<lparr> status := Executed, executed := True \<rparr>)"
| cancel: "status p \<in> {Active, Passed, Timelocked} \<Longrightarrow> S (emergency_multisig cfg) \<Longrightarrow> life S cfg clk p (p\<lparr> status := Cancelled \<rparr>)"
| veto: "status p \<in> {Active, Timelocked} \<Longrightarrow> vetoed cfg p \<Longrightarrow> life S cfg clk p (p\<lparr> status := Vetoed \<rparr>)"

inductive_cases life_from: "life S cfg clk p q"

lemma apply_vote_ok: "proposal_ok p \<Longrightarrow> apply_vote v w p = Inr q \<Longrightarrow> proposal_ok q"
  by (auto simp: apply_vote_def proposal_ok_def checked_add_def split: Vote.splits if_splits)

lemma life_ok: "life S cfg clk p q \<Longrightarrow> proposal_ok p \<Longrightarrow> proposal_ok q"
  by (erule life.cases) (auto simp: apply_vote_ok, auto simp: proposal_ok_def)

lemma total_votes_Inr: "total_votes p = Inr n \<Longrightarrow> n = votes_for p + votes_against p + votes_abstain p + veto_votes p"
  by (auto simp: total_votes_def checked_add_def split: if_splits)

lemma share_bps_Inr: "share_bps a b = Inr x \<Longrightarrow> x = a * 10000 div b"
  by (auto simp: share_bps_def checked_mul_def checked_div_def BPS_DENOMINATOR_def split: if_splits)

text \<open>The three handlers that only rewrite the proposal.\<close>

definition rewritten ::
    "gv_codecs \<Rightarrow> (InstructionError + Clock) \<Rightarrow> InstructionContext \<Rightarrow> TransactionContext \<Rightarrow> TransactionContext \<Rightarrow> bool" where
  "rewritten cs clk ix tx tx' \<longleftrightarrow> (\<exists>cfg p q. load_governance_config cs ix tx 2 = Inr cfg \<and> load_proposal cs ix tx 1 = Inr p
     \<and> life (signed_by ix tx) cfg clk p q \<and> save_proposal cs ix 1 q tx = Inr tx')"

lemma close_voting_pass:
  assumes "close_voting cs cfg p clock ix tx = Inr tx'"
  shows "voting_ends_epoch p \<le> epoch clock \<and> approved cfg p \<and> \<not> vetoed cfg p
    \<and> save_proposal cs ix 1 (p\<lparr> status := Timelocked \<rparr>) tx = Inr tx'"
  using assms
  by (auto simp: close_voting_def approved_def vetoed_def Let_def checked_add_def not_less not_le
      dest!: total_votes_Inr share_bps_Inr split: if_splits)

lemma execute_rewritten:
  assumes "process_execute_proposal cs clk i ix tx = Inr tx'"
  shows "rewritten cs clk ix tx tx'"
proof -
  from assms obtain executor cfg p clock where
    h: "is_instruction_account_signer ix 0 = Inr True" "get_key_of_instruction_account ix tx 0 = Inr executor"
      "load_governance_config cs ix tx 2 = Inr cfg" "load_proposal cs ix tx 1 = Inr p"
      "is_active cfg \<or> executor = gv_authority cfg" "\<not> executed p" "clk = Inr clock"
    and s: "is_active cfg \<and> status p = Active \<and> close_voting cs cfg p clock ix tx = Inr tx'
      \<or> (status p = Timelocked \<or> status p = Passed \<and> is_active cfg) \<and> execution_epoch p \<le> epoch clock
        \<and> save_proposal cs ix 1 (p\<lparr> status := Executed, executed := True \<rparr>) tx = Inr tx'"
    by (auto simp: process_execute_proposal_def Let_def not_less split: if_splits ProposalStatus.splits)
  note sig = signed_byI [OF h(1,2)]
  from s have "\<exists>q. life (signed_by ix tx) cfg clk p q \<and> save_proposal cs ix 1 q tx = Inr tx'"
  proof (elim disjE conjE)
    assume a: "is_active cfg" "status p = Active" "close_voting cs cfg p clock ix tx = Inr tx'"
    have "life (signed_by ix tx) cfg clk p (p\<lparr> status := Timelocked \<rparr>)"
      using close_voting_pass [OF a(3)] a(1,2) h(6,7) by (intro life.pass) (auto simp: due_def)
    then show ?thesis using close_voting_pass [OF a(3)] by blast
  qed (use h sig in \<open>auto simp: due_def intro!: exI [of _ "p\<lparr> status := Executed, executed := True \<rparr>"] life.execute\<close>)
  then show ?thesis using h(3,4) by (auto simp: rewritten_def)
qed

lemma cancel_rewritten:
  assumes "process_cancel_proposal cs i ix tx = Inr tx'"
  shows "rewritten cs clk ix tx tx'"
proof -
  from assms obtain cfg p where
    h: "is_instruction_account_signer ix 0 = Inr True" "get_key_of_instruction_account ix tx 0 = Inr (emergency_multisig cfg)"
      "load_governance_config cs ix tx 2 = Inr cfg" "load_proposal cs ix tx 1 = Inr p"
      "status p \<in> {Active, Passed, Timelocked}" "save_proposal cs ix 1 (p\<lparr> status := Cancelled \<rparr>) tx = Inr tx'"
    by (auto simp: process_cancel_proposal_def split: if_splits)
  show ?thesis unfolding rewritten_def using h(3,4,6) life.cancel [OF h(5), of "signed_by ix tx" cfg clk] signed_byI [OF h(1,2)] by blast
qed

lemma veto_rewritten:
  assumes "process_veto_proposal cs i ix tx = Inr tx'"
  shows "rewritten cs clk ix tx tx'"
proof -
  from assms obtain cfg p n x where
    h: "load_governance_config cs ix tx 2 = Inr cfg" "load_proposal cs ix tx 1 = Inr p" "status p \<in> {Active, Timelocked}"
      "total_votes p = Inr n" "0 < n" "share_bps (veto_votes p) n = Inr x" "veto_threshold_bps cfg \<le> x"
      "save_proposal cs ix 1 (p\<lparr> status := Vetoed \<rparr>) tx = Inr tx'"
    by (auto simp: process_veto_proposal_def not_less split: if_splits)
  have "vetoed cfg p" using h(5,7) total_votes_Inr [OF h(4)] share_bps_Inr [OF h(6)] by (simp add: vetoed_def Let_def)
  then show ?thesis unfolding rewritten_def using h(1,2,8) life.veto [OF h(3), of cfg "signed_by ix tx" clk] by blast
qed

text \<open>The run of a vote.\<close>

lemma cast_run:
  assumes "process_cast_vote cs clk i v ix tx = Inr tx'"
  obtains voter cfg p clock rec stake a w q tx1 rec' d where
    "get_key_of_instruction_account ix tx 0 = Inr voter" "is_instruction_account_signer ix 0 = Inr True"
    "load_governance_config cs ix tx 2 = Inr cfg" "is_active cfg" "load_proposal cs ix tx 1 = Inr p" "pr_id p = i"
    "status p = Active" "clk = Inr clock" "epoch clock < voting_ends_epoch p"
    "try_borrow_instruction_account ix tx 4 = Inr rec" "get_data tx rec = [] \<or> hd (get_data tx rec) \<noteq> VOTE_RECORD_DISCRIMINATOR"
    "try_borrow_instruction_account ix tx 3 = Inr stake" "voting_power_from_passive_stake_data (get_data tx stake) = Some (a, w)"
    "0 < w" "apply_vote v w p = Inr q" "save_proposal cs ix 1 q tx = Inr tx1"
    "try_borrow_instruction_account ix tx1 4 = Inr rec'"
    "vote_record_serialize_into cs \<lparr> vr_proposal_id = i, vr_voter = voter, vr_vote = v, vr_weight = w, voted_epoch = epoch clock \<rparr>
       (grown VOTE_RECORD_SERIALIZED_SIZE (get_data tx1 rec')) = Some d"
    "set_data_from_slice ix rec' d tx1 = Inr tx'"
  using assms by (auto simp: process_cast_vote_def Let_def not_le split: if_splits)

text \<open>The position of the proposal and of the configuration among the accounts of an instruction.\<close>

fun proposal_pos :: "GovernanceInstruction \<Rightarrow> nat option" where
  "proposal_pos (CreateProposal _ _ _) = Some 2"
| "proposal_pos (CastVote _ _) = Some 1"
| "proposal_pos (ExecuteProposal _) = Some 1"
| "proposal_pos (CancelProposal _) = Some 1"
| "proposal_pos (VetoProposal _) = Some 1"
| "proposal_pos _ = None"

fun config_pos :: "GovernanceInstruction \<Rightarrow> nat option" where
  "config_pos (CastVote _ _) = Some 2"
| "config_pos (ExecuteProposal _) = Some 2"
| "config_pos (CancelProposal _) = Some 2"
| "config_pos (VetoProposal _) = Some 2"
| "config_pos _ = Some 1"

text \<open>The account \<open>i\<close> is passed at most at the position \<open>k\<close>.\<close>

definition only_at :: "InstructionContext \<Rightarrow> nat option \<Rightarrow> nat \<Rightarrow> bool" where
  "only_at ix k i = list_all (\<lambda>j. at ix j = i \<longrightarrow> k = Some j) [0..<length (instruction_accounts ix)]"

lemma only_atD: "only_at ix k i \<Longrightarrow> j < length (instruction_accounts ix) \<Longrightarrow> k \<noteq> Some j \<Longrightarrow> i \<noteq> at ix j"
  by (auto simp: only_at_def list_all_iff)

lemma save_config_other:
  assumes "reached ix tx0 tx" "save_governance_config cs ix k cfg tx = Inr tx'" "only_at ix l i" "l \<noteq> Some k"
  shows "acc_data (acct tx' i) = acc_data (acct tx i)"
  using save_config_data [OF assms(1,2)] only_atD [OF assms(3) _ assms(4)] by (metis only_data_def)

lemma save_proposal_other:
  assumes "reached ix tx0 tx" "save_proposal cs ix k p tx = Inr tx'" "only_at ix l i" "l \<noteq> Some k"
  shows "acc_data (acct tx' i) = acc_data (acct tx i)"
  using save_proposal_data [OF assms(1,2)] only_atD [OF assms(3) _ assms(4)] by (metis only_data_def)

text \<open>A vote: the proposal is stored at its account and the record overwrites the one at position 4.\<close>

lemma cast_data:
  assumes "tx_wf tx" "process_cast_vote cs clk i v ix tx = Inr tx'"
  obtains cfg p w q tx1 where "load_governance_config cs ix tx 2 = Inr cfg" "load_proposal cs ix tx 1 = Inr p"
    "life (signed_by ix tx) cfg clk p q" "0 < w" "apply_vote v w p = Inr q" "save_proposal cs ix 1 q tx = Inr tx1"
    "4 < length (instruction_accounts ix)"
    "\<And>j. j \<noteq> at ix 4 \<Longrightarrow> acc_data (acct tx' j) = acc_data (acct tx1 j)"
proof (rule cast_run [OF assms(2)])
  fix voter cfg p clock rec stake a w q tx1 rec' d
  assume h: "load_governance_config cs ix tx 2 = Inr cfg" "is_active cfg" "load_proposal cs ix tx 1 = Inr p"
    "status p = Active" "clk = Inr clock" "epoch clock < voting_ends_epoch p" "0 < w" "apply_vote v w p = Inr q"
    "save_proposal cs ix 1 q tx = Inr tx1" "try_borrow_instruction_account ix tx1 4 = Inr rec'"
    "set_data_from_slice ix rec' d tx1 = Inr tx'"
  have "life (signed_by ix tx) cfg clk p q" using h by (intro life.vote [OF _ _ _ h(7,8)]) (auto simp: voting_open_def)
  moreover have "acc_data (acct tx' j) = acc_data (acct tx1 j)" if "j \<noteq> at ix 4" for j
    using set_data_data [OF reached_save(1) [OF h(9) reached_start [OF assms(1)]] h(11), of j] that borrow_Inr [OF h(10)]
    by (simp add: at_def)
  ultimately show thesis using that h borrow_Inr [OF h(10)] by blast
qed

lemma create_data:
  assumes "process_create_proposal cs clk ti hs ty ix tx = Inr tx'"
  obtains cfg acc tx1 p where "load_governance_config cs ix tx 1 = Inr cfg" "try_borrow_instruction_account ix tx 2 = Inr acc"
    "get_data tx acc = [] \<or> hd (get_data tx acc) \<noteq> PROPOSAL_DISCRIMINATOR" "next_proposal_id cfg + 1 < 2 ^ 64"
    "is_active cfg \<or> signed_by ix tx (gv_authority cfg)"
    "save_governance_config cs ix 1 (cfg\<lparr> next_proposal_id := next_proposal_id cfg + 1 \<rparr>) tx = Inr tx1" "save_proposal cs ix 2 p tx1 = Inr tx'"
proof -
  from assms obtain k cfg acc tx1 p where h: "is_instruction_account_signer ix 0 = Inr True"
    "get_key_of_instruction_account ix tx 0 = Inr k" "load_governance_config cs ix tx 1 = Inr cfg"
    "may_propose cfg k ix tx = Inr ()" "try_borrow_instruction_account ix tx 2 = Inr acc"
    "get_data tx acc = [] \<or> hd (get_data tx acc) \<noteq> PROPOSAL_DISCRIMINATOR" "next_proposal_id cfg + 1 < 2 ^ 64"
    "save_governance_config cs ix 1 (cfg\<lparr> next_proposal_id := next_proposal_id cfg + 1 \<rparr>) tx = Inr tx1" "save_proposal cs ix 2 p tx1 = Inr tx'"
    by (auto simp: process_create_proposal_def Let_def checked_add_def split: if_splits)
  have "is_active cfg \<or> signed_by ix tx (gv_authority cfg)"
    using h(4) signed_byI [OF h(1,2)] by (auto simp: may_propose_def split: if_splits)
  then show thesis using that h by blast
qed

lemma initialize_gv_data:
  assumes "process_initialize_governance cs a t p q pa v d m ix tx = Inr tx'"
  obtains acc cfg where "try_borrow_instruction_account ix tx 1 = Inr acc"
    "get_data tx acc = [] \<or> hd (get_data tx acc) \<noteq> GOVERNANCE_CONFIG_DISCRIMINATOR" "save_governance_config cs ix 1 cfg tx = Inr tx'"
  using assms by (auto simp: process_initialize_governance_def Let_def split: if_splits)

lemma activate_data:
  assumes "process_activate_gv cs ix tx = Inr tx'"
  obtains cfg where "load_governance_config cs ix tx 1 = Inr cfg" "signed_by ix tx (gv_authority cfg)"
    "save_governance_config cs ix 1 (cfg\<lparr> is_active := True \<rparr>) tx = Inr tx'"
  using assms by (auto simp: process_activate_gv_def split: if_splits) (blast intro: signed_byI)

lemma update_data:
  assumes "process_update_config cs t p q pa v d m ix tx = Inr tx'"
  obtains cfg where "load_governance_config cs ix tx 1 = Inr cfg" "signed_by ix tx (gv_authority cfg)" "config_values_ok q pa v p"
    "save_governance_config cs ix 1 (cfg\<lparr> proposal_threshold := t, voting_period_epochs := p, quorum_bps := q,
       pass_threshold_bps := pa, veto_threshold_bps := v, timelock_epochs := d, emergency_multisig := m \<rparr>) tx = Inr tx'"
  using assms by (auto simp: process_update_config_def split: if_splits) (blast intro: signed_byI)

context governance_codecs
begin

lemma rewritten_view:
  assumes wf: "tx_wf tx" and r: "rewritten cs clk ix tx tx'" and p: "proposal_at cs tx i = Some p"
  shows "\<exists>q. proposal_at cs tx' i = Some q
    \<and> (q = p \<or> (\<exists>cfg. gv_config_at cs tx (at ix 2) = Some cfg \<and> life (signed_by ix tx) cfg clk p q))"
proof -
  from r obtain cfg p' q where h: "load_governance_config cs ix tx 2 = Inr cfg" "load_proposal cs ix tx 1 = Inr p'"
    "life (signed_by ix tx) cfg clk p' q" "save_proposal cs ix 1 q tx = Inr tx'" by (auto simp: rewritten_def)
  have "proposal_ok p'" using load_proposal_at [OF h(2)] proposal_loaded_ok by (auto simp: proposal_at_def)
  then have "proposal_at cs tx' i = (if i = at ix 1 then Some q else proposal_at cs tx i)"
    using save_proposal_view(1) [OF reached_start [OF wf] h(4)] life_ok [OF h(3)] by simp
  then show ?thesis using p load_proposal_at [OF h(2)] load_config_at [OF h(1)] h(3) by (cases "i = at ix 1") auto
qed

lemma cast_view:
  assumes wf: "tx_wf tx" and r: "process_cast_vote cs clk n v ix tx = Inr tx'" and p: "proposal_at cs tx i = Some p"
    and o: "only_at ix (Some 1) i"
  shows "\<exists>q. proposal_at cs tx' i = Some q
    \<and> (q = p \<or> (\<exists>cfg. gv_config_at cs tx (at ix 2) = Some cfg \<and> life (signed_by ix tx) cfg clk p q))"
proof (rule cast_data [OF wf r])
  fix cfg p' w q tx1
  assume h: "load_governance_config cs ix tx 2 = Inr cfg" "load_proposal cs ix tx 1 = Inr p'"
    "life (signed_by ix tx) cfg clk p' q" "save_proposal cs ix 1 q tx = Inr tx1" "4 < length (instruction_accounts ix)"
    and d: "\<And>j. j \<noteq> at ix 4 \<Longrightarrow> acc_data (acct tx' j) = acc_data (acct tx1 j)"
  have "proposal_at cs tx' i = proposal_at cs tx1 i" using d [of i] only_atD [OF o h(5)] by (simp add: proposal_at_def)
  moreover have "rewritten cs clk ix tx tx1" using h by (auto simp: rewritten_def)
  ultimately show ?thesis using rewritten_view [OF wf _ p] by simp
qed

lemma proposal_step:
  assumes wf: "tx_wf tx" and run: "gv_dispatch cs clk ins ix tx = Inr tx'" and p: "proposal_at cs tx i = Some p"
    and o: "only_at ix (proposal_pos ins) i"
  shows "\<exists>q. proposal_at cs tx' i = Some q
    \<and> (q = p \<or> (\<exists>cfg. gv_config_at cs tx (at ix 2) = Some cfg \<and> life (signed_by ix tx) cfg clk p q))"
proof -
  note r0 = reached_start [OF wf, of ix]
  have same: ?thesis if "acc_data (acct tx' i) = acc_data (acct tx i)" using that p by (simp add: proposal_at_def)
  have conf: ?thesis if "save_governance_config cs ix 1 c tx = Inr tx'" "proposal_pos ins = None" for c
    using save_config_other [OF r0 that(1) o] that(2) by (intro same) simp
  show ?thesis
  proof (cases ins)
    case (CreateProposal ti hs ty)
    then have "process_create_proposal cs clk ti hs ty ix tx = Inr tx'" using run by simp
    then show ?thesis
    proof (rule create_data)
      fix cfg acc tx1 p'
      assume h: "try_borrow_instruction_account ix tx 2 = Inr acc" "get_data tx acc = [] \<or> hd (get_data tx acc) \<noteq> PROPOSAL_DISCRIMINATOR"
        "save_governance_config cs ix 1 (cfg\<lparr> next_proposal_id := next_proposal_id cfg + 1 \<rparr>) tx = Inr tx1" "save_proposal cs ix 2 p' tx1 = Inr tx'"
      have "i \<noteq> at ix 2" using p not_a_proposal [OF h(2)] borrow_Inr [OF h(1)] by (auto simp: proposal_at_def at_def get_data_def)
      moreover have "acc_data (acct tx1 i) = acc_data (acct tx i)" using save_config_other [OF r0 h(3) o] CreateProposal by simp
      ultimately show ?thesis
        using save_proposal_data [OF reached_save(2) [OF h(3) r0] h(4)] by (intro same) (metis only_data_def)
    qed
  next
    case (CastVote n v)
    then show ?thesis using run o cast_view [OF wf _ p] by simp
  next
    case (ExecuteProposal n)
    then show ?thesis using run rewritten_view [OF wf execute_rewritten p] by simp
  next
    case (CancelProposal n)
    then show ?thesis using run rewritten_view [OF wf cancel_rewritten p] by simp
  next
    case (VetoProposal n)
    then show ?thesis using run rewritten_view [OF wf veto_rewritten p] by simp
  qed (use run conf in \<open>auto elim!: initialize_gv_data activate_data update_data\<close>)
qed

end

section \<open>The configuration\<close>

text \<open>The arguments fit their types.\<close>

fun gv_ins_ok :: "GovernanceInstruction \<Rightarrow> bool" where
  "gv_ins_ok (UpdateConfig t p q pa v d m) = (t < 2 ^ 64 \<and> p < 2 ^ 64 \<and> d < 2 ^ 64 \<and> length m = 32)"
| "gv_ins_ok _ = True"

text \<open>What an instruction may do to a configuration.\<close>

fun gv_config_change :: "GovernanceInstruction \<Rightarrow> (pubkey \<Rightarrow> bool) \<Rightarrow> GovernanceConfig \<Rightarrow> GovernanceConfig \<Rightarrow> bool" where
  "gv_config_change (CreateProposal _ _ _) S cfg cfg' =
     (cfg' = cfg\<lparr> next_proposal_id := next_proposal_id cfg + 1 \<rparr> \<and> (is_active cfg \<or> S (gv_authority cfg)))"
| "gv_config_change GvActivateGovernance S cfg cfg' = (cfg' = cfg\<lparr> is_active := True \<rparr> \<and> S (gv_authority cfg))"
| "gv_config_change (UpdateConfig t p q pa v d m) S cfg cfg' =
     (cfg' = cfg\<lparr> proposal_threshold := t, voting_period_epochs := p, quorum_bps := q, pass_threshold_bps := pa,
                   veto_threshold_bps := v, timelock_epochs := d, emergency_multisig := m \<rparr>
      \<and> config_values_ok q pa v p \<and> S (gv_authority cfg))"
| "gv_config_change _ S cfg cfg' = False"

context governance_codecs
begin

lemma config_at_ok: "gv_config_at cs tx i = Some cfg \<Longrightarrow> gv_config_ok cfg"
  using config_loaded_ok by (simp add: gv_config_at_def)

text \<open>A configuration that was loaded at position 1 and stored there again, changed.\<close>

lemma config_stored:
  assumes "reached ix tx0 tx" "load_governance_config cs ix tx 1 = Inr x" "save_governance_config cs ix 1 x' tx = Inr tx'"
    "gv_config_at cs tx i = Some cfg" "gv_config_ok x \<Longrightarrow> gv_config_ok x'"
  shows "gv_config_at cs tx' i = Some cfg \<or> gv_config_at cs tx' i = Some x' \<and> x = cfg"
proof -
  have "gv_config_ok x'" using assms(5) config_at_ok load_config_at [OF assms(2)] by blast
  then show ?thesis using save_config_view(1) [OF assms(1,3), of i] load_config_at [OF assms(2)] assms(4) by (cases "i = at ix 1") auto
qed

lemma init_keeps_config:
  assumes wf: "tx_wf tx" and run: "process_initialize_governance cs a t p q pa v d m ix tx = Inr tx'" and cfg: "gv_config_at cs tx i = Some cfg"
  shows "acc_data (acct tx' i) = acc_data (acct tx i)"
  using run
proof (rule initialize_gv_data)
  fix acc x
  assume h: "try_borrow_instruction_account ix tx 1 = Inr acc"
    "get_data tx acc = [] \<or> hd (get_data tx acc) \<noteq> GOVERNANCE_CONFIG_DISCRIMINATOR" "save_governance_config cs ix 1 x tx = Inr tx'"
  have "i \<noteq> at ix 1" using cfg not_a_config [OF h(2)] borrow_Inr [OF h(1)] by (auto simp: gv_config_at_def at_def get_data_def)
  then show ?thesis using save_config_data [OF reached_start [OF wf] h(3)] by (metis only_data_def)
qed

lemma create_config_view:
  assumes wf: "tx_wf tx" and run: "process_create_proposal cs clk ti hs ty ix tx = Inr tx'" and cfg: "gv_config_at cs tx i = Some cfg"
    and o: "only_at ix (Some 1) i"
  shows "gv_config_at cs tx' i = Some cfg \<or> gv_config_at cs tx' i = Some (cfg\<lparr> next_proposal_id := next_proposal_id cfg + 1 \<rparr>)
    \<and> (is_active cfg \<or> signed_by ix tx (gv_authority cfg))"
  using run
proof (rule create_data)
  fix x acc tx1 p
  assume h: "load_governance_config cs ix tx 1 = Inr x" "next_proposal_id x + 1 < 2 ^ 64" "is_active x \<or> signed_by ix tx (gv_authority x)"
    "save_governance_config cs ix 1 (x\<lparr> next_proposal_id := next_proposal_id x + 1 \<rparr>) tx = Inr tx1" "save_proposal cs ix 2 p tx1 = Inr tx'"
  note r0 = reached_start [OF wf, of ix]
  have "gv_config_at cs tx' i = gv_config_at cs tx1 i"
    using save_proposal_other [OF reached_save(2) [OF h(4) r0] h(5) o] by (simp add: gv_config_at_def)
  then show ?thesis using config_stored [OF r0 h(1,4) cfg] h(2,3) by (auto simp: gv_config_ok_def)
qed

lemma update_config_view:
  assumes wf: "tx_wf tx" and run: "process_update_config cs t p q pa v d m ix tx = Inr tx'" and cfg: "gv_config_at cs tx i = Some cfg"
    and ok: "gv_ins_ok (UpdateConfig t p q pa v d m)"
  shows "gv_config_at cs tx' i = Some cfg \<or>
    (\<exists>cfg'. gv_config_at cs tx' i = Some cfg' \<and> gv_config_change (UpdateConfig t p q pa v d m) (signed_by ix tx) cfg cfg')"
  using run
proof (rule update_data)
  fix x
  assume h: "load_governance_config cs ix tx 1 = Inr x" "signed_by ix tx (gv_authority x)" "config_values_ok q pa v p"
    "save_governance_config cs ix 1 (x\<lparr> proposal_threshold := t, voting_period_epochs := p, quorum_bps := q,
      pass_threshold_bps := pa, veto_threshold_bps := v, timelock_epochs := d, emergency_multisig := m \<rparr>) tx = Inr tx'"
  show ?thesis using config_stored [OF reached_start [OF wf] h(1,4) cfg] h(2,3) ok
    by (auto simp: gv_config_ok_def config_values_ok_def)
qed

lemma gv_config_step:
  assumes wf: "tx_wf tx" and run: "gv_dispatch cs clk ins ix tx = Inr tx'" and cfg: "gv_config_at cs tx i = Some cfg"
    and o: "only_at ix (config_pos ins) i" and ok: "gv_ins_ok ins"
  shows "\<exists>cfg'. gv_config_at cs tx' i = Some cfg' \<and> (cfg' = cfg \<or> gv_config_change ins (signed_by ix tx) cfg cfg')"
proof -
  note r0 = reached_start [OF wf, of ix]
  have same: ?thesis if "acc_data (acct tx' i) = acc_data (acct tx i)" using that cfg by (simp add: gv_config_at_def)
  have rw: ?thesis if "rewritten cs clk ix tx tx'" "config_pos ins = Some 2"
    using that o save_proposal_other [OF r0] by (intro same) (auto simp: rewritten_def)
  show ?thesis
  proof (cases ins)
    case (InitializeGovernance a t p q pa v d m)
    then show ?thesis using run init_keeps_config [OF wf _ cfg] by (intro same) simp
  next
    case (CreateProposal ti hs ty)
    then show ?thesis using run o create_config_view [OF wf _ cfg] by (fastforce simp: gv_config_at_def)
  next
    case (CastVote n v)
    then have "process_cast_vote cs clk n v ix tx = Inr tx'" using run by simp
    then show ?thesis
    proof (rule cast_data [OF wf])
      fix x p w q tx1
      assume h: "save_proposal cs ix 1 q tx = Inr tx1" "4 < length (instruction_accounts ix)"
        and d: "\<And>j. j \<noteq> at ix 4 \<Longrightarrow> acc_data (acct tx' j) = acc_data (acct tx1 j)"
      show ?thesis using d [of i] only_atD [OF o h(2)] save_proposal_other [OF r0 h(1) o] CastVote by (intro same) simp
    qed
  next
    case GvActivateGovernance
    then have "process_activate_gv cs ix tx = Inr tx'" using run by simp
    then show ?thesis
      by (rule activate_data) (use config_stored [OF r0 _ _ cfg] in \<open>fastforce simp: GvActivateGovernance gv_config_ok_def\<close>)
  next
    case (UpdateConfig t p q pa v d m)
    then show ?thesis using run ok update_config_view [OF wf _ cfg] by fastforce
  qed (use run rw execute_rewritten cancel_rewritten veto_rewritten in auto)
qed

end

section \<open>Sequences of instructions\<close>

text \<open>An instruction that fails, or leaves the lamports unbalanced, is rolled back.\<close>

definition gv_step :: "gv_codecs \<Rightarrow> TransactionContext \<Rightarrow>
    (InstructionError + Clock) \<times> GovernanceInstruction \<times> InstructionContext \<Rightarrow> TransactionContext" where
  "gv_step cs tx = (\<lambda>(clk, ins, ix).
     case gv_dispatch cs clk ins ix tx of
       Inl _ \<Rightarrow> tx | Inr tx' \<Rightarrow> if pop_check ix tx' = Inr () then tx' else tx)"

definition proposal_role :: "nat \<Rightarrow> (InstructionError + Clock) \<times> GovernanceInstruction \<times> InstructionContext \<Rightarrow> bool" where
  "proposal_role i = (\<lambda>(clk, ins, ix). only_at ix (proposal_pos ins) i)"

text \<open>Four fifths of the decisive votes.\<close>

definition supermajority :: "Proposal \<Rightarrow> bool" where
  "supermajority p \<longleftrightarrow> 0 < votes_for p \<and> 4 * (votes_for p + votes_against p) \<le> 5 * votes_for p"

definition emergency_inv :: "gv_codecs \<Rightarrow> nat \<Rightarrow> TransactionContext \<Rightarrow> bool" where
  "emergency_inv cs i tx \<longleftrightarrow> governance_codecs cs \<and> tx_wf tx \<and> (\<exists>p. proposal_at cs tx i = Some p \<and> is_emergency_unlock p
     \<and> (status p \<in> {Passed, Timelocked, Executed} \<longrightarrow> supermajority p))"

lemma approved_emergency:
  assumes "approved cfg p" "is_emergency_unlock p"
  shows "supermajority p"
proof -
  let ?n = "votes_for p + votes_against p"
  have n: "0 < ?n" "8000 \<le> votes_for p * 10000 div ?n"
    using assms by (auto simp: approved_def effective_pass_threshold_def EMERGENCY_UNLOCK_PASS_THRESHOLD_BPS_def Let_def)
  have "8000 * ?n \<le> votes_for p * 10000"
    using n(2) by (metis less_eq_div_iff_mult_less_eq n(1))
  then show ?thesis using n(1) by (auto simp: supermajority_def)
qed

lemma life_emergency:
  "life S cfg clk p q \<Longrightarrow> is_emergency_unlock p \<Longrightarrow> (status p \<in> {Passed, Timelocked, Executed} \<longrightarrow> supermajority p) \<Longrightarrow>
   is_emergency_unlock q \<and> (status q \<in> {Passed, Timelocked, Executed} \<longrightarrow> supermajority q)"
  by (erule life.cases) (auto simp: is_emergency_unlock_def apply_vote_def supermajority_def
      dest: approved_emergency split: Vote.splits if_splits)

lemma emergency_step:
  assumes inv: "emergency_inv cs i tx" and g: "proposal_role i e"
  shows "emergency_inv cs i (gv_step cs tx e)"
proof -
  obtain clk ins ix where e: "e = (clk, ins, ix)" by (cases e)
  show ?thesis
  proof (cases "gv_step cs tx e = tx")
    case False
    then have r: "gv_dispatch cs clk ins ix tx = Inr (gv_step cs tx e)"
      by (auto simp: gv_step_def e split: sum.splits if_splits)
    obtain p where p: "governance_codecs cs" "tx_wf tx" "proposal_at cs tx i = Some p" "is_emergency_unlock p"
      "status p \<in> {Passed, Timelocked, Executed} \<longrightarrow> supermajority p" using inv by (auto simp: emergency_inv_def)
    have "tx_wf (gv_step cs tx e)" using governance.run_allowed [OF p(2) r] allowed_wf p(2) by blast
    then show ?thesis
      using governance_codecs.proposal_step [OF p(1,2) r p(3)] g life_emergency [OF _ p(4,5)] p(1,4,5)
      by (auto simp: emergency_inv_def proposal_role_def e)
  qed (use inv in simp)
qed

interpretation gv_run: guarded_system "gv_step cs" "\<lambda>tx e. proposal_role i e" "emergency_inv cs i" for cs i
  by unfold_locales (rule emergency_step)

section \<open>Properties\<close>

text \<open>
  The example: an active configuration, a proposal to unlock an account with 80 votes for it and 20
  against, and a signer without stake.
\<close>

definition example_gv_config :: GovernanceConfig where
  "example_gv_config = \<lparr> is_active = True, gv_authority = replicate 32 1, proposal_threshold = 1000, voting_period_epochs = 7,
     quorum_bps = 3000, pass_threshold_bps = 5000, veto_threshold_bps = 3333, timelock_epochs = 2,
     emergency_multisig = replicate 32 5, next_proposal_id = 8 \<rparr>"

definition example_proposal :: Proposal where
  "example_proposal = \<lparr> pr_id = 7, pr_proposer = replicate 32 1, title = replicate 64 0, description_hash = replicate 32 0,
     proposal_type = EmergencyUnlock (replicate 32 9), status = Active, created_epoch = 3, voting_ends_epoch = 10,
     execution_epoch = 12, votes_for = 80, votes_against = 20, votes_abstain = 0, veto_votes = 0, executed = False \<rparr>"

definition proposal_data :: "Proposal \<Rightarrow> bytes" where
  "proposal_data p = PROPOSAL_DISCRIMINATOR # enc proposal_borsh p @ replicate (511 - length (enc proposal_borsh p)) 0"

definition config_data :: bytes where
  "config_data = GOVERNANCE_CONFIG_DISCRIMINATOR # enc config_borsh example_gv_config"

definition gov_tx :: "pubkey \<Rightarrow> Proposal \<Rightarrow> bool \<Rightarrow> TransactionContext" where
  "gov_tx signer p touched =
     \<lparr> tx_accounts =
         [(signer, default_account\<lparr> lamports := 1000 \<rparr>),
          (replicate 32 2, default_account\<lparr> lamports := 500, owner := governance_id, acc_data := proposal_data p \<rparr>),
          (replicate 32 3, default_account\<lparr> lamports := 500, owner := governance_id, acc_data := config_data \<rparr>),
          (governance_id, default_account)],
       borrow_counters = [0, 0, 0, 0], touched_flags = [False, touched, False, False], resize_delta = 0, lamports_delta = 0 \<rparr>"

definition gov_ix :: "nat list \<Rightarrow> InstructionContext" where
  "gov_ix js = \<lparr> program_account_index_in_tx = 3,
     instruction_accounts = map (\<lambda>j. \<lparr> index_in_transaction = j, is_signer = (j = 0), is_writable = True \<rparr>) js \<rparr>"

lemma gov_tx_wf [simp]: "tx_wf (gov_tx k p b)"
  by (simp add: tx_wf_def gov_tx_def)

lemma example_gv_ok: "gv_config_ok example_gv_config" "proposal_ok example_proposal"
  by (simp_all add: gv_config_ok_def example_gv_config_def proposal_ok_def example_proposal_def)

lemma config_data_read: "gv_config_deserialize gv_borsh config_data = Some example_gv_config"
  using config_borsh.dec_enc [OF example_gv_ok(1), of "[]"]
  by (simp add: gv_config_deserialize_def config_data_def state_deserialize_def gv_borsh_def)

lemma proposal_data_read: "proposal_ok p \<Longrightarrow> proposal_deserialize gv_borsh (proposal_data p) = Some p"
  using proposal_borsh.dec_enc [of p]
  by (simp add: proposal_deserialize_def proposal_data_def state_deserialize_def gv_borsh_def)

lemma proposal_data_length: "proposal_ok p \<Longrightarrow> length (proposal_data p) = 512"
  using proposal_borsh.enc_length [of p] by (simp add: proposal_data_def)

lemma proposal_data_write:
  assumes "proposal_ok p" "length (enc proposal_borsh q) = length (enc proposal_borsh p)"
  shows "proposal_serialize_into gv_borsh q (proposal_data p) = Some (proposal_data q)"
  using assms proposal_borsh.enc_length [OF assms(1)]
  by (simp add: proposal_serialize_into_def state_serialize_into_def proposal_data_def gv_borsh_def
      PROPOSAL_SERIALIZED_SIZE_def Let_def)

lemma gov_load:
  "js ! k = 2 \<Longrightarrow> k < length js \<Longrightarrow> load_governance_config gv_borsh (gov_ix js) (gov_tx s p b) k = Inr example_gv_config"
  "js ! k = 1 \<Longrightarrow> k < length js \<Longrightarrow> proposal_ok p \<Longrightarrow> load_proposal gv_borsh (gov_ix js) (gov_tx s p b) k = Inr p"
  by (simp_all add: load_governance_config_def load_proposal_def gov_ix_def gov_tx_def handler_eval config_data_read proposal_data_read)

lemma gov_save:
  assumes "js ! 1 = 1" "1 < length js" "proposal_ok p" "proposal_ok q" "length (enc proposal_borsh q) = length (enc proposal_borsh p)"
  shows "save_proposal gv_borsh (gov_ix js) 1 q (gov_tx s p b) = Inr (gov_tx s q True)"
  using assms proposal_data_write [OF assms(3,5)] proposal_data_length [OF assms(3)] proposal_data_length [OF assms(4)]
  by (simp add: save_proposal_def gov_ix_def gov_tx_def handler_eval grown_def PROPOSAL_SERIALIZED_SIZE_def)

lemma gov_at:
  "proposal_ok p \<Longrightarrow> proposal_at gv_borsh (gov_tx s p b) 1 = Some p"
  "gv_config_at gv_borsh (gov_tx s p b) 2 = Some example_gv_config"
  by (simp_all add: proposal_at_def gv_config_at_def gov_tx_def acct_def proposal_data_read config_data_read)

lemma gov_signer:
  "is_instruction_account_signer (gov_ix (0 # js)) 0 = Inr True"
  "get_key_of_instruction_account (gov_ix (0 # js)) (gov_tx s p b) 0 = Inr s"
  "check_number_of_instruction_accounts (gov_ix js) n = (if length js < n then Inl MissingAccount else Inr ())"
  by (simp_all add: gov_ix_def gov_tx_def handler_eval)

lemma gov_cancel:
  "gv_dispatch gv_borsh clk (CancelProposal 7) (gov_ix [0, 1, 2]) (gov_tx (replicate 32 5) example_proposal False) =
     Inr (gov_tx (replicate 32 5) (example_proposal\<lparr> status := Cancelled \<rparr>) True)"
proof -
  have "proposal_ok (example_proposal\<lparr> status := Cancelled \<rparr>)"
    "length (enc proposal_borsh (example_proposal\<lparr> status := Cancelled \<rparr>)) = length (enc proposal_borsh example_proposal)"
    using example_gv_ok(2) by (simp_all add: proposal_ok_def proposal_borsh_def tail_enc_def)
  moreover have "emergency_multisig example_gv_config = replicate 32 5" "pr_id example_proposal = 7" "status example_proposal = Active"
    by (simp_all add: example_gv_config_def example_proposal_def)
  ultimately show ?thesis
    using gov_save [of "[0, 1, 2]" example_proposal "example_proposal\<lparr> status := Cancelled \<rparr>"] example_gv_ok(2)
    by (simp add: process_cancel_proposal_def gov_signer gov_load)
qed

text \<open>
  C23: Every successful instruction to which the account of a stored proposal is passed in no other role than
  that of the proposal leaves the proposal as it is or moves it along the life cycle that the code implements. Votes count
  only while voting is open; the timelock is reached only after the voting period, with the pass threshold
  met and the veto threshold not; execution waits for the timelock and happens once; only the emergency multisig
  cancels. The thresholds and keys are those of the configuration account that the caller names. The quorum that the
  documentation demands of a passed proposal is no part of it. An account that is also passed as the vote record of
  \<^verbatim>\<open>CastVote\<close>, say, is overwritten and not covered.
\<close>

theorem proposal_follows_protocol:
  assumes "governance_codecs cs" "tx_wf tx" "gv_dispatch cs clk ins ix tx = Inr tx'" "proposal_at cs tx i = Some p"
    and "only_at ix (proposal_pos ins) i"
  shows "\<exists>q. proposal_at cs tx' i = Some q
    \<and> (q = p \<or> (\<exists>cfg. gv_config_at cs tx (at ix 2) = Some cfg \<and> life (signed_by ix tx) cfg clk p q))"
  using assms by (rule governance_codecs.proposal_step)

theorem proposal_follows_protocol_witness:
  "let tx = gov_tx (replicate 32 5) example_proposal False; ix = gov_ix [0, 1, 2] in
   \<exists>tx' q cfg. gv_dispatch gv_borsh (Inl UnsupportedSysvar) (CancelProposal 7) ix tx = Inr tx'
     \<and> proposal_at gv_borsh tx' 1 = Some q \<and> status q = Cancelled \<and> life (signed_by ix tx) cfg (Inl UnsupportedSysvar) example_proposal q"
proof -
  let ?tx = "gov_tx (replicate 32 5) example_proposal False" and ?ix = "gov_ix [0, 1, 2]"
    and ?q = "example_proposal\<lparr> status := Cancelled \<rparr>"
  have o: "only_at ?ix (proposal_pos (CancelProposal 7)) 1" by (simp add: only_at_def at_def gov_ix_def upt_rec)
  have q: "proposal_ok ?q" using example_gv_ok(2) by (simp add: proposal_ok_def)
  have "?q \<noteq> example_proposal" by (simp add: example_proposal_def)
  then have "\<exists>cfg. life (signed_by ?ix ?tx) cfg (Inl UnsupportedSysvar) example_proposal ?q"
    using proposal_follows_protocol [OF gv_borsh.governance_codecs_axioms gov_tx_wf
        gov_cancel [of "Inl UnsupportedSysvar"] gov_at(1) [OF example_gv_ok(2)] o] gov_at(1) [OF q] by auto
  moreover have "status ?q = Cancelled" by simp
  ultimately show ?thesis unfolding Let_def using gov_cancel gov_at(1) [OF q] by blast
qed

lemma gov_close:
  "gv_dispatch gv_borsh (Inr \<lparr> epoch = 10, unix_timestamp = 0 \<rparr>) (ExecuteProposal 7) (gov_ix [0, 1, 2]) (gov_tx s example_proposal False) =
     Inr (gov_tx s (example_proposal\<lparr> status := Timelocked \<rparr>) True)"
proof -
  let ?q = "example_proposal\<lparr> status := Timelocked \<rparr>"
  have "proposal_ok ?q" "length (enc proposal_borsh ?q) = length (enc proposal_borsh example_proposal)"
    using example_gv_ok(2) by (simp_all add: proposal_ok_def proposal_borsh_def tail_enc_def)
  from gov_save [of "[0, 1, 2]", OF _ _ example_gv_ok(2) this, of s False]
  have s: "save_proposal gv_borsh (gov_ix [0, 1, 2]) 1 ?q (gov_tx s example_proposal False) = Inr (gov_tx s ?q True)" by simp
  have "is_active example_gv_config" "status example_proposal = Active" "pr_id example_proposal = 7" "\<not> executed example_proposal"
    by (simp_all add: example_gv_config_def example_proposal_def)
  moreover have "close_voting gv_borsh example_gv_config example_proposal \<lparr> epoch = 10, unix_timestamp = 0 \<rparr> (gov_ix [0, 1, 2])
      (gov_tx s example_proposal False) = save_proposal gv_borsh (gov_ix [0, 1, 2]) 1 ?q (gov_tx s example_proposal False)"
    by (simp add: close_voting_def example_proposal_def example_gv_config_def total_votes_def share_bps_def checked_add_def
        checked_mul_def checked_div_def BPS_DENOMINATOR_def effective_pass_threshold_def is_emergency_unlock_def
        EMERGENCY_UNLOCK_PASS_THRESHOLD_BPS_def)
  ultimately show ?thesis using s example_gv_ok(2) by (simp add: process_execute_proposal_def gov_signer gov_load)
qed

lemma gov_execute:
  "gv_dispatch gv_borsh (Inr \<lparr> epoch = 12, unix_timestamp = 0 \<rparr>) (ExecuteProposal 7) (gov_ix [0, 1, 2])
     (gov_tx s (example_proposal\<lparr> status := Timelocked \<rparr>) True) =
   Inr (gov_tx s (example_proposal\<lparr> status := Executed, executed := True \<rparr>) True)"
proof -
  let ?p = "example_proposal\<lparr> status := Timelocked \<rparr>" and ?q = "example_proposal\<lparr> status := Executed, executed := True \<rparr>"
  have ok: "proposal_ok ?p" "proposal_ok ?q" and "length (enc proposal_borsh ?q) = length (enc proposal_borsh ?p)"
    using example_gv_ok(2) by (simp_all add: proposal_ok_def proposal_borsh_def tail_enc_def)
  from gov_save [of "[0, 1, 2]", OF _ _ this, of s True]
  have "save_proposal gv_borsh (gov_ix [0, 1, 2]) 1 ?q (gov_tx s ?p True) = Inr (gov_tx s ?q True)" by simp
  moreover have "is_active example_gv_config" "pr_id example_proposal = 7" "\<not> executed example_proposal" "execution_epoch example_proposal = 12"
    by (simp_all add: example_gv_config_def example_proposal_def)
  ultimately show ?thesis using ok(1) by (simp add: process_execute_proposal_def gov_signer gov_load)
qed

lemma gov_pop: "pop_check (gov_ix js) (gov_tx s p b) = Inr ()"
  by (simp add: pop_check_def gov_ix_def gov_tx_def tx_try_borrow_mut_def nth_opt_def umax_def)

text \<open>
  C24: A locked account is unlocked by governance only with a supermajority: whatever instructions are
  processed after an emergency-unlock proposal was put to the vote, with whatever configuration
  accounts, as long as each of them is given the account of the proposal in no other role than that of the
  proposal, so that nothing else is written over it: when the proposal has been executed, at least four fifths of the
  votes for or against it were for it.
\<close>

theorem emergency_needs_supermajority:
  assumes "governance_codecs cs" "tx_wf tx" "proposal_at cs tx i = Some p" "is_emergency_unlock p" "status p = Active"
    and "list_all (proposal_role i) es"
  shows "\<exists>q. proposal_at cs (foldl (gv_step cs) tx es) i = Some q \<and> is_emergency_unlock q
    \<and> (status q = Executed \<longrightarrow> 0 < votes_for q \<and> 4 * (votes_for q + votes_against q) \<le> 5 * votes_for q)"
proof -
  have g: "guarded_run (gv_step cs) (\<lambda>tx e. proposal_role i e) tx0 es" for tx0
    using assms(6) by (induction es arbitrary: tx0) auto
  have "emergency_inv cs i tx" using assms by (auto simp: emergency_inv_def)
  from gv_run.guarded_inv [OF this g] show ?thesis by (auto simp: emergency_inv_def supermajority_def)
qed

theorem emergency_needs_supermajority_witness:
  "let ix = gov_ix [0, 1, 2]; tx' = foldl (gv_step gv_borsh) (gov_tx (replicate 32 1) example_proposal False)
         [(Inr \<lparr> epoch = 10, unix_timestamp = 0 \<rparr>, ExecuteProposal 7, ix), (Inr \<lparr> epoch = 12, unix_timestamp = 0 \<rparr>, ExecuteProposal 7, ix)] in
   \<exists>q. proposal_at gv_borsh tx' 1 = Some q \<and> status q = Executed \<and> 4 * (votes_for q + votes_against q) \<le> 5 * votes_for q"
proof -
  let ?ix = "gov_ix [0, 1, 2]" and ?q = "example_proposal\<lparr> status := Executed, executed := True \<rparr>"
  let ?es = "[(Inr \<lparr> epoch = 10, unix_timestamp = 0 \<rparr>, ExecuteProposal 7, ?ix), (Inr \<lparr> epoch = 12, unix_timestamp = 0 \<rparr>, ExecuteProposal 7, ?ix)]"
  have r: "foldl (gv_step gv_borsh) (gov_tx (replicate 32 1) example_proposal False) ?es = gov_tx (replicate 32 1) ?q True"
    using gov_close gov_execute by (simp add: gv_step_def gov_pop)
  have q: "proposal_ok ?q" using example_gv_ok(2) by (simp add: proposal_ok_def)
  have e: "is_emergency_unlock example_proposal" "status example_proposal = Active"
    by (simp_all add: is_emergency_unlock_def example_proposal_def)
  have g: "list_all (proposal_role 1) ?es" by (simp add: proposal_role_def only_at_def at_def gov_ix_def upt_rec)
  have "4 * (votes_for ?q + votes_against ?q) \<le> 5 * votes_for ?q"
    using emergency_needs_supermajority [OF gv_borsh.governance_codecs_axioms gov_tx_wf
        gov_at(1) [OF example_gv_ok(2), of "replicate 32 1" False] e g, unfolded r] gov_at(1) [OF q] by auto
  moreover have "status ?q = Executed" by simp
  ultimately show ?thesis unfolding Let_def r using gov_at(1) [OF q] by blast
qed

text \<open>
  C25: The authority controls the configuration against every successful instruction to which its account is passed in no other
  role than that of the configuration: the configuration stays in place, its authority never changes, governance is never
  deactivated, and only with the signature of its authority are its parameters updated, within their ranges, or governance
  activated. Creating a proposal only counts up the identifier. Passed as the vote record of \<^verbatim>\<open>CastVote\<close>, which
  is not checked, the configuration can be overwritten without that signature; this is excluded here.
\<close>

theorem governance_config_control:
  assumes "governance_codecs cs" "tx_wf tx" "gv_dispatch cs clk ins ix tx = Inr tx'" "gv_config_at cs tx i = Some cfg"
    and "only_at ix (config_pos ins) i" "gv_ins_ok ins"
  shows "\<exists>cfg'. gv_config_at cs tx' i = Some cfg' \<and> gv_authority cfg' = gv_authority cfg
    \<and> (is_active cfg \<longrightarrow> is_active cfg') \<and> (cfg' = cfg \<or> gv_config_change ins (signed_by ix tx) cfg cfg')"
proof -
  obtain cfg' where c: "gv_config_at cs tx' i = Some cfg'" "cfg' = cfg \<or> gv_config_change ins (signed_by ix tx) cfg cfg'"
    using governance_codecs.gv_config_step [OF assms] by blast
  have "gv_authority cfg' = gv_authority cfg \<and> (is_active cfg \<longrightarrow> is_active cfg')"
    using c(2) by (cases ins) auto
  then show ?thesis using c by blast
qed

theorem governance_config_control_witness:
  "let tx = gov_tx (replicate 32 5) example_proposal False in
   \<exists>tx' cfg'. gv_dispatch gv_borsh (Inl UnsupportedSysvar) (CancelProposal 7) (gov_ix [0, 1, 2]) tx = Inr tx'
     \<and> gv_config_at gv_borsh tx' 2 = Some cfg' \<and> gv_authority cfg' = replicate 32 1"
proof -
  have o: "only_at (gov_ix [0, 1, 2]) (config_pos (CancelProposal 7)) 2" by (simp add: only_at_def at_def gov_ix_def upt_rec)
  have "gv_ins_ok (CancelProposal 7)" "gv_authority example_gv_config = replicate 32 1" by (simp_all add: example_gv_config_def)
  with governance_config_control [OF gv_borsh.governance_codecs_axioms gov_tx_wf gov_cancel gov_at(2) o]
  show ?thesis unfolding Let_def using gov_cancel by metis
qed

text \<open>
  The voting power of a stored stake position, read from the raw bytes of its account, is the one
  computed from its amount and lock tier; positions without weight have none.
\<close>

theorem voting_power_of_position:
  assumes "ps_ok s" "vote_weight_bps_for_tier (lock_days s) = Some (vote_weight_bps s)"
  shows "voting_power_from_passive_stake_data (stored s @ rest) =
    (if vote_weight_bps s = 0 then None
     else map_option (Pair (amount s)) (calculate_voting_power (amount s) (PassiveStake (lock_days s))))"
proof -
  have "amount s < 2 ^ 64" "vote_weight_bps s < 2 ^ 16" using assms(1) by (simp_all add: ps_ok_def)
  then show ?thesis using position_voting_power [OF assms(1)] tier_weight [OF assms(2)] weighted_power_value
    by (simp add: calculate_voting_power_def Let_def)
qed

theorem voting_power_of_position_witness:
  "voting_power_from_passive_stake_data (stored example_position) = Some (500, 50)"
proof -
  have t: "vote_weight_bps_for_tier (lock_days example_position) = Some (vote_weight_bps example_position)"
    by (simp add: example_position_def vote_weight_bps_for_tier_def tier_defs)
  show ?thesis using voting_power_of_position [OF example_position_ok(1) t, of "[]"]
    by (simp add: example_position_def calculate_voting_power_def gv_vote_weight_bps_def vote_weight_defs tier_defs
        weighted_power_def checked_mul_def checked_div_def BPS_DENOMINATOR_def u64_try_from_def)
qed

text \<open>The bytes of the example configuration read as a stake position.\<close>

lemma config_data_split:
  "config_data = (GOVERNANCE_CONFIG_DISCRIMINATOR # bool_byte True @ replicate 31 1)
     @ [1, 232, 3, 0, 0, 0, 0, 0] @ [0] @ le_bytes 8 7 @ le_bytes 2 3000 @ le_bytes 2 5000 @ le_bytes 2 3333 @ le_bytes 8 2
     @ replicate 18 5 @ [5, 5] @ replicate 12 5 @ le_bytes 8 8"
proof -
  have "replicate 32 (1 :: u8) = replicate 31 1 @ [1]" "replicate 32 (5 :: u8) = replicate 18 5 @ [5, 5] @ replicate 12 5"
    by (simp_all add: numeral_eq_Suc)
  moreover have "le_bytes 8 1000 = [232, 3, 0, 0, 0, 0, 0] @ [0]" by code_simp
  ultimately show ?thesis by (simp add: config_data_def config_borsh_def example_gv_config_def)
qed

lemma config_data_length: "length config_data = 104"
  by (simp add: config_data_split)

lemma config_as_stake: "voting_power_from_passive_stake_data config_data = Some (256001, 32896)"
proof -
  have "u_field 33 8 config_data = 256001" "u_field 82 2 config_data = 1285"
    by (simp_all add: config_data_split u_field_skip) (simp_all add: u_field_def field_def)
  then show ?thesis
    by (simp add: voting_power_from_passive_stake_data_def config_data_length weighted_power_value) (simp add: config_data_def gv_disc)
qed
lemma record_over_config:
  assumes "vote_record_ok r"
  obtains buf tx' where "vote_record_serialize_into gv_borsh r config_data = Some buf" "length buf = 104"
    "set_data_from_slice (gov_ix js) \<lparr> index_in_transaction = 2, is_signer = False, is_writable = True \<rparr> buf (gov_tx s q b) = Inr tx'"
    "gv_config_at gv_borsh tx' 2 = None" "proposal_at gv_borsh tx' 1 = proposal_at gv_borsh (gov_tx s q b) 1"
proof -
  obtain buf where buf: "vote_record_serialize_into gv_borsh r config_data = Some buf" "length buf = 104"
    using record_borsh.serialize_succeeds [OF assms, of config_data VOTE_RECORD_DISCRIMINATOR]
      record_borsh.serialize_roundtrip [OF assms, of VOTE_RECORD_DISCRIMINATOR config_data]
    by (auto simp: vote_record_serialize_into_def VOTE_RECORD_SERIALIZED_SIZE_def gv_borsh_def config_data_length)
  obtain tx' where tx': "set_data_from_slice (gov_ix js) \<lparr> index_in_transaction = 2, is_signer = False, is_writable = True \<rparr> buf (gov_tx s q b) = Inr tx'"
    using buf(2) by (simp add: gov_ix_def gov_tx_def handler_eval config_data_length)
  note d = set_data_data [OF reached_start [OF gov_tx_wf] tx']
  show thesis using that [OF buf tx'] d [of 1] d [of 2] other_kind(3) [OF buf(1)] by (simp add: gv_config_at_def proposal_at_def)
qed

text \<open>
  The accounts of a vote are not checked. In an explicit state, a signer without any stake casts a
  vote that passes the configuration account both as the proof of stake and as the vote record: the
  vote counts with the weight found in the bytes of the configuration, and the configuration is
  overwritten and no longer exists.
\<close>

theorem vote_accounts_unchecked:
  "let tx = gov_tx (replicate 32 8) example_proposal False in
   \<exists>tx' q. gv_dispatch gv_borsh (Inr \<lparr> epoch = 5, unix_timestamp = 0 \<rparr>) (CastVote 7 For) (gov_ix [0, 1, 2, 2, 2]) tx = Inr tx'
     \<and> proposal_at gv_borsh tx' 1 = Some q \<and> votes_for q = votes_for example_proposal + 32896
     \<and> gv_config_at gv_borsh tx 2 = Some example_gv_config \<and> gv_config_at gv_borsh tx' 2 = None"
proof -
  let ?q = "example_proposal\<lparr> votes_for := 32976 \<rparr>" and ?ix = "gov_ix [0, 1, 2, 2, 2]" and ?k = "replicate 32 8 :: pubkey"
  let ?r = "\<lparr> vr_proposal_id = 7, vr_voter = ?k, vr_vote = For, vr_weight = 32896, voted_epoch = 5 \<rparr>"
  have q: "proposal_ok ?q" "length (enc proposal_borsh ?q) = length (enc proposal_borsh example_proposal)"
    using example_gv_ok(2) by (simp_all add: proposal_ok_def proposal_borsh_def tail_enc_def)
  have s: "save_proposal gv_borsh ?ix 1 ?q (gov_tx ?k example_proposal False) = Inr (gov_tx ?k ?q True)"
    using gov_save [of "[0, 1, 2, 2, 2]", OF _ _ example_gv_ok(2) q] by simp
  have b: "try_borrow_instruction_account ?ix (gov_tx s p t) 3 = Inr \<lparr> index_in_transaction = 2, is_signer = False, is_writable = True \<rparr>"
    "try_borrow_instruction_account ?ix (gov_tx s p t) 4 = Inr \<lparr> index_in_transaction = 2, is_signer = False, is_writable = True \<rparr>"
    "get_data (gov_tx s p t) \<lparr> index_in_transaction = 2, is_signer = False, is_writable = True \<rparr> = config_data"
    "get_owner (gov_tx s p t) \<lparr> index_in_transaction = 2, is_signer = False, is_writable = True \<rparr> = governance_id" for s p t
    by (simp_all add: gov_ix_def gov_tx_def handler_eval)
  have e: "is_active example_gv_config" "pr_id example_proposal = 7" "status example_proposal = Active"
    "voting_ends_epoch example_proposal = 10" "hd config_data \<noteq> VOTE_RECORD_DISCRIMINATOR" "votes_for example_proposal = 80"
    "apply_vote For 32896 example_proposal = Inr ?q"
    by (simp_all add: example_gv_config_def example_proposal_def config_data_def gv_disc apply_vote_def checked_add_def)
  have "vote_record_ok ?r" by (simp add: vote_record_ok_def)
  then obtain buf tx' where t: "vote_record_serialize_into gv_borsh ?r config_data = Some buf"
    "set_data_from_slice ?ix \<lparr> index_in_transaction = 2, is_signer = False, is_writable = True \<rparr> buf (gov_tx ?k ?q True) = Inr tx'"
    "gv_config_at gv_borsh tx' 2 = None" "proposal_at gv_borsh tx' 1 = Some ?q"
    using record_over_config [of ?r "[0, 1, 2, 2, 2]" ?k ?q True] gov_at(1) [OF q(1)] by metis
  have "gv_dispatch gv_borsh (Inr \<lparr> epoch = 5, unix_timestamp = 0 \<rparr>) (CastVote 7 For) ?ix (gov_tx ?k example_proposal False) = Inr tx'"
    using s t(1,2) e example_gv_ok(2)
    by (simp add: process_cast_vote_def gov_signer gov_load b config_as_stake grown_def config_data_length VOTE_RECORD_SERIALIZED_SIZE_def
        del: One_nat_def)
  then show ?thesis unfolding Let_def using t(3,4) gov_at(2) e(6) by fastforce
qed

end
