(* ===== verification/Developer_Rewards.thy ===== *)
theory Developer_Rewards
  imports Account_Data
begin

text \<open>
  The developer-rewards program, \<^verbatim>\<open>programs/developer-rewards/src\<close>: revenue configurations of programs,
  the per-epoch tracker and the five instructions. The derived Borsh codecs (of the two records and of
  the instruction data) and the clock sysvar are parameters; the locale \<open>revenue_codecs\<close> states what
  the program relies on and is interpreted on the documented layout. Encoding into a vector does not
  fail. Log messages and the compute budget are left out.

  Shown: the layout satisfies the laws; every instruction obeys the account rules. What the program
  guarantees is in \<open>Revenue_Rules\<close>.
\<close>

section \<open>Constants and errors\<close>

definition MIN_COMPUTE_UNITS_THRESHOLD :: u64 where "MIN_COMPUTE_UNITS_THRESHOLD = 1000"
definition COOLDOWN_SLOTS :: u64 where "COOLDOWN_SLOTS = 1512000"
definition MAX_PROGRAM_FEE_SHARE_BPS :: u16 where "MAX_PROGRAM_FEE_SHARE_BPS = 1000"
definition TOTAL_BPS :: u16 where "TOTAL_BPS = 10000"

text \<open>\<^verbatim>\<open>declare_id!\<close>: the bytes of \<^verbatim>\<open>DevRew11111111111111111111111111111111111111\<close> in base 58.\<close>

definition developer_rewards_id :: pubkey where
  "developer_rewards_id = [188, 3, 36, 22, 151, 213, 164, 136, 59, 209, 54, 117, 27, 96, 201, 214,
     35, 156, 86, 214, 136, 205, 200, 36, 125, 63, 164, 0, 0, 0, 0, 0]"

text \<open>Constructors that the instruction errors already use carry the prefix \<open>Dr\<close>.\<close>

datatype DeveloperRewardsError =
    UnauthorizedSigner | UnauthorizedUpdateAuthority | ConfigAlreadyExists | ConfigNotFound | ConfigNotActive
  | InvalidSplitTotal | ZeroShareInSplit | TooManySplitRecipients | DuplicateRecipient | CooldownNotElapsed
  | BelowMinComputeUnits | EpochFeeCapExceeded | NoFeesToClaim | InsufficientPoolFunds | DeserializationError
  | SerializationError | DrInvalidAccountOwner | DrAccountDataTooSmall | InvalidPda

fun dr_err :: "DeveloperRewardsError \<Rightarrow> InstructionError" where
  "dr_err UnauthorizedSigner = Custom 0"
| "dr_err UnauthorizedUpdateAuthority = Custom 1"
| "dr_err ConfigAlreadyExists = Custom 2"
| "dr_err ConfigNotFound = Custom 3"
| "dr_err ConfigNotActive = Custom 4"
| "dr_err InvalidSplitTotal = Custom 5"
| "dr_err ZeroShareInSplit = Custom 6"
| "dr_err TooManySplitRecipients = Custom 7"
| "dr_err DuplicateRecipient = Custom 8"
| "dr_err CooldownNotElapsed = Custom 9"
| "dr_err BelowMinComputeUnits = Custom 10"
| "dr_err EpochFeeCapExceeded = Custom 11"
| "dr_err NoFeesToClaim = Custom 12"
| "dr_err InsufficientPoolFunds = Custom 13"
| "dr_err DeserializationError = Custom 14"
| "dr_err SerializationError = Custom 15"
| "dr_err DrInvalidAccountOwner = Custom 16"
| "dr_err DrAccountDataTooSmall = Custom 17"
| "dr_err InvalidPda = Custom 18"

section \<open>State\<close>

record RevenueSplit =
  recipient :: pubkey
  rs_share_bps :: u16

record ProgramRevenueConfig =
  rc_version :: u8
  rc_program_id :: pubkey
  revenue_recipient :: pubkey
  update_authority :: pubkey
  rc_is_active :: bool
  revenue_splits :: "RevenueSplit list"
  total_fees_earned :: u64
  epoch_fees_earned :: u64
  last_epoch :: u64
  eligible_after_slot :: u64
  unclaimed_fees :: u64

record EpochFeeTracker =
  et_version :: u8
  et_epoch :: u64
  total_developer_fees :: u64

datatype DeveloperRewardsInstruction =
    RegisterRevenueRecipient pubkey pubkey
  | UpdateRevenueRecipient pubkey pubkey
  | AddRevenueSplit pubkey "RevenueSplit list"
  | ClaimDeveloperFees pubkey
  | CreditDeveloperFees pubkey u64 u64

text \<open>The clock of this program also has the slot.\<close>

record SlotClock = Clock +
  slot :: u64

record dr_codecs =
  rc_codec :: "ProgramRevenueConfig codec"
  et_codec :: "EpochFeeTracker codec"

section \<open>Helpers\<close>

definition deserialize_config :: "dr_codecs \<Rightarrow> bytes \<Rightarrow> InstructionError + ProgramRevenueConfig" where
  "deserialize_config cs data =
     (if data = [] \<or> hd data = 0 then Inl (dr_err ConfigNotFound)
      else ok_or InvalidAccountData (dec (rc_codec cs) data))"

definition serialize_config ::
    "dr_codecs \<Rightarrow> ProgramRevenueConfig \<Rightarrow> InstructionContext \<Rightarrow> InstructionAccount \<Rightarrow> TransactionContext \<Rightarrow>
     InstructionError + TransactionContext" where
  "serialize_config cs config ix account tx =
     (let serialized = enc (rc_codec cs) config in
      if length (get_data tx account) < length serialized then Inl (dr_err DrAccountDataTooSmall)
      else set_data_from_slice ix account serialized tx)"

definition deserialize_tracker :: "dr_codecs \<Rightarrow> bytes \<Rightarrow> InstructionError + EpochFeeTracker" where
  "deserialize_tracker cs data =
     (if data = [] \<or> list_all (\<lambda>b. b = 0) data then Inr \<lparr> et_version = 1, et_epoch = 0, total_developer_fees = 0 \<rparr>
      else ok_or InvalidAccountData (dec (et_codec cs) data))"

definition serialize_tracker ::
    "dr_codecs \<Rightarrow> EpochFeeTracker \<Rightarrow> InstructionContext \<Rightarrow> InstructionAccount \<Rightarrow> TransactionContext \<Rightarrow>
     InstructionError + TransactionContext" where
  "serialize_tracker cs tracker ix account tx =
     (let serialized = enc (et_codec cs) tracker in
      if length (get_data tx account) < length serialized then Inl (dr_err DrAccountDataTooSmall)
      else set_data_from_slice ix account serialized tx)"

section \<open>Handlers\<close>

definition registered_config :: "pubkey \<Rightarrow> pubkey \<Rightarrow> pubkey \<Rightarrow> SlotClock \<Rightarrow> ProgramRevenueConfig" where
  "registered_config program_id rcp signer_key clock =
     \<lparr> rc_version = 1, rc_program_id = program_id, revenue_recipient = rcp, update_authority = signer_key,
       rc_is_active = True, revenue_splits = [], total_fees_earned = 0, epoch_fees_earned = 0, last_epoch = 0,
       eligible_after_slot = sat_add 64 (slot clock) COOLDOWN_SLOTS, unclaimed_fees = 0 \<rparr>"

definition process_register ::
    "dr_codecs \<Rightarrow> (InstructionError + SlotClock) \<Rightarrow> pubkey \<Rightarrow> pubkey \<Rightarrow> InstructionContext \<Rightarrow> TransactionContext \<Rightarrow>
     InstructionError + TransactionContext" where
  "process_register cs get_clock program_id rcp ix tx =
     res_bind (is_instruction_account_signer ix 0) (\<lambda>signed.
     if \<not> signed then Inl MissingRequiredSignature
     else
     res_bind (get_key_of_instruction_account ix tx 0) (\<lambda>signer_key.
     res_bind (try_borrow_instruction_account ix tx 1) (\<lambda>config_account.
     if get_data tx config_account \<noteq> [] \<and> hd (get_data tx config_account) \<noteq> 0 then Inl (dr_err ConfigAlreadyExists)
     else
     res_bind (try_borrow_instruction_account ix tx 2) (\<lambda>programdata_account.
     let pd_data = get_data tx programdata_account in
     if length pd_data < 45 then Inl (dr_err UnauthorizedSigner)
     else if pd_data ! 12 \<noteq> 1 then Inl (dr_err UnauthorizedSigner)
     else if field 13 32 pd_data \<noteq> signer_key then Inl (dr_err UnauthorizedSigner)
     else
     res_bind get_clock (\<lambda>clock.
     let config = registered_config program_id rcp signer_key clock in
     res_bind (try_borrow_instruction_account ix tx 1) (\<lambda>config_account.
     serialize_config cs config ix config_account tx))))))"

definition process_update_recipient ::
    "dr_codecs \<Rightarrow> pubkey \<Rightarrow> pubkey \<Rightarrow> InstructionContext \<Rightarrow> TransactionContext \<Rightarrow> InstructionError + TransactionContext" where
  "process_update_recipient cs program_id new_recipient ix tx =
     res_bind (is_instruction_account_signer ix 0) (\<lambda>signed.
     if \<not> signed then Inl MissingRequiredSignature
     else
     res_bind (get_key_of_instruction_account ix tx 0) (\<lambda>signer_key.
     res_bind (try_borrow_instruction_account ix tx 1) (\<lambda>config_account.
     res_bind (deserialize_config cs (get_data tx config_account)) (\<lambda>config.
     if update_authority config \<noteq> signer_key then Inl (dr_err UnauthorizedUpdateAuthority)
     else serialize_config cs (config\<lparr> revenue_recipient := new_recipient \<rparr>) ix config_account tx))))"

text \<open>The loop over the splits: it adds up the shares and looks for the recipient among the later ones.\<close>

fun check_splits :: "u32 \<Rightarrow> RevenueSplit list \<Rightarrow> InstructionError + u32" where
  "check_splits total_bps [] = Inr total_bps"
| "check_splits total_bps (s # rest) =
     (if rs_share_bps s = 0 then Inl (dr_err ZeroShareInSplit)
      else if list_ex (\<lambda>other. recipient s = recipient other) rest then Inl (dr_err DuplicateRecipient)
      else check_splits (sat_add 32 total_bps (rs_share_bps s)) rest)"

definition process_add_revenue_split ::
    "dr_codecs \<Rightarrow> pubkey \<Rightarrow> RevenueSplit list \<Rightarrow> InstructionContext \<Rightarrow> TransactionContext \<Rightarrow>
     InstructionError + TransactionContext" where
  "process_add_revenue_split cs program_id splits ix tx =
     (if length splits > 10 then Inl (dr_err TooManySplitRecipients)
      else
      res_bind (check_splits 0 splits) (\<lambda>total_bps.
      if total_bps \<noteq> TOTAL_BPS then Inl (dr_err InvalidSplitTotal)
      else
      res_bind (is_instruction_account_signer ix 0) (\<lambda>signed.
      if \<not> signed then Inl MissingRequiredSignature
      else
      res_bind (get_key_of_instruction_account ix tx 0) (\<lambda>signer_key.
      res_bind (try_borrow_instruction_account ix tx 1) (\<lambda>config_account.
      res_bind (deserialize_config cs (get_data tx config_account)) (\<lambda>config.
      if update_authority config \<noteq> signer_key then Inl (dr_err UnauthorizedUpdateAuthority)
      else serialize_config cs (config\<lparr> revenue_splits := splits \<rparr>) ix config_account tx))))))"

definition process_claim ::
    "dr_codecs \<Rightarrow> pubkey \<Rightarrow> InstructionContext \<Rightarrow> TransactionContext \<Rightarrow> InstructionError + TransactionContext" where
  "process_claim cs program_id ix tx =
     res_bind (is_instruction_account_signer ix 0) (\<lambda>signed.
     if \<not> signed then Inl MissingRequiredSignature
     else
     res_bind (try_borrow_instruction_account ix tx 1) (\<lambda>config_account.
     res_bind (deserialize_config cs (get_data tx config_account)) (\<lambda>config.
     if \<not> rc_is_active config then Inl (dr_err ConfigNotActive)
     else if unclaimed_fees config = 0 then Inl (dr_err NoFeesToClaim)
     else
     let claim_amount = unclaimed_fees config in
     res_bind (serialize_config cs (config\<lparr> unclaimed_fees := 0 \<rparr>) ix config_account tx) (\<lambda>tx.
     res_bind (try_borrow_instruction_account ix tx 2) (\<lambda>pool_account.
     if get_lamports tx pool_account < claim_amount then Inl (dr_err InsufficientPoolFunds)
     else
     res_bind (checked_sub_lamports ix pool_account claim_amount tx) (\<lambda>tx.
     res_bind (try_borrow_instruction_account ix tx 3) (\<lambda>recipient_account.
     checked_add_lamports ix recipient_account claim_amount tx)))))))"

text \<open>The cap of a program: a tenth of the fees of the epoch, the new fee included; the cast to 64 bits wraps.\<close>

definition max_allowed :: "u64 \<Rightarrow> u64" where
  "max_allowed projected_total =
     (case checked_div (sat_mul 128 projected_total MAX_PROGRAM_FEE_SHARE_BPS) TOTAL_BPS of
        Some x \<Rightarrow> x mod 2 ^ 64 | None \<Rightarrow> 0)"

definition process_credit ::
    "dr_codecs \<Rightarrow> (InstructionError + SlotClock) \<Rightarrow> pubkey \<Rightarrow> u64 \<Rightarrow> u64 \<Rightarrow> InstructionContext \<Rightarrow> TransactionContext \<Rightarrow>
     InstructionError + TransactionContext" where
  "process_credit cs get_clock program_id amt compute_units_consumed ix tx =
     (if compute_units_consumed < MIN_COMPUTE_UNITS_THRESHOLD then Inl (dr_err BelowMinComputeUnits)
      else
      res_bind get_clock (\<lambda>clock.
      res_bind (try_borrow_instruction_account ix tx 1) (\<lambda>config_account.
      res_bind (deserialize_config cs (get_data tx config_account)) (\<lambda>config.
      if \<not> rc_is_active config then Inl (dr_err ConfigNotActive)
      else if slot clock < eligible_after_slot config then Inl (dr_err CooldownNotElapsed)
      else
      let config = (if last_epoch config \<noteq> epoch clock
                    then config\<lparr> epoch_fees_earned := 0, last_epoch := epoch clock \<rparr> else config) in
      res_bind (try_borrow_instruction_account ix tx 2) (\<lambda>tracker_account.
      res_bind (deserialize_tracker cs (get_data tx tracker_account)) (\<lambda>tracker.
      let tracker = (if et_epoch tracker \<noteq> epoch clock
                     then tracker\<lparr> et_epoch := epoch clock, total_developer_fees := 0 \<rparr> else tracker);
          projected_program = sat_add 64 (epoch_fees_earned config) amt;
          projected_total = sat_add 64 (total_developer_fees tracker) amt in
      if projected_program > max_allowed projected_total then Inl (dr_err EpochFeeCapExceeded)
      else
      let config = config\<lparr> epoch_fees_earned := projected_program,
                           total_fees_earned := sat_add 64 (total_fees_earned config) amt,
                           unclaimed_fees := sat_add 64 (unclaimed_fees config) amt \<rparr>;
          tracker = tracker\<lparr> total_developer_fees := projected_total \<rparr> in
      res_bind (serialize_tracker cs tracker ix tracker_account tx) (\<lambda>tx.
      res_bind (try_borrow_instruction_account ix tx 1) (\<lambda>config_account.
      serialize_config cs config ix config_account tx))))))))"

fun dr_dispatch ::
    "dr_codecs \<Rightarrow> (InstructionError + SlotClock) \<Rightarrow> DeveloperRewardsInstruction \<Rightarrow> InstructionContext \<Rightarrow> TransactionContext \<Rightarrow>
     InstructionError + TransactionContext" where
  "dr_dispatch cs clk (RegisterRevenueRecipient p r) ix tx = process_register cs clk p r ix tx"
| "dr_dispatch cs clk (UpdateRevenueRecipient p r) ix tx = process_update_recipient cs p r ix tx"
| "dr_dispatch cs clk (AddRevenueSplit p ss) ix tx = process_add_revenue_split cs p ss ix tx"
| "dr_dispatch cs clk (ClaimDeveloperFees p) ix tx = process_claim cs p ix tx"
| "dr_dispatch cs clk (CreditDeveloperFees p a u) ix tx = process_credit cs clk p a u ix tx"

definition dr_entrypoint ::
    "(bytes \<Rightarrow> DeveloperRewardsInstruction option) \<Rightarrow> dr_codecs \<Rightarrow> (InstructionError + SlotClock) \<Rightarrow>
     bytes \<Rightarrow> InstructionContext \<Rightarrow> TransactionContext \<Rightarrow> InstructionError + TransactionContext" where
  "dr_entrypoint try_from_slice cs clk instruction_data ix tx =
     res_bind (ok_or InvalidInstructionData (try_from_slice instruction_data)) (\<lambda>ins.
     dr_dispatch cs clk ins ix tx)"

section \<open>Account rules\<close>

lemma reached_serialize [reached_op]:
  "serialize_config cs cfg ix ia tx = Inr tx' \<Longrightarrow> ia \<in> set (instruction_accounts ix) \<Longrightarrow> reached ix tx0 tx \<Longrightarrow> reached ix tx0 tx'"
  "serialize_tracker cs t ix ia tx = Inr tx' \<Longrightarrow> ia \<in> set (instruction_accounts ix) \<Longrightarrow> reached ix tx0 tx \<Longrightarrow> reached ix tx0 tx'"
  by (auto simp: serialize_config_def serialize_tracker_def Let_def intro: reached_set_data split: if_splits)

lemma dr_reached:
  "reached ix tx0 tx \<Longrightarrow> dr_dispatch cs clk ins ix tx = Inr tx' \<Longrightarrow> reached ix tx0 tx'"
  by (cases ins; auto simp: process_register_def process_update_recipient_def process_add_revenue_split_def
      process_claim_def process_credit_def Let_def dest!: borrow_mem split: if_splits; blast intro: reached_op)

interpretation developer_rewards: account_program "dr_dispatch cs clk" for cs clk
  by unfold_locales (blast intro: reached_allowed dr_reached reached_start)

section \<open>The stored form\<close>

definition split_ok :: "RevenueSplit \<Rightarrow> bool" where
  "split_ok s \<longleftrightarrow> length (recipient s) = 32 \<and> rs_share_bps s < 2 ^ 16"

definition rc_ok :: "ProgramRevenueConfig \<Rightarrow> bool" where
  "rc_ok s \<longleftrightarrow> length (rc_program_id s) = 32 \<and> length (revenue_recipient s) = 32 \<and> length (update_authority s) = 32
     \<and> list_all split_ok (revenue_splits s) \<and> length (revenue_splits s) < 2 ^ 32 \<and> total_fees_earned s < 2 ^ 64
     \<and> epoch_fees_earned s < 2 ^ 64 \<and> last_epoch s < 2 ^ 64 \<and> eligible_after_slot s < 2 ^ 64 \<and> unclaimed_fees s < 2 ^ 64"

definition et_ok :: "EpochFeeTracker \<Rightarrow> bool" where
  "et_ok t \<longleftrightarrow> et_epoch t < 2 ^ 64 \<and> total_developer_fees t < 2 ^ 64"

definition rc_len :: "ProgramRevenueConfig \<Rightarrow> nat" where
  "rc_len s = 142 + 34 * length (revenue_splits s)"

locale revenue_codecs =
    config: exact_codec "rc_codec cs" rc_ok rc_len
  + tracker: exact_codec "et_codec cs" et_ok "\<lambda>t. 17"
  for cs :: dr_codecs +
  assumes version_first: "rc_ok s \<Longrightarrow> hd (enc (rc_codec cs) s) = rc_version s"
begin

lemma config_read:
  "deserialize_config cs d = Inr s \<longleftrightarrow> rc_ok s \<and> rc_version s \<noteq> 0 \<and> d = enc (rc_codec cs) s"
proof -
  have "enc (rc_codec cs) s \<noteq> []" if "rc_ok s" using config.enc_len [OF that] by (auto simp: rc_len_def)
  then show ?thesis using config.dec_exact [of d s] config.dec_enc_exact [of s] version_first [of s]
    by (auto simp: deserialize_config_def)
qed

lemma config_length: "deserialize_config cs d = Inr s \<Longrightarrow> length d = rc_len s"
  using config.enc_len by (auto simp: config_read)

text \<open>The two kinds of accounts differ in their length.\<close>

lemma config_not_tracker: "deserialize_config cs d = Inr s \<Longrightarrow> \<exists>e. deserialize_tracker cs d = Inl e"
proof -
  assume c: "deserialize_config cs d = Inr s"
  then have "length d \<noteq> 17" using config_length [OF c] by (simp add: rc_len_def)
  moreover have "d \<noteq> []" "hd d \<noteq> 0" using c by (auto simp: deserialize_config_def split: if_splits)
  ultimately show ?thesis using tracker.dec_len [of d]
    by (cases d; cases "dec (et_codec cs) d") (auto simp: deserialize_tracker_def ok_or_def)
qed

lemma serialized_config:
  assumes "reached ix tx0 tx" "serialize_config cs s ix ia tx = Inr tx'" "rc_ok s"
  shows "acc_data (acct tx' j) = (if j = index_in_transaction ia then enc (rc_codec cs) s else acc_data (acct tx j))"
    "rc_len s \<le> length (get_data tx ia)"
  using assms(2) set_data_data [OF assms(1)] config.enc_len [OF assms(3)]
  by (auto simp: serialize_config_def Let_def split: if_splits)

lemma serialized_tracker:
  assumes "reached ix tx0 tx" "serialize_tracker cs t ix ia tx = Inr tx'"
  shows "acc_data (acct tx' j) = (if j = index_in_transaction ia then enc (et_codec cs) t else acc_data (acct tx j))"
  using assms(2) set_data_data [OF assms(1)] by (auto simp: serialize_tracker_def Let_def split: if_splits)

end

text \<open>The documented Borsh layout; the splits are preceded by their number.\<close>

definition split_enc :: "RevenueSplit \<Rightarrow> bytes" where
  "split_enc s = recipient s @ le_bytes 2 (int (rs_share_bps s))"

definition split_at :: "bytes \<Rightarrow> nat \<Rightarrow> RevenueSplit" where
  "split_at d k = \<lparr> recipient = field (102 + 34 * k) 32 d, rs_share_bps = u_field (134 + 34 * k) 2 d \<rparr>"

definition rc_borsh :: "ProgramRevenueConfig codec" where
  "rc_borsh =
     \<lparr> enc = (\<lambda>s. [rc_version s] @ rc_program_id s @ revenue_recipient s @ update_authority s @ bool_byte (rc_is_active s)
         @ le_bytes 4 (int (length (revenue_splits s))) @ concat (map split_enc (revenue_splits s))
         @ le_bytes 8 (int (total_fees_earned s)) @ le_bytes 8 (int (epoch_fees_earned s)) @ le_bytes 8 (int (last_epoch s))
         @ le_bytes 8 (int (eligible_after_slot s)) @ le_bytes 8 (int (unclaimed_fees s))),
       dec = (\<lambda>d. let n = u_field 98 4 d; e = 102 + 34 * n in
         if length d \<noteq> 142 + 34 * n \<or> field 97 1 d \<noteq> bool_byte True \<and> field 97 1 d \<noteq> bool_byte False then None
         else Some \<lparr> rc_version = hd d, rc_program_id = field 1 32 d, revenue_recipient = field 33 32 d, update_authority = field 65 32 d,
           rc_is_active = (field 97 1 d = bool_byte True), revenue_splits = map (split_at d) [0..<n],
           total_fees_earned = u_field e 8 d, epoch_fees_earned = u_field (e + 8) 8 d, last_epoch = u_field (e + 16) 8 d,
           eligible_after_slot = u_field (e + 24) 8 d, unclaimed_fees = u_field (e + 32) 8 d \<rparr>) \<rparr>"

definition et_borsh :: "EpochFeeTracker codec" where
  "et_borsh =
     \<lparr> enc = (\<lambda>t. [et_version t] @ le_bytes 8 (int (et_epoch t)) @ le_bytes 8 (int (total_developer_fees t))),
       dec = (\<lambda>d. if length d \<noteq> 17 then None
         else Some \<lparr> et_version = hd d, et_epoch = u_field 1 8 d, total_developer_fees = u_field 9 8 d \<rparr>) \<rparr>"

lemma split_enc_length: "list_all split_ok ss \<Longrightarrow> length (concat (map split_enc ss)) = 34 * length ss"
  by (induction ss) (auto simp: split_enc_def split_ok_def)

lemma split_at_enc:
  "list_all split_ok ss \<Longrightarrow> k < length ss \<Longrightarrow> length h = 102 \<Longrightarrow> split_at (h @ concat (map split_enc ss) @ r) k = ss ! k"
proof (induction ss arbitrary: k r h)
  case (Cons s ss)
  show ?case
  proof (cases k)
    case 0
    then show ?thesis using Cons.prems
      by (simp add: split_at_def split_enc_def split_ok_def read_fields field_skip [of h] u_field_skip [of h])
  next
    case (Suc m)
    have l: "length (split_enc s) = 34" using Cons.prems(1) by (simp add: split_enc_def split_ok_def)
    have "split_at (h @ split_enc s @ concat (map split_enc ss) @ r) (Suc m) = split_at (drop 34 (h @ split_enc s) @ concat (map split_enc ss) @ r) m"
      using Cons.prems(3) l by (simp add: split_at_def field_def u_field_def add.commute drop_append)
    then show ?thesis using Cons.IH [of m "drop 34 (h @ split_enc s)" r] Cons.prems Suc l by simp
  qed
qed simp

interpretation et_borsh: exact_codec et_borsh et_ok "\<lambda>t. 17"
proof
  fix t :: EpochFeeTracker
  show "et_ok t \<Longrightarrow> dec et_borsh (enc et_borsh t) = Some t"
    using u_field_take [of "total_developer_fees t" 8 "[]"]
    by (simp add: et_borsh_def et_ok_def read_fields u_field_skip [of "[_]", simplified])
  show "et_ok t \<Longrightarrow> length (enc et_borsh t) = 17" by (simp add: et_borsh_def)
next
  fix d t
  assume "dec et_borsh d = Some t"
  then have d: "length d = 17" and t: "t = \<lparr> et_version = hd d, et_epoch = u_field 1 8 d, total_developer_fees = u_field 9 8 d \<rparr>"
    by (auto simp: et_borsh_def split: if_splits)
  have "[hd d] @ field 1 8 d @ field 9 8 d = field 0 1 d @ field (0 + 1) 16 d"
    using d field_cat [of 1 8 d 8] by (cases d) (auto simp: field_def)
  then have "enc et_borsh t = d"
    using d le_bytes_u_field [of 1 8 d] le_bytes_u_field [of 9 8 d] unfolding field_cat by (simp add: et_borsh_def t field_def)
  then show "et_ok t \<and> d = enc et_borsh t"
    using d u_field_range [of 1 8 d] u_field_range [of 9 8 d] by (simp add: t et_ok_def)
qed

lemma splits_enc: "102 + 34 * n \<le> length d \<Longrightarrow> concat (map (split_enc \<circ> split_at d) [0..<n]) = field 102 (34 * n) d"
proof (induction n)
  case (Suc n)
  have "split_enc (split_at d n) = field (102 + 34 * n) 34 d"
    using Suc.prems le_bytes_u_field [of "134 + 34 * n" 2 d] field_cat [of "102 + 34 * n" 32 d 2]
    by (simp add: split_enc_def split_at_def add.commute)
  then show ?case using Suc field_cat [of 102 "34 * n" d 34] by (simp add: add.commute)
qed (simp add: field_def)

lemma fields_cat: "off' = off + a \<Longrightarrow> field off a d @ field off' b d = field off (a + b) d"
  by (simp add: field_cat)

lemma rc_borsh_dec_enc:
  assumes "rc_ok s"
  shows "dec rc_borsh (enc rc_borsh s) = Some s"
proof -
  let ?ss = "revenue_splits s" and ?n = "length (revenue_splits s)"
  define h where "h = [rc_version s] @ rc_program_id s @ revenue_recipient s @ update_authority s @ bool_byte (rc_is_active s) @ le_bytes 4 (int ?n)"
  define c where "c = concat (map split_enc ?ss)"
  define t where "t = le_bytes 8 (int (total_fees_earned s)) @ le_bytes 8 (int (epoch_fees_earned s)) @ le_bytes 8 (int (last_epoch s))
     @ le_bytes 8 (int (eligible_after_slot s)) @ le_bytes 8 (int (unclaimed_fees s)) @ []"
  define d where "d = h @ c @ t"
  note o = assms [unfolded rc_ok_def]
  have e: "enc rc_borsh s = d" by (simp add: rc_borsh_def d_def h_def c_def t_def)
  have h: "length h = 102" and c: "length c = 34 * ?n" and t: "length t = 40"
    using o split_enc_length [of ?ss] by (simp_all add: h_def c_def t_def)
  have "u_field 98 4 d = ?n" "field 97 1 d = bool_byte (rc_is_active s)" "hd d = rc_version s" "field 1 32 d = rc_program_id s"
    "field 33 32 d = revenue_recipient s" "field 65 32 d = update_authority s"
    using o by (simp_all add: d_def h_def read_fields field_skip [of "[_]", simplified] u_field_skip [of "[_]", simplified])
  moreover have "map (split_at d) [0..<?n] = ?ss"
    using o split_at_enc [of ?ss _ h t] h by (intro nth_equalityI) (simp_all add: d_def c_def)
  moreover have "u_field (102 + 34 * ?n) 8 d = total_fees_earned s" "u_field (102 + 34 * ?n + 8) 8 d = epoch_fees_earned s"
    "u_field (102 + 34 * ?n + 16) 8 d = last_epoch s" "u_field (102 + 34 * ?n + 24) 8 d = eligible_after_slot s"
    "u_field (102 + 34 * ?n + 32) 8 d = unclaimed_fees s"
    unfolding d_def using h c o by (simp_all add: u_field_skip [of h] u_field_skip [of c] t_def u_field_skip u_field_take
        u_field_take [of "unclaimed_fees s" 8 "[]", simplified])
  moreover have "length d = 142 + 34 * ?n" using h c t by (simp add: d_def)
  ultimately show ?thesis by (simp add: e) (simp add: rc_borsh_def Let_def)
qed

lemma rc_borsh_exact:
  assumes "dec rc_borsh d = Some s"
  shows "rc_ok s \<and> d = enc rc_borsh s"
proof -
  define n where "n = u_field 98 4 d"
  have l: "length d = 142 + 34 * n" and b: "field 97 1 d = bool_byte (field 97 1 d = bool_byte True)" and
    s: "s = \<lparr> rc_version = hd d, rc_program_id = field 1 32 d, revenue_recipient = field 33 32 d, update_authority = field 65 32 d,
           rc_is_active = (field 97 1 d = bool_byte True), revenue_splits = map (split_at d) [0..<n],
           total_fees_earned = u_field (102 + 34 * n) 8 d, epoch_fees_earned = u_field (102 + 34 * n + 8) 8 d,
           last_epoch = u_field (102 + 34 * n + 16) 8 d, eligible_after_slot = u_field (102 + 34 * n + 24) 8 d,
           unclaimed_fees = u_field (102 + 34 * n + 32) 8 d \<rparr>"
    using assms by (auto simp: rc_borsh_def n_def Let_def split: if_splits)
  have hd: "field 0 (Suc 0) d = [hd d]" using l by (cases d) (auto simp: field_def)
  have len: "le_bytes 4 (int n) = field 98 4 d" using l le_bytes_u_field [of 98 4 d] by (simp add: n_def)
  have "enc rc_borsh s = field 0 1 d @ field 1 32 d @ field 33 32 d @ field 65 32 d @ field 97 1 d @ field 98 4 d @ field 102 (34 * n) d
      @ field (102 + 34 * n) 8 d @ field (102 + 34 * n + 8) 8 d @ field (102 + 34 * n + 16) 8 d @ field (102 + 34 * n + 24) 8 d
      @ field (102 + 34 * n + 32) 8 d"
    using l b by (simp add: rc_borsh_def s hd len le_bytes_u_field splits_enc [unfolded comp_def] comp_def)
  also have "\<dots> = field 0 (142 + 34 * n) d" by (simp add: fields_cat)
  finally have "enc rc_borsh s = d" using field_all [OF l] by simp
  moreover have "rc_ok s"
    using l u_field_range [of 98 4 d] u_field_range [of "134 + 34 * _" 2 d] u_field_range [of "102 + 34 * n" 8 d] u_field_range [of "102 + 34 * n + 8" 8 d]
      u_field_range [of "102 + 34 * n + 16" 8 d] u_field_range [of "102 + 34 * n + 24" 8 d] u_field_range [of "102 + 34 * n + 32" 8 d]
    by (auto simp: rc_ok_def s field_def list_all_iff split_ok_def split_at_def n_def [symmetric])
  ultimately show ?thesis by simp
qed

interpretation rc_borsh: exact_codec rc_borsh rc_ok rc_len
proof
  fix s d
  show "rc_ok s \<Longrightarrow> dec rc_borsh (enc rc_borsh s) = Some s" by (rule rc_borsh_dec_enc)
  show "dec rc_borsh d = Some s \<Longrightarrow> rc_ok s \<and> d = enc rc_borsh s" by (rule rc_borsh_exact)
  show "rc_ok s \<Longrightarrow> length (enc rc_borsh s) = rc_len s"
    using split_enc_length [of "revenue_splits s"] by (simp add: rc_borsh_def rc_ok_def rc_len_def)
qed

definition dr_borsh :: dr_codecs where
  "dr_borsh = \<lparr> rc_codec = rc_borsh, et_codec = et_borsh \<rparr>"

interpretation dr_borsh: revenue_codecs dr_borsh
  by (simp add: revenue_codecs_def revenue_codecs_axioms_def dr_borsh_def rc_borsh.exact_codec_axioms et_borsh.exact_codec_axioms)
    (simp add: rc_borsh_def)

end
