(* ===== verification/Revenue_Rules.thy ===== *)
theory Revenue_Rules
  imports Developer_Rewards
begin

text \<open>
  What the developer-rewards program guarantees: only the update authority changes where the revenue of
  a program goes. As the fee cap compares a fee with a total that includes the fee itself, and accounts
  are cut to the length of their encoding, no fee is ever credited and no split is ever stored.
\<close>

section \<open>What each instruction does\<close>

lemma register_run:
  assumes "process_register cs clk p r ix tx = Inr tx'"
  obtains acc clock k where "try_borrow_instruction_account ix tx 1 = Inr acc" "get_data tx acc = [] \<or> hd (get_data tx acc) = 0"
    "length k = 32" "clk = Inr clock"
    "serialize_config cs (registered_config p r k clock) ix acc tx = Inr tx'"
proof -
  from assms obtain acc pd clock acc' k where h: "try_borrow_instruction_account ix tx 1 = Inr acc" "try_borrow_instruction_account ix tx 1 = Inr acc'"
      "get_data tx acc = [] \<or> hd (get_data tx acc) = 0" "\<not> length (get_data tx pd) < 45" "field 13 32 (get_data tx pd) = k" "clk = Inr clock"
      "serialize_config cs (registered_config p r k clock) ix acc' tx = Inr tx'"
    by (auto simp: process_register_def Let_def split: if_splits)
  have "length k = 32" using h(4,5) by (auto simp: field_def)
  then show thesis using that h borrow_same [OF h(1,2)] by blast
qed

lemma update_run:
  assumes "process_update_recipient cs p r ix tx = Inr tx'"
  obtains acc cfg where "try_borrow_instruction_account ix tx 1 = Inr acc" "deserialize_config cs (get_data tx acc) = Inr cfg"
    "signed_by ix tx (update_authority cfg)" "serialize_config cs (cfg\<lparr> revenue_recipient := r \<rparr>) ix acc tx = Inr tx'"
  using assms by (auto simp: process_update_recipient_def split: if_splits) (blast intro: signed_byI)

lemma split_run:
  assumes "process_add_revenue_split cs p ss ix tx = Inr tx'"
  obtains acc cfg where "try_borrow_instruction_account ix tx 1 = Inr acc" "deserialize_config cs (get_data tx acc) = Inr cfg"
    "signed_by ix tx (update_authority cfg)" "check_splits 0 ss = Inr TOTAL_BPS" "length ss \<le> 10"
    "serialize_config cs (cfg\<lparr> revenue_splits := ss \<rparr>) ix acc tx = Inr tx'"
  using assms by (auto simp: process_add_revenue_split_def not_less split: if_splits) (blast intro: signed_byI)

lemma claim_run:
  assumes "tx_wf tx" "process_claim cs p ix tx = Inr tx'"
  obtains acc cfg tx1 where "try_borrow_instruction_account ix tx 1 = Inr acc" "deserialize_config cs (get_data tx acc) = Inr cfg"
    "unclaimed_fees cfg \<noteq> 0" "serialize_config cs (cfg\<lparr> unclaimed_fees := 0 \<rparr>) ix acc tx = Inr tx1"
    "\<And>j. acc_data (acct tx' j) = acc_data (acct tx1 j)"
proof -
  from assms(2) obtain acc cfg tx1 pool tx2 dst where h: "try_borrow_instruction_account ix tx 1 = Inr acc"
      "deserialize_config cs (get_data tx acc) = Inr cfg" "unclaimed_fees cfg \<noteq> 0" "serialize_config cs (cfg\<lparr> unclaimed_fees := 0 \<rparr>) ix acc tx = Inr tx1"
      "try_borrow_instruction_account ix tx1 2 = Inr pool" "checked_sub_lamports ix pool (unclaimed_fees cfg) tx1 = Inr tx2"
      "checked_add_lamports ix dst (unclaimed_fees cfg) tx2 = Inr tx'"
    by (auto simp: process_claim_def Let_def split: if_splits)
  note r1 = reached_serialize(1) [OF h(4) borrow_mem [OF h(1)] reached_start [OF assms(1)]]
  note r2 = reached_sub [OF h(6) borrow_mem [OF h(5)] r1]
  show thesis using that [OF h(1-4)] sub_lamports_data [OF r1 h(6)] add_lamports_data [OF r2 h(7)] by simp
qed

text \<open>The configuration and the tracker in the epoch of the clock.\<close>

definition rolled_config :: "SlotClock \<Rightarrow> ProgramRevenueConfig \<Rightarrow> ProgramRevenueConfig" where
  "rolled_config clock cfg =
     (if last_epoch cfg \<noteq> epoch clock then cfg\<lparr> epoch_fees_earned := 0, last_epoch := epoch clock \<rparr> else cfg)"

definition rolled_tracker :: "SlotClock \<Rightarrow> EpochFeeTracker \<Rightarrow> EpochFeeTracker" where
  "rolled_tracker clock t =
     (if et_epoch t \<noteq> epoch clock then t\<lparr> et_epoch := epoch clock, total_developer_fees := 0 \<rparr> else t)"

definition credited :: "SlotClock \<Rightarrow> u64 \<Rightarrow> ProgramRevenueConfig \<Rightarrow> ProgramRevenueConfig" where
  "credited clock amt cfg = (let c = rolled_config clock cfg in
     c\<lparr> epoch_fees_earned := sat_add 64 (epoch_fees_earned c) amt, total_fees_earned := sat_add 64 (total_fees_earned c) amt,
        unclaimed_fees := sat_add 64 (unclaimed_fees c) amt \<rparr>)"

lemma credit_run:
  assumes "process_credit cs clk p amt cu ix tx = Inr tx'"
  obtains clock acc cfg tacc t tx1 where "clk = Inr clock" "MIN_COMPUTE_UNITS_THRESHOLD \<le> cu"
    "try_borrow_instruction_account ix tx 1 = Inr acc" "deserialize_config cs (get_data tx acc) = Inr cfg"
    "rc_is_active cfg" "eligible_after_slot cfg \<le> slot clock"
    "try_borrow_instruction_account ix tx 2 = Inr tacc" "deserialize_tracker cs (get_data tx tacc) = Inr t"
    "epoch_fees_earned (credited clock amt cfg) \<le> max_allowed (sat_add 64 (total_developer_fees (rolled_tracker clock t)) amt)"
    "serialize_tracker cs ((rolled_tracker clock t)\<lparr> total_developer_fees := sat_add 64 (total_developer_fees (rolled_tracker clock t)) amt \<rparr>) ix tacc tx = Inr tx1"
    "serialize_config cs (credited clock amt cfg) ix acc tx1 = Inr tx'"
proof -
  from assms obtain clock acc cfg tacc t tx1 acc' where h: "clk = Inr clock" "\<not> cu < MIN_COMPUTE_UNITS_THRESHOLD"
    "try_borrow_instruction_account ix tx 1 = Inr acc" "deserialize_config cs (get_data tx acc) = Inr cfg"
    "rc_is_active cfg" "\<not> slot clock < eligible_after_slot cfg"
    "try_borrow_instruction_account ix tx 2 = Inr tacc" "deserialize_tracker cs (get_data tx tacc) = Inr t"
    "\<not> max_allowed (sat_add 64 (total_developer_fees (rolled_tracker clock t)) amt) < sat_add 64 (epoch_fees_earned (rolled_config clock cfg)) amt"
    "serialize_tracker cs ((rolled_tracker clock t)\<lparr> total_developer_fees := sat_add 64 (total_developer_fees (rolled_tracker clock t)) amt \<rparr>) ix tacc tx = Inr tx1"
    "try_borrow_instruction_account ix tx1 1 = Inr acc'" "serialize_config cs (credited clock amt cfg) ix acc' tx1 = Inr tx'"
    unfolding process_credit_def Let_def rolled_config_def [symmetric] rolled_tracker_def [symmetric] credited_def
    by (auto split: if_split_asm)
  have "acc' = acc" using borrow_same [OF h(3,11)] .
  then show thesis using that h by (simp add: credited_def Let_def)
qed

section \<open>The stored configuration\<close>

definition revenue_config_at :: "dr_codecs \<Rightarrow> TransactionContext \<Rightarrow> nat \<Rightarrow> ProgramRevenueConfig option" where
  "revenue_config_at cs tx i = (case deserialize_config cs (acc_data (acct tx i)) of Inl _ \<Rightarrow> None | Inr cfg \<Rightarrow> Some cfg)"

text \<open>The arguments fit their types.\<close>

fun dr_ins_ok :: "DeveloperRewardsInstruction \<Rightarrow> bool" where
  "dr_ins_ok (RegisterRevenueRecipient p r) = (length p = 32 \<and> length r = 32)"
| "dr_ins_ok (UpdateRevenueRecipient p r) = (length r = 32)"
| "dr_ins_ok (AddRevenueSplit p ss) = list_all split_ok ss"
| "dr_ins_ok _ = True"

definition slot_clock_ok :: "(InstructionError + SlotClock) \<Rightarrow> bool" where
  "slot_clock_ok clk = (case clk of Inl _ \<Rightarrow> True | Inr clock \<Rightarrow> epoch clock < 2 ^ 64)"

text \<open>What an instruction may do to a configuration.\<close>

fun revenue_change :: "DeveloperRewardsInstruction \<Rightarrow> (InstructionError + SlotClock) \<Rightarrow> (pubkey \<Rightarrow> bool) \<Rightarrow>
    ProgramRevenueConfig \<Rightarrow> ProgramRevenueConfig \<Rightarrow> bool" where
  "revenue_change (UpdateRevenueRecipient _ r) clk S cfg cfg' = (cfg' = cfg\<lparr> revenue_recipient := r \<rparr> \<and> S (update_authority cfg))"
| "revenue_change (AddRevenueSplit _ ss) clk S cfg cfg' =
     (cfg' = cfg\<lparr> revenue_splits := ss \<rparr> \<and> S (update_authority cfg) \<and> distinct (map recipient ss)
      \<and> sum_list (map rs_share_bps ss) = 10000)"
| "revenue_change (ClaimDeveloperFees _) clk S cfg cfg' = (cfg' = cfg\<lparr> unclaimed_fees := 0 \<rparr>)"
| "revenue_change (CreditDeveloperFees _ amt cu) clk S cfg cfg' =
     (case clk of Inl _ \<Rightarrow> False
      | Inr clock \<Rightarrow> cfg' = credited clock amt cfg \<and> 1000 \<le> cu \<and> rc_is_active cfg \<and> eligible_after_slot cfg \<le> slot clock)"
| "revenue_change _ clk S cfg cfg' = False"

lemma sat_add_fits [simp]: "sat_add 64 a b < 2 ^ 64"
  using sat_add_le_umax [of 64 a b] by (simp add: umax_def)

lemma registered_ok: "length p = 32 \<Longrightarrow> length r = 32 \<Longrightarrow> length k = 32 \<Longrightarrow> rc_ok (registered_config p r k clock)"
  using sat_add_fits by (simp add: rc_ok_def registered_config_def)

lemma credited_ok: "rc_ok cfg \<Longrightarrow> epoch clock < 2 ^ 64 \<Longrightarrow> rc_ok (credited clock amt cfg)"
  using sat_add_fits by (auto simp: rc_ok_def credited_def rolled_config_def Let_def)

lemma credited_sel:
  "rc_version (credited clock amt cfg) = rc_version cfg" "revenue_splits (credited clock amt cfg) = revenue_splits cfg"
  "rc_program_id (credited clock amt cfg) = rc_program_id cfg" "update_authority (credited clock amt cfg) = update_authority cfg"
  "revenue_recipient (credited clock amt cfg) = revenue_recipient cfg" "rc_is_active (credited clock amt cfg) = rc_is_active cfg"
  "unclaimed_fees (credited clock amt cfg) = sat_add 64 (unclaimed_fees cfg) amt"
  by (simp_all add: credited_def rolled_config_def Let_def)

text \<open>An accepted split has distinct recipients and shares that add up, without saturation.\<close>

lemma check_splits_value:
  "check_splits b ss = Inr n \<Longrightarrow> n < umax 32 \<Longrightarrow> distinct (map recipient ss) \<and> n = b + sum_list (map rs_share_bps ss) \<and> list_all (\<lambda>s. rs_share_bps s \<noteq> 0) ss"
proof (induction ss arbitrary: b)
  case (Cons s ss)
  have h: "rs_share_bps s \<noteq> 0" "\<not> list_ex (\<lambda>o'. recipient s = recipient o') ss"
    "check_splits (sat_add 32 b (rs_share_bps s)) ss = Inr n" using Cons.prems(1) by (auto split: if_splits)
  note i = Cons.IH [OF h(3) Cons.prems(2)]
  then have "sat_add 32 b (rs_share_bps s) < umax 32" using Cons.prems(2) by linarith
  then have "sat_add 32 b (rs_share_bps s) = b + rs_share_bps s" by (simp add: sat_add_def min_def split: if_splits)
  then show ?case using i h(1,2) by (auto simp: list_ex_iff)
qed simp

lemma check_splits_total:
  assumes "check_splits 0 ss = Inr TOTAL_BPS"
  shows "distinct (map recipient ss)" "sum_list (map rs_share_bps ss) = 10000" "ss \<noteq> []"
  using check_splits_value [OF assms] by (auto simp: TOTAL_BPS_def umax_def)

context revenue_codecs
begin

lemma config_at_iff:
  "revenue_config_at cs tx i = Some s \<longleftrightarrow> rc_ok s \<and> rc_version s \<noteq> 0 \<and> acc_data (acct tx i) = enc (rc_codec cs) s"
  using config_read [of "acc_data (acct tx i)" s] by (auto simp: revenue_config_at_def split: sum.splits)

lemma config_written:
  assumes "reached ix tx0 tx" "serialize_config cs s ix ia tx = Inr tx'" "rc_ok s" "rc_version s \<noteq> 0"
  shows "revenue_config_at cs tx' i = (if i = index_in_transaction ia then Some s else revenue_config_at cs tx i)"
  using serialized_config(1) [OF assms(1-3), of i] config_read [of "enc (rc_codec cs) s" s] assms(3,4)
  by (auto simp: revenue_config_at_def)

text \<open>A configuration loaded from \<open>ia\<close> and written back, changed.\<close>

lemma config_rewritten:
  assumes "reached ix tx0 tx" "deserialize_config cs (get_data tx ia) = Inr x" "serialize_config cs x' ix ia tx = Inr tx'"
    "revenue_config_at cs tx i = Some cfg" "rc_ok x \<Longrightarrow> rc_ok x'" "rc_version x' = rc_version x"
  shows "revenue_config_at cs tx' i = Some cfg \<or> revenue_config_at cs tx' i = Some x' \<and> x = cfg"
proof -
  have "rc_ok x'" "rc_version x' \<noteq> 0" using assms(2,5,6) by (simp_all add: config_read)
  then show ?thesis using config_written [OF assms(1,3), of i] assms(2,4)
    by (auto simp: revenue_config_at_def get_data_def)
qed

lemma credit_config:
  assumes wf: "tx_wf tx" and run: "process_credit cs clk p amt cu ix tx = Inr tx'" and cfg: "revenue_config_at cs tx i = Some cfg"
    and ok: "slot_clock_ok clk"
  shows "revenue_config_at cs tx' i = Some cfg \<or>
    (\<exists>cfg'. revenue_config_at cs tx' i = Some cfg' \<and> revenue_change (CreditDeveloperFees p amt cu) clk S cfg cfg')"
  using run
proof (rule credit_run)
  fix clock acc x tacc t tx1
  assume h: "clk = Inr clock" "MIN_COMPUTE_UNITS_THRESHOLD \<le> cu" "try_borrow_instruction_account ix tx 1 = Inr acc"
    "deserialize_config cs (get_data tx acc) = Inr x" "rc_is_active x" "eligible_after_slot x \<le> slot clock"
    "try_borrow_instruction_account ix tx 2 = Inr tacc" "deserialize_tracker cs (get_data tx tacc) = Inr t"
    "serialize_tracker cs ((rolled_tracker clock t)\<lparr> total_developer_fees := sat_add 64 (total_developer_fees (rolled_tracker clock t)) amt \<rparr>) ix tacc tx = Inr tx1"
    "serialize_config cs (credited clock amt x) ix acc tx1 = Inr tx'"
  note r0 = reached_start [OF wf, of ix]
  note r1 = reached_serialize(2) [OF h(9) borrow_mem [OF h(7)] r0]
  note d = serialized_tracker [OF r0 h(9)]
  have tr: "j \<noteq> index_in_transaction tacc" if "deserialize_config cs (acc_data (acct tx j)) = Inr y" for j y
    using config_not_tracker [OF that] h(8) by (auto simp: get_data_def)
  have c1: "revenue_config_at cs tx1 i = Some cfg"
    using cfg d [of i] tr [of i cfg] by (auto simp: revenue_config_at_def split: sum.splits)
  have x1: "deserialize_config cs (get_data tx1 acc) = Inr x"
    using h(4) d [of "index_in_transaction acc"] tr [of "index_in_transaction acc" x] by (simp add: get_data_def)
  have e: "epoch clock < 2 ^ 64" using ok by (simp add: slot_clock_ok_def h(1))
  show ?thesis using config_rewritten [OF r1 x1 h(10) c1 credited_ok [OF _ e] credited_sel(1)] h(1,2,5,6)
    by (auto simp: MIN_COMPUTE_UNITS_THRESHOLD_def)
qed

lemma revenue_config_step:
  assumes wf: "tx_wf tx" and run: "dr_dispatch cs clk ins ix tx = Inr tx'" and cfg: "revenue_config_at cs tx i = Some cfg"
    and ok: "dr_ins_ok ins" "slot_clock_ok clk"
  shows "revenue_config_at cs tx' i = Some cfg \<or>
    (\<exists>cfg'. revenue_config_at cs tx' i = Some cfg' \<and> revenue_change ins clk (signed_by ix tx) cfg cfg')"
proof -
  note r0 = reached_start [OF wf, of ix]
  show ?thesis
  proof (cases ins)
    case (RegisterRevenueRecipient p r)
    then have "process_register cs clk p r ix tx = Inr tx'" using run by simp
    then show ?thesis
    proof (rule register_run)
      fix acc clock k
      assume h: "get_data tx acc = [] \<or> hd (get_data tx acc) = 0" "length k = 32"
        "serialize_config cs (registered_config p r k clock) ix acc tx = Inr tx'"
      have "i \<noteq> index_in_transaction acc" using cfg h(1) by (auto simp: revenue_config_at_def deserialize_config_def get_data_def)
      moreover have "rc_ok (registered_config p r k clock)" "rc_version (registered_config p r k clock) \<noteq> 0"
        using h(2) ok(1) by (simp_all add: RegisterRevenueRecipient registered_ok) (simp add: registered_config_def)
      ultimately show ?thesis using config_written [OF r0 h(3), of i] cfg by simp
    qed
  next
    case (UpdateRevenueRecipient p r)
    then have "process_update_recipient cs p r ix tx = Inr tx'" using run by simp
    then show ?thesis
      by (rule update_run) (use config_rewritten [OF r0 _ _ cfg] ok(1) in \<open>fastforce simp: UpdateRevenueRecipient rc_ok_def\<close>)
  next
    case (AddRevenueSplit p ss)
    then have "process_add_revenue_split cs p ss ix tx = Inr tx'" using run by simp
    then show ?thesis
      by (rule split_run) (use config_rewritten [OF r0 _ _ cfg] ok(1) check_splits_total in \<open>fastforce simp: AddRevenueSplit rc_ok_def\<close>)
  next
    case (ClaimDeveloperFees p)
    then have "process_claim cs p ix tx = Inr tx'" using run by simp
    then show ?thesis
    proof (rule claim_run [OF wf])
      fix acc x tx1
      assume h: "deserialize_config cs (get_data tx acc) = Inr x" "serialize_config cs (x\<lparr> unclaimed_fees := 0 \<rparr>) ix acc tx = Inr tx1"
        and d: "\<And>j. acc_data (acct tx' j) = acc_data (acct tx1 j)"
      show ?thesis using config_rewritten [OF r0 h cfg] d by (auto simp: ClaimDeveloperFees rc_ok_def revenue_config_at_def)
    qed
  next
    case (CreditDeveloperFees p amt cu)
    then show ?thesis using run credit_config [OF wf _ cfg ok(2)] by simp
  qed
qed

end

section \<open>No fee is ever credited\<close>

text \<open>
  An account is clean when, read as a configuration, it has no unclaimed fees and no splits, and read as
  a tracker, no fees.
\<close>

definition clean_data :: "dr_codecs \<Rightarrow> bytes \<Rightarrow> bool" where
  "clean_data cs d \<longleftrightarrow>
     (case deserialize_config cs d of Inl _ \<Rightarrow> True | Inr cfg \<Rightarrow> unclaimed_fees cfg = 0 \<and> revenue_splits cfg = [])
     \<and> (case deserialize_tracker cs d of Inl _ \<Rightarrow> True | Inr t \<Rightarrow> total_developer_fees t = 0)"

definition dr_clean :: "dr_codecs \<Rightarrow> TransactionContext \<Rightarrow> bool" where
  "dr_clean cs tx \<longleftrightarrow> revenue_codecs cs \<and> tx_wf tx
     \<and> list_all (\<lambda>a. owner (snd a) = developer_rewards_id \<longrightarrow> clean_data cs (acc_data (snd a))) (tx_accounts tx)"

text \<open>The program runs under its own key.\<close>

definition runs_as_dr :: "InstructionContext \<Rightarrow> TransactionContext \<Rightarrow> bool" where
  "runs_as_dr ix tx \<longleftrightarrow> account_key tx (program_account_index_in_tx ix) = Some developer_rewards_id"

lemma clean_config: "clean_data cs d \<Longrightarrow> deserialize_config cs d = Inr cfg \<Longrightarrow> unclaimed_fees cfg = 0 \<and> revenue_splits cfg = []"
  by (simp add: clean_data_def)

lemma clean_tracker: "clean_data cs d \<Longrightarrow> deserialize_tracker cs d = Inr t \<Longrightarrow> total_developer_fees t = 0"
  by (simp add: clean_data_def)

lemma clean_zeroed: "is_zeroed d \<Longrightarrow> clean_data cs d"
  by (cases d) (auto simp: clean_data_def is_zeroed_def deserialize_config_def deserialize_tracker_def split: sum.splits)

lemma dr_clean_acct:
  "dr_clean cs tx \<longleftrightarrow> revenue_codecs cs \<and> tx_wf tx \<and>
     (\<forall>i < length (tx_accounts tx). owner (acct tx i) = developer_rewards_id \<longrightarrow> clean_data cs (acc_data (acct tx i)))"
  by (auto simp: dr_clean_def list_all_length acct_def)

text \<open>An account whose data can be written belongs to the program.\<close>

lemma written_owned:
  assumes "set_data_from_slice ix ia d tx = Inr tx'" "runs_as_dr ix tx"
  shows "owner (acct tx (index_in_transaction ia)) = developer_rewards_id"
  using assms by (auto simp: set_data_from_slice_def runs_as_dr_def can_data_be_changed_def is_owned_by_current_program_def get_owner_def
      dest!: resized_changed split: if_splits option.splits)

lemma clean_written:
  assumes c: "dr_clean cs tx" and w: "set_data_from_slice ix ia d tx = Inr tx'" and m: "ia \<in> set (instruction_accounts ix)"
    and d: "clean_data cs d"
  shows "dr_clean cs tx'"
proof -
  have wf: "tx_wf tx" using c by (simp add: dr_clean_def)
  have a: "allowed_effect ix tx tx'" using set_data_from_slice_allowed [OF wf m w] .
  show ?thesis using c d set_data_frame [OF wf w] allowed_wf [OF a wf] allowed_length [OF a] by (auto simp: dr_clean_acct)
qed

context revenue_codecs
begin

lemma clean_config_data:
  "rc_ok s \<Longrightarrow> rc_version s \<noteq> 0 \<Longrightarrow> unclaimed_fees s = 0 \<Longrightarrow> revenue_splits s = [] \<Longrightarrow> clean_data cs (enc (rc_codec cs) s)"
  using config_read [of "enc (rc_codec cs) s" s] config_not_tracker [of "enc (rc_codec cs) s" s] by (auto simp: clean_data_def)

lemma clean_tracker_data:
  assumes "et_ok t" "total_developer_fees t = 0"
  shows "clean_data cs (enc (et_codec cs) t)"
proof -
  have "deserialize_config cs (enc (et_codec cs) t) \<noteq> Inr s" for s
    using config_length [of "enc (et_codec cs) t" s] tracker.enc_len [OF assms(1)] by (auto simp: rc_len_def)
  moreover have "total_developer_fees t' = 0" if "deserialize_tracker cs (enc (et_codec cs) t) = Inr t'" for t'
    using that tracker.dec_enc_exact [OF assms(1)] assms(2) by (auto simp: deserialize_tracker_def split: if_splits)
  ultimately show ?thesis by (auto simp: clean_data_def split: sum.splits)
qed

text \<open>The cap is a tenth of a total that consists of the fee alone.\<close>

lemma capped_zero:
  assumes "epoch_fees_earned (credited clock amt cfg) \<le> max_allowed (sat_add 64 0 amt)"
  shows "sat_add 64 0 amt = 0"
proof -
  let ?m = "sat_add 64 0 amt"
  have "?m \<le> epoch_fees_earned (credited clock amt cfg)" using sat_add_mono [of 0 _ amt amt 64] by (simp add: credited_def Let_def)
  also have "\<dots> \<le> ?m * 1000 div 10000 mod 2 ^ 64"
    using assms sat_add_fits [of 0 amt]
    by (simp add: max_allowed_def checked_div_def sat_mul_def umax_def MAX_PROGRAM_FEE_SHARE_BPS_def TOTAL_BPS_def)
  finally have "?m \<le> ?m * 1000 div 10000" using mod_less_eq_dividend order_trans by blast
  then show ?thesis by simp
qed

lemma loaded_clean:
  assumes "dr_clean cs tx" "try_borrow_instruction_account ix tx k = Inr acc"
    "owner (acct tx (index_in_transaction acc)) = developer_rewards_id"
  shows "clean_data cs (get_data tx acc)"
  using assms(1,3) borrow_Inr [OF assms(2)] by (auto simp: dr_clean_acct get_data_def tx_wf_def)

lemma serialize_config_written: "serialize_config cs s ix ia tx = Inr tx' \<Longrightarrow> set_data_from_slice ix ia (enc (rc_codec cs) s) tx = Inr tx'"
  by (simp add: serialize_config_def Let_def split: if_splits)

lemma serialize_tracker_written: "serialize_tracker cs t ix ia tx = Inr tx' \<Longrightarrow> set_data_from_slice ix ia (enc (et_codec cs) t) tx = Inr tx'"
  by (simp add: serialize_tracker_def Let_def split: if_splits)

lemma tracker_loaded_ok: "deserialize_tracker cs d = Inr t \<Longrightarrow> et_ok t"
  using tracker.dec_exact [of d t] by (auto simp: deserialize_tracker_def et_ok_def split: if_splits)

text \<open>A configuration of a clean state that is loaded and written back.\<close>

lemma clean_rewritten:
  assumes "dr_clean cs tx" "runs_as_dr ix tx" "try_borrow_instruction_account ix tx k = Inr acc"
    "deserialize_config cs (get_data tx acc) = Inr cfg" "serialize_config cs x ix acc tx = Inr tx'"
  shows "unclaimed_fees cfg = 0" "revenue_splits cfg = []" "length (get_data tx acc) = 142"
    "rc_ok x \<Longrightarrow> rc_version x = rc_version cfg \<Longrightarrow> unclaimed_fees x = 0 \<Longrightarrow> revenue_splits x = [] \<Longrightarrow> dr_clean cs tx'"
proof -
  note w = serialize_config_written [OF assms(5)]
  note c = clean_config [OF loaded_clean [OF assms(1,3) written_owned [OF w assms(2)]] assms(4)]
  show "unclaimed_fees cfg = 0" "revenue_splits cfg = []" using c by simp_all
  show "length (get_data tx acc) = 142" using config_length [OF assms(4)] c by (simp add: rc_len_def)
  show "dr_clean cs tx'" if "rc_ok x" "rc_version x = rc_version cfg" "unclaimed_fees x = 0" "revenue_splits x = []"
    using clean_written [OF assms(1) w borrow_mem [OF assms(3)]] clean_config_data [OF that(1) _ that(3,4)] assms(4) that(2)
    by (simp add: config_read)
qed

lemma clean_claim:
  assumes "dr_clean cs tx" "runs_as_dr ix tx"
  shows "process_claim cs p ix tx \<noteq> Inr tx'"
proof
  have wf: "tx_wf tx" using assms(1) by (simp add: dr_clean_def)
  assume "process_claim cs p ix tx = Inr tx'"
  then show False by (rule claim_run [OF wf]) (metis clean_rewritten(1) [OF assms])
qed

lemma clean_split:
  assumes "dr_clean cs tx" "runs_as_dr ix tx" "list_all split_ok ss"
  shows "process_add_revenue_split cs p ss ix tx \<noteq> Inr tx'"
proof
  assume "process_add_revenue_split cs p ss ix tx = Inr tx'"
  then show False
  proof (rule split_run)
    fix acc cfg
    assume h: "try_borrow_instruction_account ix tx 1 = Inr acc" "deserialize_config cs (get_data tx acc) = Inr cfg"
      "check_splits 0 ss = Inr TOTAL_BPS" "length ss \<le> 10" "serialize_config cs (cfg\<lparr> revenue_splits := ss \<rparr>) ix acc tx = Inr tx'"
    have "rc_ok (cfg\<lparr> revenue_splits := ss \<rparr>)" using h(2,4) assms(3) by (auto simp: config_read rc_ok_def)
    from serialized_config(2) [OF reached_start h(5) this] have "rc_len (cfg\<lparr> revenue_splits := ss \<rparr>) \<le> 142"
      using clean_rewritten(3) [OF assms(1,2) h(1,2,5)] assms(1) by (simp add: dr_clean_def)
    then show False using check_splits_total(3) [OF h(3)] by (simp add: rc_len_def)
  qed
qed

lemma clean_credit:
  assumes c: "dr_clean cs tx" and r: "runs_as_dr ix tx" and run: "process_credit cs clk p amt cu ix tx = Inr tx'" and ok: "slot_clock_ok clk"
  shows "dr_clean cs tx'"
  using run
proof (rule credit_run)
  fix clock acc cfg tacc t tx1
  assume h: "clk = Inr clock" "try_borrow_instruction_account ix tx 1 = Inr acc" "deserialize_config cs (get_data tx acc) = Inr cfg"
    "try_borrow_instruction_account ix tx 2 = Inr tacc" "deserialize_tracker cs (get_data tx tacc) = Inr t"
    "epoch_fees_earned (credited clock amt cfg) \<le> max_allowed (sat_add 64 (total_developer_fees (rolled_tracker clock t)) amt)"
    "serialize_tracker cs ((rolled_tracker clock t)\<lparr> total_developer_fees := sat_add 64 (total_developer_fees (rolled_tracker clock t)) amt \<rparr>) ix tacc tx = Inr tx1"
    "serialize_config cs (credited clock amt cfg) ix acc tx1 = Inr tx'"
  have wf: "tx_wf tx" using c by (simp add: dr_clean_def)
  have e: "epoch clock < 2 ^ 64" using ok by (simp add: slot_clock_ok_def h(1))
  note w1 = serialize_tracker_written [OF h(7)] and w2 = serialize_config_written [OF h(8)]
  have a: "allowed_effect ix tx tx1" by (rule set_data_from_slice_allowed [OF wf borrow_mem [OF h(4)] w1])
  have r1: "runs_as_dr ix tx1" using r allowed_keys [OF a] by (simp add: runs_as_dr_def)
  have "total_developer_fees t = 0" using clean_tracker [OF loaded_clean [OF c h(4) written_owned [OF w1 r]] h(5)] .
  then have t0: "total_developer_fees (rolled_tracker clock t) = 0" by (simp add: rolled_tracker_def)
  have z: "sat_add 64 0 amt = 0" using capped_zero h(6) unfolding t0 by blast
  have "et_ok ((rolled_tracker clock t)\<lparr> total_developer_fees := sat_add 64 0 amt \<rparr>)"
    using tracker_loaded_ok [OF h(5)] e z by (simp add: et_ok_def rolled_tracker_def)
  then have c1: "dr_clean cs tx1" using clean_written [OF c w1 borrow_mem [OF h(4)]] clean_tracker_data z by (simp add: t0)
  have "owner (acct tx (index_in_transaction acc)) = developer_rewards_id"
    using written_owned [OF w2 r1] set_data_frame [OF wf w1, of "index_in_transaction acc"] by (auto split: if_splits)
  from clean_config [OF loaded_clean [OF c h(2) this] h(3)] have "unclaimed_fees cfg = 0" "revenue_splits cfg = []" by simp_all
  then have "clean_data cs (enc (rc_codec cs) (credited clock amt cfg))"
    using h(3) credited_ok [OF _ e, of cfg amt] z by (intro clean_config_data) (simp_all add: credited_sel config_read)
  then show ?thesis using clean_written [OF c1 w2 borrow_mem [OF h(2)]] by simp
qed

lemma clean_step:
  assumes c: "dr_clean cs tx" and r: "runs_as_dr ix tx" and run: "dr_dispatch cs clk ins ix tx = Inr tx'"
    and ok: "dr_ins_ok ins" "slot_clock_ok clk"
  shows "dr_clean cs tx'"
proof (cases ins)
  case (RegisterRevenueRecipient p k)
  then have "process_register cs clk p k ix tx = Inr tx'" using run by simp
  then show ?thesis
  proof (rule register_run)
    fix acc clock u
    assume h: "try_borrow_instruction_account ix tx 1 = Inr acc" "length u = 32" "serialize_config cs (registered_config p k u clock) ix acc tx = Inr tx'"
    have "clean_data cs (enc (rc_codec cs) (registered_config p k u clock))"
      using ok(1) h(2) registered_ok [of p k u clock]
      by (intro clean_config_data) (simp_all add: RegisterRevenueRecipient registered_config_def)
    then show ?thesis using clean_written [OF c serialize_config_written [OF h(3)] borrow_mem [OF h(1)]] by simp
  qed
next
  case (UpdateRevenueRecipient p k)
  then have "process_update_recipient cs p k ix tx = Inr tx'" using run by simp
  then show ?thesis
  proof (rule update_run)
    fix acc cfg
    assume h: "try_borrow_instruction_account ix tx 1 = Inr acc" "deserialize_config cs (get_data tx acc) = Inr cfg"
      "serialize_config cs (cfg\<lparr> revenue_recipient := k \<rparr>) ix acc tx = Inr tx'"
    show ?thesis using clean_rewritten [OF c r h] h(2) ok(1) by (simp add: UpdateRevenueRecipient config_read rc_ok_def)
  qed
qed (use run ok clean_claim [OF c r] clean_split [OF c r] clean_credit [OF c r] in auto)

end

text \<open>An instruction that fails, or leaves the lamports unbalanced, is rolled back.\<close>

definition dr_step :: "dr_codecs \<Rightarrow> TransactionContext \<Rightarrow>
    (InstructionError + SlotClock) \<times> DeveloperRewardsInstruction \<times> InstructionContext \<Rightarrow> TransactionContext" where
  "dr_step cs tx = (\<lambda>(clk, ins, ix).
     case dr_dispatch cs clk ins ix tx of
       Inl _ \<Rightarrow> tx | Inr tx' \<Rightarrow> if pop_check ix tx' = Inr () then tx' else tx)"

definition dr_event_ok :: "pubkey list \<Rightarrow> (InstructionError + SlotClock) \<times> DeveloperRewardsInstruction \<times> InstructionContext \<Rightarrow> bool" where
  "dr_event_ok ks = (\<lambda>(clk, ins, ix). slot_clock_ok clk \<and> dr_ins_ok ins
     \<and> nth_opt ks (program_account_index_in_tx ix) = Some developer_rewards_id)"

text \<open>The keys of the accounts stay the same, so that the key the program runs under can be read off the start.\<close>

definition dr_clean_keys :: "dr_codecs \<Rightarrow> pubkey list \<Rightarrow> TransactionContext \<Rightarrow> bool" where
  "dr_clean_keys cs ks tx \<longleftrightarrow> dr_clean cs tx \<and> map fst (tx_accounts tx) = ks"

lemma dr_clean_keys_step:
  assumes "dr_clean_keys cs ks tx" "dr_event_ok ks e"
  shows "dr_clean_keys cs ks (dr_step cs tx e)"
proof -
  obtain clk ins ix where e: "e = (clk, ins, ix)" by (cases e)
  show ?thesis
  proof (cases "dr_step cs tx e = tx")
    case False
    then have r: "dr_dispatch cs clk ins ix tx = Inr (dr_step cs tx e)"
      by (auto simp: dr_step_def e split: sum.splits if_splits)
    have c: "dr_clean cs tx" "revenue_codecs cs" "tx_wf tx" and k: "map fst (tx_accounts tx) = ks"
      using assms(1) by (auto simp: dr_clean_keys_def dr_clean_def)
    have g: "runs_as_dr ix tx" "dr_ins_ok ins" "slot_clock_ok clk"
      using assms(2) k by (simp_all add: dr_event_ok_def e runs_as_dr_def account_key_alt)
    have "map fst (tx_accounts (dr_step cs tx e)) = ks"
      using developer_rewards.run_allowed [OF c(3) r] k by (simp add: allowed_effect_def)
    then show ?thesis using revenue_codecs.clean_step [OF c(2,1) g(1) r g(2,3)] by (simp add: dr_clean_keys_def)
  qed (use assms(1) in simp)
qed

interpretation dr_run: guarded_system "dr_step cs" "\<lambda>tx e. dr_event_ok ks e" "dr_clean_keys cs ks" for cs ks
  by unfold_locales (rule dr_clean_keys_step)

section \<open>Properties\<close>

text \<open>The example: a developer (key 1) with a configuration account and the data of a deployed program.\<close>

definition dr_tx :: "bytes \<Rightarrow> TransactionContext" where
  "dr_tx d = TransactionAccounts_new
     [(replicate 32 1, default_account\<lparr> lamports := 1000 \<rparr>),
      (replicate 32 2, default_account\<lparr> lamports := 500, owner := developer_rewards_id, acc_data := d \<rparr>),
      (replicate 32 3, default_account\<lparr> lamports := 500, acc_data := replicate 12 0 @ [1] @ replicate 32 1 \<rparr>),
      (developer_rewards_id, default_account)]"

definition dr_ix :: InstructionContext where
  "dr_ix = \<lparr> program_account_index_in_tx = 3,
     instruction_accounts = [\<lparr> index_in_transaction = 0, is_signer = True, is_writable = False \<rparr>,
                             \<lparr> index_in_transaction = 1, is_signer = False, is_writable = True \<rparr>,
                             \<lparr> index_in_transaction = 2, is_signer = False, is_writable = False \<rparr>] \<rparr>"

definition dr_clock :: SlotClock where
  "dr_clock = \<lparr> epoch = 4, unix_timestamp = 0, slot = 100 \<rparr>"

definition example_revenue :: ProgramRevenueConfig where
  "example_revenue = registered_config (replicate 32 7) (replicate 32 8) (replicate 32 1) dr_clock"

lemma example_revenue_facts:
  "rc_ok example_revenue" "rc_version example_revenue = 1" "update_authority example_revenue = replicate 32 1"
  "length (enc rc_borsh example_revenue) = 142"
proof -
  show ok: "rc_ok example_revenue" by (simp add: example_revenue_def registered_ok)
  show "rc_version example_revenue = 1" "update_authority example_revenue = replicate 32 1"
    by (simp_all add: example_revenue_def registered_config_def)
  show "length (enc rc_borsh example_revenue) = 142"
    using rc_borsh.enc_len [OF ok] by (simp add: rc_len_def example_revenue_def registered_config_def)
qed

lemma dr_tx_wf: "tx_wf (dr_tx d)"
  by (simp add: dr_tx_def)

lemma example_register:
  "\<exists>tx'. dr_dispatch dr_borsh (Inr dr_clock) (RegisterRevenueRecipient (replicate 32 7) (replicate 32 8)) dr_ix (dr_tx (replicate 512 0)) = Inr tx'
     \<and> revenue_config_at dr_borsh tx' 1 = Some example_revenue \<and> pop_check dr_ix tx' = Inr ()"
proof -
  have l: "length (enc (rc_codec dr_borsh) example_revenue) = 142" using example_revenue_facts(4) by (simp add: dr_borsh_def)
  have "hd (replicate 512 (0 :: u8)) = 0" by simp
  then have "\<exists>tx'. dr_dispatch dr_borsh (Inr dr_clock) (RegisterRevenueRecipient (replicate 32 7) (replicate 32 8)) dr_ix (dr_tx (replicate 512 0)) = Inr tx'
     \<and> acc_data (acct tx' 1) = enc (rc_codec dr_borsh) example_revenue \<and> pop_check dr_ix tx' = Inr ()"
    using l by (simp add: process_register_def dr_ix_def dr_tx_def handler_eval field_def serialize_config_def nth_append
        example_revenue_def [symmetric] pop_check_def umax_def)
  then show ?thesis using example_revenue_facts(1,2) by (auto simp: dr_borsh.config_at_iff)
qed

lemma example_update:
  "\<exists>tx'. dr_dispatch dr_borsh (Inr dr_clock) (UpdateRevenueRecipient (replicate 32 7) (replicate 32 9)) dr_ix
     (dr_tx (enc (rc_codec dr_borsh) example_revenue)) = Inr tx'"
proof -
  let ?n = "example_revenue\<lparr> revenue_recipient := replicate 32 9 \<rparr>"
  have "rc_ok ?n" "revenue_splits ?n = []" using example_revenue_facts(1) by (simp_all add: rc_ok_def example_revenue_def registered_config_def)
  then have "length (enc (rc_codec dr_borsh) ?n) = 142" using rc_borsh.enc_len [of ?n] by (simp add: dr_borsh_def rc_len_def)
  moreover have "length (enc (rc_codec dr_borsh) example_revenue) = 142" using example_revenue_facts(4) by (simp add: dr_borsh_def)
  moreover have "deserialize_config dr_borsh (enc (rc_codec dr_borsh) example_revenue) = Inr example_revenue"
    using example_revenue_facts by (simp add: dr_borsh.config_read)
  ultimately show ?thesis
    by (simp add: process_update_recipient_def dr_ix_def dr_tx_def handler_eval serialize_config_def example_revenue_facts(3))
qed

text \<open>
  C26: The update authority controls where the revenue of a program goes: every instruction keeps an
  existing configuration in place with its program, authority and activity; the recipient and the
  splits change only with the signature of the update authority, splits only to distinct recipients whose
  shares add up to 10000; fees are credited only after the cool-down.
\<close>

theorem revenue_controlled_by_authority:
  assumes "revenue_codecs cs" "tx_wf tx" "dr_dispatch cs clk ins ix tx = Inr tx'" "revenue_config_at cs tx i = Some cfg"
    and "dr_ins_ok ins" "slot_clock_ok clk"
  shows "\<exists>cfg'. revenue_config_at cs tx' i = Some cfg' \<and> (cfg' = cfg \<or> revenue_change ins clk (signed_by ix tx) cfg cfg')
    \<and> rc_program_id cfg' = rc_program_id cfg \<and> update_authority cfg' = update_authority cfg \<and> rc_is_active cfg' = rc_is_active cfg"
proof -
  obtain cfg' where c: "revenue_config_at cs tx' i = Some cfg'" "cfg' = cfg \<or> revenue_change ins clk (signed_by ix tx) cfg cfg'"
    using revenue_codecs.revenue_config_step [OF assms] by blast
  have "rc_program_id cfg' = rc_program_id cfg \<and> update_authority cfg' = update_authority cfg \<and> rc_is_active cfg' = rc_is_active cfg"
    using c(2) by (cases ins) (auto simp: credited_sel split: sum.splits)
  then show ?thesis using c by blast
qed

theorem revenue_controlled_by_authority_witness:
  "\<exists>tx' cfg'. dr_dispatch dr_borsh (Inr dr_clock) (UpdateRevenueRecipient (replicate 32 7) (replicate 32 9)) dr_ix
       (dr_tx (enc (rc_codec dr_borsh) example_revenue)) = Inr tx'
     \<and> revenue_config_at dr_borsh tx' 1 = Some cfg' \<and> update_authority cfg' = replicate 32 1"
proof -
  let ?tx = "dr_tx (enc (rc_codec dr_borsh) example_revenue)" and ?ins = "UpdateRevenueRecipient (replicate 32 7) (replicate 32 9)"
  obtain tx' where r: "dr_dispatch dr_borsh (Inr dr_clock) ?ins dr_ix ?tx = Inr tx'" using example_update by blast
  have "revenue_config_at dr_borsh ?tx 1 = Some example_revenue"
    using example_revenue_facts by (simp add: dr_borsh.config_at_iff) (simp add: dr_tx_def TransactionAccounts_new_def acct_def)
  moreover have "dr_ins_ok ?ins" "slot_clock_ok (Inr dr_clock)" by (simp_all add: slot_clock_ok_def dr_clock_def)
  ultimately show ?thesis
    using revenue_controlled_by_authority [OF dr_borsh.revenue_codecs_axioms dr_tx_wf r] r example_revenue_facts(3) by metis
qed

text \<open>
  C27: Developer fees are never credited: starting from fresh accounts of the program, after any
  sequence of its instructions no configuration has unclaimed fees or splits, and a claim fails. The first
  fee of an epoch would have to be at most a tenth of itself, and an account is cut to the length of
  its first encoding, which leaves no room for a split.
\<close>

theorem developer_fees_never_credited:
  assumes "revenue_codecs cs" "tx_wf tx"
    and "list_all (\<lambda>a. owner (snd a) = developer_rewards_id \<longrightarrow> is_zeroed (acc_data (snd a))) (tx_accounts tx)"
    and "list_all (dr_event_ok (map fst (tx_accounts tx))) es"
    and "dr_event_ok (map fst (tx_accounts tx)) (clk, ClaimDeveloperFees p, ix)" "tx' = foldl (dr_step cs) tx es"
  shows "(\<exists>e. dr_dispatch cs clk (ClaimDeveloperFees p) ix tx' = Inl e)
    \<and> (\<forall>i < length (tx_accounts tx'). \<forall>cfg. owner (acct tx' i) = developer_rewards_id \<longrightarrow> revenue_config_at cs tx' i = Some cfg \<longrightarrow>
         unclaimed_fees cfg = 0 \<and> revenue_splits cfg = [])"
proof -
  let ?ks = "map fst (tx_accounts tx)"
  have g: "guarded_run (dr_step cs) (\<lambda>tx e. dr_event_ok ?ks e) tx0 es" for tx0
    using assms(4) by (induction es arbitrary: tx0) auto
  have "dr_clean_keys cs ?ks tx" using assms(1-3) clean_zeroed by (auto simp: dr_clean_keys_def dr_clean_def list_all_iff)
  from dr_run.guarded_inv [OF this g] have c: "dr_clean cs tx'" "map fst (tx_accounts tx') = ?ks"
    by (simp_all add: dr_clean_keys_def assms(6))
  have r: "runs_as_dr ix tx'" using assms(5) c(2) by (simp add: dr_event_ok_def runs_as_dr_def account_key_alt)
  have "unclaimed_fees cfg = 0 \<and> revenue_splits cfg = []"
    if "i < length (tx_accounts tx')" "owner (acct tx' i) = developer_rewards_id" "revenue_config_at cs tx' i = Some cfg" for i cfg
    using c(1) that clean_config [of cs "acc_data (acct tx' i)" cfg] by (auto simp: dr_clean_acct revenue_config_at_def split: sum.splits)
  moreover have "\<exists>e. dr_dispatch cs clk (ClaimDeveloperFees p) ix tx' = Inl e"
    using revenue_codecs.clean_claim [OF assms(1) c(1) r] by (cases "process_claim cs p ix tx'") auto
  ultimately show ?thesis by blast
qed

theorem developer_fees_never_credited_witness:
  "let tx' = foldl (dr_step dr_borsh) (dr_tx (replicate 512 0))
         [(Inr dr_clock, RegisterRevenueRecipient (replicate 32 7) (replicate 32 8), dr_ix)] in
   revenue_config_at dr_borsh tx' 1 = Some example_revenue
   \<and> (\<exists>e. dr_dispatch dr_borsh (Inr dr_clock) (ClaimDeveloperFees (replicate 32 7)) dr_ix tx' = Inl e)"
proof -
  let ?es = "[(Inr dr_clock, RegisterRevenueRecipient (replicate 32 7) (replicate 32 8), dr_ix)]"
  have "hd developer_rewards_id \<noteq> hd (replicate 32 0)" by (simp add: developer_rewards_id_def)
  then have "developer_rewards_id \<noteq> replicate 32 0" by metis
  then have z: "list_all (\<lambda>a. owner (snd a) = developer_rewards_id \<longrightarrow> is_zeroed (acc_data (snd a))) (tx_accounts (dr_tx (replicate 512 0)))"
    by (simp add: dr_tx_def TransactionAccounts_new_def is_zeroed_def list_all_iff default_account_def)
  have k: "nth_opt (map fst (tx_accounts (dr_tx (replicate 512 0)))) 3 = Some developer_rewards_id"
    by (simp add: dr_tx_def TransactionAccounts_new_def nth_opt_def)
  then have "list_all (dr_event_ok (map fst (tx_accounts (dr_tx (replicate 512 0))))) ?es"
    "dr_event_ok (map fst (tx_accounts (dr_tx (replicate 512 0)))) (Inr dr_clock, ClaimDeveloperFees (replicate 32 7), dr_ix)"
    by (simp_all add: dr_event_ok_def slot_clock_ok_def dr_clock_def dr_ix_def)
  note n = developer_fees_never_credited [OF dr_borsh.revenue_codecs_axioms dr_tx_wf z this refl]
  have "revenue_config_at dr_borsh (foldl (dr_step dr_borsh) (dr_tx (replicate 512 0)) ?es) 1 = Some example_revenue"
    using example_register by (auto simp: dr_step_def)
  with n show ?thesis unfolding Let_def by blast
qed

end
