(* ===== verification/Storage_Config.thy ===== *)
theory Storage_Config
  imports Accounts_Rent Float64
begin

text \<open>
  The configuration and the statistics of the tiered account storage, \<^verbatim>\<open>accounts-db/src/tiered_storage_config.rs\<close>.
  Paths are strings. The message of a refused configuration is a value of \<open>StorageConfigError\<close>, with the
  numbers the message shows. A utilization is a finite double.

  Shown: the eviction watermark of a valid configuration lies within the cache size.
\<close>

section \<open>Constants\<close>

definition DEFAULT_HOT_CACHE_SIZE :: u64 where "DEFAULT_HOT_CACHE_SIZE = 16 * 1024 * 1024 * 1024"
definition MAX_HOT_CACHE_SIZE :: u64 where "MAX_HOT_CACHE_SIZE = 64 * 1024 * 1024 * 1024"
definition DEFAULT_WARM_THRESHOLD_SLOTS :: u64 where "DEFAULT_WARM_THRESHOLD_SLOTS = 1000000"
definition DEFAULT_COLD_THRESHOLD_DAYS :: u64 where "DEFAULT_COLD_THRESHOLD_DAYS = 365"
definition DEFAULT_WARM_STORAGE_DIR :: string where "DEFAULT_WARM_STORAGE_DIR = ''trv1-warm-storage''"
definition DEFAULT_COLD_STORAGE_DIR :: string where "DEFAULT_COLD_STORAGE_DIR = ''trv1-cold-storage''"

section \<open>Configuration\<close>

datatype EvictionPolicy = LRU | LFU | ARC

record TieredStorageConfig =
  hot_cache_size :: u64
  eviction_policy :: EvictionPolicy
  warm_storage_path :: string
  tier_cold_path :: string
  warm_threshold_slots :: u64
  cold_threshold_days :: u64
  enable_state_rent_expiry :: bool
  eviction_batch_size :: nat
  target_utilization :: f64

definition TieredStorageConfig_default :: TieredStorageConfig where
  "TieredStorageConfig_default =
     \<lparr> hot_cache_size = DEFAULT_HOT_CACHE_SIZE, eviction_policy = LRU,
       warm_storage_path = DEFAULT_WARM_STORAGE_DIR, tier_cold_path = DEFAULT_COLD_STORAGE_DIR,
       warm_threshold_slots = DEFAULT_WARM_THRESHOLD_SLOTS, cold_threshold_days = DEFAULT_COLD_THRESHOLD_DAYS,
       enable_state_rent_expiry = False, eviction_batch_size = 4096, target_utilization = f64_round (90 / 100) \<rparr>"

definition storage_for_testing :: TieredStorageConfig where
  "storage_for_testing = TieredStorageConfig_default
     \<lparr> hot_cache_size := 64 * 1024 * 1024, warm_storage_path := ''/tmp/trv1-test-warm'',
       tier_cold_path := ''/tmp/trv1-test-cold'', warm_threshold_slots := 100, cold_threshold_days := 1,
       enable_state_rent_expiry := True, eviction_batch_size := 64, target_utilization := f64_round (80 / 100) \<rparr>"

definition for_32gb_validator :: TieredStorageConfig where
  "for_32gb_validator = TieredStorageConfig_default
     \<lparr> hot_cache_size := 24 * 1024 * 1024 * 1024, eviction_policy := LRU \<rparr>"

definition for_64gb_validator :: TieredStorageConfig where
  "for_64gb_validator = TieredStorageConfig_default
     \<lparr> hot_cache_size := 48 * 1024 * 1024 * 1024, eviction_policy := ARC, eviction_batch_size := 8192 \<rparr>"

datatype StorageConfigError =
  ZeroHotCache
| HotCacheTooLarge u64
| UtilizationOutOfRange f64
| ZeroEvictionBatch
| ZeroColdThreshold

definition validate_storage :: "TieredStorageConfig \<Rightarrow> StorageConfigError + unit" where
  "validate_storage c =
     (if hot_cache_size c = 0 then Inl ZeroHotCache
      else if hot_cache_size c > MAX_HOT_CACHE_SIZE then Inl (HotCacheTooLarge (hot_cache_size c))
      else if target_utilization c \<le> 0 \<or> target_utilization c > 1 then Inl (UtilizationOutOfRange (target_utilization c))
      else if eviction_batch_size c = 0 then Inl ZeroEvictionBatch
      else if cold_threshold_days c = 0 then Inl ZeroColdThreshold
      else Inr ())"

definition eviction_watermark :: "TieredStorageConfig \<Rightarrow> u64" where
  "eviction_watermark c = f64_to_u64 (f64_mul (f64_of_nat (hot_cache_size c)) (target_utilization c))"

definition estimated_hot_capacity :: "TieredStorageConfig \<Rightarrow> u64 \<Rightarrow> u64" where
  "estimated_hot_capacity c avg_account_size =
     (if avg_account_size = 0 then 0 else hot_cache_size c div avg_account_size)"

section \<open>Statistics\<close>

record TierStats =
  hot_accounts :: u64
  hot_size_bytes :: u64
  warm_accounts :: u64
  warm_size_bytes :: u64
  cold_accounts :: u64
  cold_size_bytes :: u64
  cache_hit_rate :: f64
  cache_miss_rate :: f64
  avg_read_latency_us :: f64
  total_hits :: u64
  total_misses :: u64
  warm_to_hot_promotions :: u64
  hot_to_warm_demotions :: u64
  warm_to_cold_archives :: u64
  cold_revivals :: u64

definition TierStats_default :: TierStats where
  "TierStats_default =
     \<lparr> hot_accounts = 0, hot_size_bytes = 0, warm_accounts = 0, warm_size_bytes = 0, cold_accounts = 0,
       cold_size_bytes = 0, cache_hit_rate = 0, cache_miss_rate = 0, avg_read_latency_us = 0, total_hits = 0,
       total_misses = 0, warm_to_hot_promotions = 0, hot_to_warm_demotions = 0, warm_to_cold_archives = 0,
       cold_revivals = 0 \<rparr>"

definition total_accounts :: "TierStats \<Rightarrow> u64" where
  "total_accounts s = sat_add 64 (sat_add 64 (hot_accounts s) (warm_accounts s)) (cold_accounts s)"

definition total_size_bytes :: "TierStats \<Rightarrow> u64" where
  "total_size_bytes s = sat_add 64 (sat_add 64 (hot_size_bytes s) (warm_size_bytes s)) (cold_size_bytes s)"

definition recalculate_rates :: "TierStats \<Rightarrow> TierStats" where
  "recalculate_rates s =
     (let n = sat_add 64 (total_hits s) (total_misses s) in
      if n > 0
      then s\<lparr> cache_hit_rate := f64_div (f64_of_nat (total_hits s)) (f64_of_nat n),
              cache_miss_rate := f64_div (f64_of_nat (total_misses s)) (f64_of_nat n) \<rparr>
      else s)"

section \<open>Properties\<close>

lemma recalculate_rates_sel [simp]:
  "hot_accounts (recalculate_rates s) = hot_accounts s" "hot_size_bytes (recalculate_rates s) = hot_size_bytes s"
  "total_hits (recalculate_rates s) = total_hits s" "total_misses (recalculate_rates s) = total_misses s"
  "hot_to_warm_demotions (recalculate_rates s) = hot_to_warm_demotions s"
  by (simp_all add: recalculate_rates_def Let_def)

lemma watermark_within_cache:
  assumes "validate_storage c = Inr ()"
  shows "eviction_watermark c \<le> hot_cache_size c"
proof -
  let ?n = "hot_cache_size c" and ?u = "target_utilization c"
  have n: "0 < ?n" "?n \<le> 2 ^ 36" and u: "0 < ?u" "?u \<le> 1"
    using assms by (auto simp: validate_storage_def MAX_HOT_CACHE_SIZE_def split: if_splits)
  have x: "f64_of_nat ?n * ?u = of_nat ?n * ?u" using n(2) by (simp add: f64_of_nat_exact)
  have le: "of_nat ?n * ?u \<le> of_nat ?n" using u n(1) by (simp add: mult_le_cancel_left1)
  have "(of_nat ?n :: rat) \<le> of_nat (2 ^ 36)" using n(2) by (simp only: of_nat_le_iff)
  then have "f64_round (of_nat ?n * ?u) \<le> of_nat ?n * ?u + 1 / 2"
    using le u by (intro f64_round_half) simp_all
  then have "f64_round (of_nat ?n * ?u) < of_nat ?n + 1" using le by linarith
  then show ?thesis unfolding eviction_watermark_def f64_mul_def x by (rule f64_to_u64_le)
qed

end
