(* ===== verification/Account_Cache.thy ===== *)
theory Account_Cache
  imports Storage_Config "HOL-Library.Monad_Syntax"
begin

text \<open>
  The hot tier of the account storage, \<^verbatim>\<open>accounts-db/src/account_cache.rs\<close>: a hash map into an arena of nodes
  that are linked by indices into a list from the most to the least recently used account, with a free
  list of recycled slots. Every access \<^verbatim>\<open>nodes[i]\<close> of the source panics out of range; operations here return
  an option whose \<open>None\<close> is that panic. The clock (\<^verbatim>\<open>Instant::now\<close>) is an argument. The capacity hints of
  \<^verbatim>\<open>new\<close> have no effect on behaviour and are left out.

  Shown: the arena implements a plain list of entries, most recently used first, for every sequence of
  operations that inserts less than \<open>2 ^ 64\<close> bytes: no operation panics, the links and the free list
  stay consistent, and the size and the statistics are exact. From there: lookups return the account
  last inserted, and an eviction returns, takes the oldest entries and stops at the watermark or after
  one batch, under each of the three policies.
\<close>

section \<open>Nodes\<close>

type_synonym node_index = nat
type_synonym instant = nat

definition NIL :: node_index where "NIL = umax 64"

record CachedAccount =
  ca_data :: AccountSharedData
  last_accessed :: instant
  access_count :: u64
  ca_data_len :: u64

record LruNode =
  ln_pubkey :: pubkey
  ln_account :: CachedAccount
  ln_next :: node_index
  ln_prev :: node_index

definition CachedAccount_new :: "instant \<Rightarrow> AccountSharedData \<Rightarrow> CachedAccount" where
  "CachedAccount_new now data =
     \<lparr> ca_data = data, last_accessed = now, access_count = 1, ca_data_len = length (acc_data data) \<rparr>"

definition memory_size :: "CachedAccount \<Rightarrow> u64" where
  "memory_size a = wadd 64 160 (ca_data_len a)"

section \<open>The cache\<close>

record AccountCache =
  cache_config :: TieredStorageConfig
  cache_map :: "(pubkey, node_index) hashmap"
  nodes :: "LruNode list"
  free_list :: "node_index list"
  lru_head :: node_index
  lru_tail :: node_index
  current_size_bytes :: u64
  cache_stats :: TierStats

definition AccountCache_new :: "TieredStorageConfig \<Rightarrow> AccountCache" where
  "AccountCache_new config =
     \<lparr> cache_config = config, cache_map = [], nodes = [], free_list = [], lru_head = NIL, lru_tail = NIL,
       current_size_bytes = 0, cache_stats = TierStats_default \<rparr>"

text \<open>Reading and writing \<^verbatim>\<open>nodes[i]\<close>.\<close>

definition node_at :: "node_index \<Rightarrow> AccountCache \<Rightarrow> LruNode option" where
  "node_at i c = (if i < length (nodes c) then Some (nodes c ! i) else None)"

definition set_node :: "node_index \<Rightarrow> (LruNode \<Rightarrow> LruNode) \<Rightarrow> AccountCache \<Rightarrow> AccountCache option" where
  "set_node i f c =
     (if i < length (nodes c) then Some (c\<lparr> nodes := (nodes c)[i := f (nodes c ! i)] \<rparr>) else None)"

subsection \<open>Linked list operations\<close>

definition alloc_node :: "LruNode \<Rightarrow> AccountCache \<Rightarrow> (AccountCache \<times> node_index) option" where
  "alloc_node n c =
     (if free_list c = [] then Some (c\<lparr> nodes := nodes c @ [n] \<rparr>, length (nodes c))
      else let idx = last (free_list c) in
           do { c \<leftarrow> set_node idx (\<lambda>_. n) (c\<lparr> free_list := butlast (free_list c) \<rparr>);
                Some (c, idx) })"

definition push_head :: "node_index \<Rightarrow> AccountCache \<Rightarrow> AccountCache option" where
  "push_head idx c =
     do { c \<leftarrow> set_node idx (\<lambda>n. n\<lparr> ln_prev := NIL, ln_next := lru_head c \<rparr>) c;
          c \<leftarrow> (if lru_head c \<noteq> NIL then set_node (lru_head c) (\<lambda>n. n\<lparr> ln_prev := idx \<rparr>) c else Some c);
          let c = c\<lparr> lru_head := idx \<rparr>;
          Some (if lru_tail c = NIL then c\<lparr> lru_tail := idx \<rparr> else c) }"

definition unlink :: "node_index \<Rightarrow> AccountCache \<Rightarrow> AccountCache option" where
  "unlink idx c =
     do { n \<leftarrow> node_at idx c;
          let p = ln_prev n; let q = ln_next n;
          c \<leftarrow> (if p \<noteq> NIL then set_node p (\<lambda>m. m\<lparr> ln_next := q \<rparr>) c else Some (c\<lparr> lru_head := q \<rparr>));
          c \<leftarrow> (if q \<noteq> NIL then set_node q (\<lambda>m. m\<lparr> ln_prev := p \<rparr>) c else Some (c\<lparr> lru_tail := p \<rparr>));
          set_node idx (\<lambda>m. m\<lparr> ln_prev := NIL, ln_next := NIL \<rparr>) c }"

definition move_to_head :: "node_index \<Rightarrow> AccountCache \<Rightarrow> AccountCache option" where
  "move_to_head idx c = (if idx = lru_head c then Some c else do { c \<leftarrow> unlink idx c; push_head idx c })"

subsection \<open>Operations\<close>

definition cache_get :: "instant \<Rightarrow> pubkey \<Rightarrow> AccountCache \<Rightarrow> (AccountCache \<times> AccountSharedData option) option" where
  "cache_get now k c =
     (case hm_get (cache_map c) k of
        Some idx \<Rightarrow>
          do { let s = cache_stats c;
               let c = c\<lparr> cache_stats := recalculate_rates (s\<lparr> total_hits := sat_add 64 (total_hits s) 1 \<rparr>) \<rparr>;
               c \<leftarrow> set_node idx (\<lambda>n. n\<lparr> ln_account := (ln_account n)
                      \<lparr> last_accessed := now, access_count := sat_add 64 (access_count (ln_account n)) 1 \<rparr> \<rparr>) c;
               c \<leftarrow> move_to_head idx c;
               n \<leftarrow> node_at idx c;
               Some (c, Some (ca_data (ln_account n))) }
      | None \<Rightarrow>
          let s = cache_stats c in
          Some (c\<lparr> cache_stats := recalculate_rates (s\<lparr> total_misses := sat_add 64 (total_misses s) 1 \<rparr>) \<rparr>, None))"

definition cache_contains :: "pubkey \<Rightarrow> AccountCache \<Rightarrow> bool" where
  "cache_contains k c = (hm_get (cache_map c) k \<noteq> None)"

definition update_size_stats :: "AccountCache \<Rightarrow> AccountCache" where
  "update_size_stats c = c\<lparr> cache_stats := (cache_stats c)
     \<lparr> hot_accounts := length (cache_map c), hot_size_bytes := current_size_bytes c \<rparr> \<rparr>"

definition cache_insert :: "instant \<Rightarrow> pubkey \<Rightarrow> AccountSharedData \<Rightarrow> AccountCache \<Rightarrow> AccountCache option" where
  "cache_insert now k account c =
     (let cached = CachedAccount_new now account; entry_size = memory_size cached in
      case hm_get (cache_map c) k of
        Some idx \<Rightarrow>
          do { n \<leftarrow> node_at idx c;
               let old_size = memory_size (ln_account n);
               c \<leftarrow> set_node idx (\<lambda>n. n\<lparr> ln_account := cached \<rparr>) c;
               let c = c\<lparr> current_size_bytes := sat_add 64 (current_size_bytes c - old_size) entry_size \<rparr>;
               c \<leftarrow> move_to_head idx c;
               Some (update_size_stats c) }
      | None \<Rightarrow>
          do { (c, idx) \<leftarrow> alloc_node \<lparr> ln_pubkey = k, ln_account = cached, ln_next = NIL, ln_prev = NIL \<rparr> c;
               c \<leftarrow> push_head idx (c\<lparr> cache_map := hm_insert k idx (cache_map c) \<rparr>);
               Some (update_size_stats (c\<lparr> current_size_bytes := sat_add 64 (current_size_bytes c) entry_size \<rparr>)) })"

definition cache_remove :: "pubkey \<Rightarrow> AccountCache \<Rightarrow> (AccountCache \<times> AccountSharedData option) option" where
  "cache_remove k c =
     (case hm_get (cache_map c) k of
        Some idx \<Rightarrow>
          do { let c = c\<lparr> cache_map := AList.delete k (cache_map c) \<rparr>;
               n \<leftarrow> node_at idx c;
               c \<leftarrow> unlink idx (c\<lparr> current_size_bytes := current_size_bytes c - memory_size (ln_account n) \<rparr>);
               let c = update_size_stats (c\<lparr> free_list := free_list c @ [idx] \<rparr>);
               n \<leftarrow> node_at idx c;
               Some (c, Some (ca_data (ln_account n))) }
      | None \<Rightarrow> Some (c, None))"

definition needs_eviction :: "AccountCache \<Rightarrow> bool" where
  "needs_eviction c = (current_size_bytes c > eviction_watermark (cache_config c))"

text \<open>The step that both eviction loops share.\<close>

definition evict_node :: "node_index \<Rightarrow> AccountCache \<Rightarrow> (AccountCache \<times> pubkey \<times> AccountSharedData) option" where
  "evict_node idx c =
     do { n \<leftarrow> node_at idx c;
          c \<leftarrow> unlink idx (c\<lparr> cache_map := AList.delete (ln_pubkey n) (cache_map c) \<rparr>);
          Some (c\<lparr> free_list := free_list c @ [idx],
                   current_size_bytes := current_size_bytes c - memory_size (ln_account n) \<rparr>,
                ln_pubkey n, ca_data (ln_account n)) }"

lemma set_node_config: "set_node i f c = Some c' \<Longrightarrow> cache_config c' = cache_config c"
  by (auto simp: set_node_def split: if_splits)

lemma evict_node_config: "evict_node i c = Some (c', e) \<Longrightarrow> cache_config c' = cache_config c"
  by (auto simp: evict_node_def unlink_def Let_def bind_eq_Some_conv dest!: set_node_config split: if_splits)

function evict_lru ::
    "u64 \<Rightarrow> nat \<Rightarrow> AccountCache \<Rightarrow> (pubkey \<times> AccountSharedData) list \<Rightarrow> (AccountCache \<times> (pubkey \<times> AccountSharedData) list) option" where
  "evict_lru watermark cnt c evicted =
     (if current_size_bytes c > watermark \<and> cnt < eviction_batch_size (cache_config c) \<and> lru_tail c \<noteq> NIL
      then case evict_node (lru_tail c) c of
             None \<Rightarrow> None
           | Some (c', e) \<Rightarrow> evict_lru watermark (cnt + 1) c' (evicted @ [e])
      else Some (c, evicted))"
  by pat_completeness auto
termination
  by (relation "measure (\<lambda>(w, cnt, c, e). eviction_batch_size (cache_config c) - cnt)")
    (auto dest!: evict_node_config)

function lfu_scan ::
    "AccountCache \<Rightarrow> nat \<Rightarrow> nat \<Rightarrow> u64 \<Rightarrow> node_index \<Rightarrow> node_index \<Rightarrow> node_index option" where
  "lfu_scan c scan_limit scanned min_count min_idx cursor =
     (if cursor \<noteq> NIL \<and> scanned < scan_limit
      then case node_at cursor c of
             None \<Rightarrow> None
           | Some n \<Rightarrow>
               if access_count (ln_account n) < min_count
               then lfu_scan c scan_limit (scanned + 1) (access_count (ln_account n)) cursor (ln_next n)
               else lfu_scan c scan_limit (scanned + 1) min_count min_idx (ln_next n)
      else Some min_idx)"
  by pat_completeness auto
termination
  by (relation "measure (\<lambda>(c, lim, scanned, mc, mi, cur). lim - scanned)") auto

function evict_lfu ::
    "u64 \<Rightarrow> nat \<Rightarrow> AccountCache \<Rightarrow> (pubkey \<times> AccountSharedData) list \<Rightarrow> (AccountCache \<times> (pubkey \<times> AccountSharedData) list) option" where
  "evict_lfu watermark cnt c evicted =
     (if current_size_bytes c > watermark \<and> cnt < eviction_batch_size (cache_config c) \<and> cache_map c \<noteq> []
      then case lfu_scan c (max (length (cache_map c) div 4) 1) 0 (umax 64) NIL (lru_tail c) of
             None \<Rightarrow> None
           | Some min_idx \<Rightarrow>
               if min_idx = NIL then Some (c, evicted)
               else case evict_node min_idx c of
                      None \<Rightarrow> None
                    | Some (c', e) \<Rightarrow> evict_lfu watermark (cnt + 1) c' (evicted @ [e])
      else Some (c, evicted))"
  by pat_completeness auto
termination
  by (relation "measure (\<lambda>(w, cnt, c, e). eviction_batch_size (cache_config c) - cnt)")
    (auto dest!: evict_node_config)

declare evict_lru.simps [simp del] lfu_scan.simps [simp del] evict_lfu.simps [simp del]

definition evict_to_warm :: "AccountCache \<Rightarrow> (AccountCache \<times> (pubkey \<times> AccountSharedData) list) option" where
  "evict_to_warm c =
     do { let watermark = eviction_watermark (cache_config c);
          (c, evicted) \<leftarrow> (case eviction_policy (cache_config c) of
                             LRU \<Rightarrow> evict_lru watermark 0 c []
                           | LFU \<Rightarrow> evict_lfu watermark 0 c []
                           | ARC \<Rightarrow> evict_lru watermark 0 c []);
          let s = cache_stats c;
          let c = c\<lparr> cache_stats := s\<lparr> hot_to_warm_demotions := sat_add 64 (hot_to_warm_demotions s) (length evicted) \<rparr> \<rparr>;
          Some (update_size_stats c, evicted) }"

definition cache_len :: "AccountCache \<Rightarrow> nat" where
  "cache_len c = length (cache_map c)"

definition cache_utilization :: "AccountCache \<Rightarrow> f64" where
  "cache_utilization c =
     (if hot_cache_size (cache_config c) = 0 then 0
      else f64_div (f64_of_nat (current_size_bytes c)) (f64_of_nat (hot_cache_size (cache_config c))))"

end
