(* ===== verification/Cache_Refinement.thy ===== *)
theory Cache_Refinement
  imports Account_Cache
begin

text \<open>
  The account cache implements a list of entries, most recently used first. The links of the arena are
  described by \<open>seg\<close>: a chain of indices, with the index before its first and after its last node. The
  specification (\<open>lru_exec\<close>) works on plain lists; \<open>cache_rel\<close> relates the two.
\<close>

section \<open>Chains of nodes\<close>

definition hd_or :: "'a \<Rightarrow> 'a list \<Rightarrow> 'a" where
  "hd_or n xs = (case xs of [] \<Rightarrow> n | x # _ \<Rightarrow> x)"

definition last_or :: "'a \<Rightarrow> 'a list \<Rightarrow> 'a" where
  "last_or p xs = (if xs = [] then p else last xs)"

lemma hd_or_simps [simp]: "hd_or n [] = n" "hd_or n (x # xs) = x"
  by (simp_all add: hd_or_def)

lemma last_or_simps [simp]: "last_or p [] = p" "last_or p (x # xs) = last_or x xs" "last_or p (xs @ [y]) = y"
  by (simp_all add: last_or_def)

lemma hd_or_append [simp]: "hd_or n (xs @ ys) = hd_or (hd_or n ys) xs"
  by (cases xs) simp_all

lemma last_or_append [simp]: "last_or p (xs @ ys) = last_or (last_or p xs) ys"
  by (simp add: last_or_def)

fun seg :: "LruNode list \<Rightarrow> node_index \<Rightarrow> node_index list \<Rightarrow> node_index \<Rightarrow> bool" where
  "seg ns p [] n \<longleftrightarrow> True"
| "seg ns p (i # is) n \<longleftrightarrow>
     i < length ns \<and> ln_prev (ns ! i) = p \<and> ln_next (ns ! i) = hd_or n is \<and> seg ns i is n"

lemma seg_append: "seg ns p (xs @ ys) n \<longleftrightarrow> seg ns p xs (hd_or n ys) \<and> seg ns (last_or p xs) ys n"
  by (induction xs arbitrary: p) auto

lemma seg_frame:
  "seg ns p is n \<Longrightarrow> length ns \<le> length ns' \<Longrightarrow>
   (\<And>i. i \<in> set is \<Longrightarrow> ln_prev (ns' ! i) = ln_prev (ns ! i) \<and> ln_next (ns' ! i) = ln_next (ns ! i)) \<Longrightarrow> seg ns' p is n"
  by (induction "is" arbitrary: p) auto

lemma seg_update_other [simp]: "i \<notin> set is \<Longrightarrow> seg ns p is n \<Longrightarrow> seg (ns[i := x]) p is n"
  by (erule seg_frame) (auto, (metis nth_list_update_neq)+)

lemma seg_snoc: "seg ns p (xs @ [i]) n \<longleftrightarrow> seg ns p xs i \<and> i < length ns \<and> ln_prev (ns ! i) = last_or p xs \<and> ln_next (ns ! i) = n"
  by (auto simp: seg_append)

lemma seg_set_next:
  assumes "seg ns p xs m" "xs \<noteq> []" "distinct xs"
  shows "seg (ns[last xs := (ns ! last xs)\<lparr> ln_next := n \<rparr>]) p xs n"
proof -
  obtain ys i where x: "xs = ys @ [i]" using assms(2) by (cases xs rule: rev_cases) auto
  then show ?thesis using assms by (auto simp: seg_snoc intro: seg_update_other)
qed

lemma seg_set_prev:
  assumes "seg ns p xs n" "xs \<noteq> []" "distinct xs"
  shows "seg (ns[hd xs := (ns ! hd xs)\<lparr> ln_prev := q \<rparr>]) q xs n"
  using assms by (cases xs) auto

lemma seg_bound: "seg ns p is n \<Longrightarrow> set is \<subseteq> {..<length ns}"
  by (induction "is" arbitrary: p) auto

text \<open>What the links do not touch.\<close>

definition content :: "LruNode \<Rightarrow> pubkey \<times> CachedAccount" where
  "content n = (ln_pubkey n, ln_account n)"

definition entries :: "LruNode list \<Rightarrow> node_index list \<Rightarrow> (pubkey \<times> CachedAccount) list" where
  "entries ns is = map (\<lambda>i. content (ns ! i)) is"

lemma content_update [simp]: "content (n\<lparr> ln_next := a \<rparr>) = content n" "content (n\<lparr> ln_prev := a \<rparr>) = content n"
  by (simp_all add: content_def)

lemma map_content_update: "content x = content (ns ! i) \<Longrightarrow> map content (ns[i := x]) = map content ns"
  by (cases "i < length ns") (auto simp: map_update list_update_same_conv list_update_beyond)

lemma entries_cong: "map content ns' = map content ns \<Longrightarrow> set is \<subseteq> {..<length ns} \<Longrightarrow> entries ns' is = entries ns is"
  unfolding entries_def by (rule map_cong) (metis length_map lessThan_iff nth_map subsetD)+

lemma entries_simps [simp]:
  "entries ns [] = []" "entries ns (i # is) = content (ns ! i) # entries ns is"
  "entries ns (xs @ ys) = entries ns xs @ entries ns ys" "length (entries ns is) = length is"
  by (simp_all add: entries_def)

lemma entries_update_other [simp]: "i \<notin> set is \<Longrightarrow> entries (ns[i := x]) is = entries ns is"
  unfolding entries_def by (rule map_cong [OF refl]) (metis nth_list_update_neq)

section \<open>The list operations\<close>

text \<open>The part of the state the list operations change.\<close>

definition relink :: "AccountCache \<Rightarrow> LruNode list \<Rightarrow> node_index list \<Rightarrow> AccountCache" where
  "relink c ns is = c\<lparr> nodes := ns, lru_head := hd_or NIL is, lru_tail := last_or NIL is \<rparr>"

definition chained :: "AccountCache \<Rightarrow> node_index list \<Rightarrow> bool" where
  "chained c is \<longleftrightarrow> seg (nodes c) NIL is NIL \<and> lru_head c = hd_or NIL is \<and> lru_tail c = last_or NIL is
     \<and> distinct is \<and> NIL \<notin> set is"

lemma last_or_NIL: "n \<notin> set is \<Longrightarrow> last_or n is = n \<longleftrightarrow> is = []"
  by (metis last_in_set last_or_def)

lemma hd_or_NIL: "n \<notin> set is \<Longrightarrow> hd_or n is = n \<longleftrightarrow> is = []"
  by (cases "is") auto

lemma push_head_chained:
  assumes "chained c is" "i \<notin> set is" "i < length (nodes c)" "i \<noteq> NIL"
  shows "\<exists>ns. push_head i c = Some (relink c ns (i # is)) \<and> seg ns NIL (i # is) NIL
    \<and> map content ns = map content (nodes c)"
proof (cases "is")
  case Nil
  let ?ns = "(nodes c)[i := (nodes c ! i)\<lparr> ln_prev := NIL, ln_next := NIL \<rparr>]"
  have "push_head i c = Some (relink c ?ns [i])"
    using assms Nil by (simp add: push_head_def set_node_def chained_def relink_def)
  moreover have "map content ?ns = map content (nodes c)" by (rule map_content_update) (simp add: content_def)
  ultimately show ?thesis using assms Nil by auto
next
  case (Cons h t)
  let ?n1 = "(nodes c)[i := (nodes c ! i)\<lparr> ln_prev := NIL, ln_next := h \<rparr>]"
  let ?n2 = "?n1[h := (?n1 ! h)\<lparr> ln_prev := i \<rparr>]"
  have h: "h < length (nodes c)" "h \<noteq> NIL" "h \<noteq> i" using assms Cons by (auto simp: chained_def)
  have t: "t \<noteq> [] \<Longrightarrow> last t \<noteq> NIL" using assms(1) Cons last_in_set by (fastforce simp: chained_def)
  have s: "seg ?n1 NIL (h # t) NIL" using assms(1,2) Cons by (intro seg_update_other) (auto simp: chained_def)
  have "seg ?n2 i (h # t) NIL" using seg_set_prev [OF s, of i] assms(1) Cons by (simp add: chained_def)
  then have "seg ?n2 NIL (i # is) NIL" using assms(3) h Cons by (auto simp: nth_list_update)
  moreover have "push_head i c = Some (relink c ?n2 (i # is))"
    using assms h t Cons by (auto simp: push_head_def set_node_def chained_def relink_def last_or_def Let_def)
  moreover have "map content ?n2 = map content (nodes c)"
    by (simp add: map_content_update content_def)
  ultimately show ?thesis by blast
qed

lemma unlink_chained:
  assumes "chained c (xs @ i # ys)"
  shows "\<exists>ns. unlink i c = Some (relink c ns (xs @ ys)) \<and> seg ns NIL (xs @ ys) NIL
    \<and> map content ns = map content (nodes c)"
proof -
  let ?p = "last_or NIL xs" and ?q = "hd_or NIL ys" and ?ns = "nodes c"
  have i: "i < length ?ns" "ln_prev (?ns ! i) = ?p" "ln_next (?ns ! i) = ?q"
    and s: "seg ?ns NIL xs i" "seg ?ns i ys NIL"
    and d: "distinct xs" "distinct ys" "set xs \<inter> set ys = {}" "i \<notin> set xs" "i \<notin> set ys" "NIL \<notin> set xs" "NIL \<notin> set ys"
    using assms by (auto simp: chained_def seg_append)
  have ne: "xs \<noteq> [] \<Longrightarrow> last xs \<notin> set ys" "ys \<noteq> [] \<Longrightarrow> hd ys \<notin> set xs" using d last_in_set hd_in_set by blast+
  define n1 where "n1 = (if xs = [] then ?ns else ?ns[last xs := (?ns ! last xs)\<lparr> ln_next := ?q \<rparr>])"
  define n2 where "n2 = (if ys = [] then n1 else n1[hd ys := (n1 ! hd ys)\<lparr> ln_prev := ?p \<rparr>])"
  define n3 where "n3 = n2[i := (n2 ! i)\<lparr> ln_prev := NIL, ln_next := NIL \<rparr>]"
  have l: "length n1 = length ?ns" "length n2 = length ?ns" by (simp_all add: n1_def n2_def)
  have 1: "seg n1 NIL xs ?q" "seg n1 i ys NIL"
    using s d ne seg_set_next [OF s(1)] by (auto simp: n1_def intro!: seg_update_other)
  have 2: "seg n2 NIL xs ?q" "seg n2 ?p ys NIL"
    using 1 d ne seg_set_prev [OF 1(2)] by (auto simp: n2_def intro!: seg_update_other)
  then have "seg n3 NIL (xs @ ys) NIL" using d by (auto simp: n3_def seg_append intro!: seg_update_other)
  moreover have "map content n3 = map content ?ns"
    by (simp add: n3_def n2_def n1_def map_content_update content_def)
  moreover have "unlink i c = Some (relink c n3 (xs @ ys))"
  proof -
    have c: "lru_head c = hd_or i xs" "lru_tail c = last_or i ys" using assms by (simp_all add: chained_def)
    let ?c1 = "c\<lparr> nodes := n1, lru_head := hd_or ?q xs \<rparr>" and ?c2 = "c\<lparr> nodes := n2, lru_head := hd_or ?q xs, lru_tail := last_or ?p ys \<rparr>"
    have s1: "(if ?p \<noteq> NIL then set_node ?p (\<lambda>m. m\<lparr> ln_next := ?q \<rparr>) c else Some (c\<lparr> lru_head := ?q \<rparr>)) = Some ?c1"
    proof (cases xs rule: rev_cases)
      case (snoc zs j)
      then have "j < length ?ns" "j \<noteq> NIL" using s(1) d by (auto simp: seg_snoc)
      then show ?thesis using c(1) snoc by (cases c) (simp add: set_node_def n1_def)
    qed (simp add: n1_def)
    have s2: "(if ?q \<noteq> NIL then set_node ?q (\<lambda>m. m\<lparr> ln_prev := ?p \<rparr>) ?c1 else Some (?c1\<lparr> lru_tail := ?p \<rparr>)) = Some ?c2"
    proof (cases ys)
      case (Cons j zs)
      then have "j < length ?ns" "j \<noteq> NIL" using s(2) d by auto
      then show ?thesis using c(2) Cons l by (cases c) (simp add: set_node_def n2_def)
    qed (simp add: n2_def)
    have s3: "set_node i (\<lambda>m. m\<lparr> ln_prev := NIL, ln_next := NIL \<rparr>) ?c2 = Some (relink c n3 (xs @ ys))"
      using i(1) l by (simp add: set_node_def relink_def n3_def)
    show ?thesis unfolding unlink_def node_at_def Let_def by (simp only: i if_True Option.bind.simps s1 s2 s3)
  qed
  ultimately show ?thesis by blast
qed

lemma relink_sel [simp]:
  "nodes (relink c ns is) = ns" "lru_head (relink c ns is) = hd_or NIL is" "lru_tail (relink c ns is) = last_or NIL is"
  "cache_config (relink c ns is) = cache_config c" "cache_map (relink c ns is) = cache_map c"
  "free_list (relink c ns is) = free_list c" "current_size_bytes (relink c ns is) = current_size_bytes c"
  "cache_stats (relink c ns is) = cache_stats c" "relink (relink c ns is) ns' is' = relink c ns' is'"
  by (simp_all add: relink_def)

lemma chained_relink: "seg ns NIL is NIL \<Longrightarrow> distinct is \<Longrightarrow> NIL \<notin> set is \<Longrightarrow> chained (relink c ns is) is"
  by (simp add: chained_def)

lemma relink_same: "chained c is \<Longrightarrow> relink c (nodes c) is = c"
  by (simp add: chained_def relink_def)

lemma move_to_head_chained:
  assumes "chained c (xs @ i # ys)"
  shows "\<exists>ns. move_to_head i c = Some (relink c ns (i # xs @ ys)) \<and> seg ns NIL (i # xs @ ys) NIL
    \<and> map content ns = map content (nodes c)"
proof (cases "xs = []")
  case True
  then show ?thesis using assms relink_same [OF assms] by (intro exI [of _ "nodes c"]) (auto simp: move_to_head_def chained_def)
next
  case False
  obtain ns where u: "unlink i c = Some (relink c ns (xs @ ys))" "seg ns NIL (xs @ ys) NIL" "map content ns = map content (nodes c)"
    using unlink_chained [OF assms] by blast
  have d: "i < length (nodes c)" "distinct (xs @ ys)" "i \<notin> set (xs @ ys)" "NIL \<notin> set (xs @ ys)" "i \<noteq> NIL"
    using assms by (auto simp: chained_def seg_append)
  have l: "length ns = length (nodes c)" using u(3) by (metis length_map)
  have "chained (relink c ns (xs @ ys)) (xs @ ys)" using u(2) d by (intro chained_relink) auto
  from push_head_chained [OF this d(3) _ d(5)] l d(1)
  obtain ns' where p: "push_head i (relink c ns (xs @ ys)) = Some (relink c ns' (i # xs @ ys))" "seg ns' NIL (i # xs @ ys) NIL"
    "map content ns' = map content ns" by auto
  have "i \<noteq> lru_head c" using False assms d(3) by (cases xs) (auto simp: chained_def)
  then show ?thesis using u p by (auto simp: move_to_head_def)
qed

section \<open>The invariant\<close>

definition keyed :: "LruNode list \<Rightarrow> node_index list \<Rightarrow> (pubkey \<times> node_index) set" where
  "keyed ns is = (\<lambda>i. (fst (content (ns ! i)), i)) ` set is"

definition cache_inv :: "AccountCache \<Rightarrow> node_index list \<Rightarrow> bool" where
  "cache_inv c is \<longleftrightarrow> chained c is \<and> distinct (free_list c @ is) \<and> set (free_list c @ is) = {..<length (nodes c)}
     \<and> hm_wf (cache_map c) \<and> set (cache_map c) = keyed (nodes c) is"

lemma keyed_cong: "map content ns' = map content ns \<Longrightarrow> set is \<subseteq> {..<length ns} \<Longrightarrow> keyed ns' is = keyed ns is"
  unfolding keyed_def by (rule image_cong) (metis length_map lessThan_iff nth_map subsetD)+

lemma keyed_perm: "set is = set is' \<Longrightarrow> keyed ns is = keyed ns is'"
  by (simp add: keyed_def)

lemma inv_lookup: "cache_inv c is \<Longrightarrow> hm_get (cache_map c) k = Some i \<longleftrightarrow> i \<in> set is \<and> fst (content (nodes c ! i)) = k"
  by (auto simp: cache_inv_def hm_get_iff keyed_def)

lemma inv_bound: "cache_inv c is \<Longrightarrow> set is \<subseteq> {..<length (nodes c)}"
  by (auto simp: cache_inv_def)

lemma inv_map_length:
  assumes "cache_inv c is"
  shows "length (cache_map c) = length is"
proof -
  have "distinct (cache_map c)" using assms by (auto simp: cache_inv_def hm_wf_def distinct_map)
  then have "length (cache_map c) = card (keyed (nodes c) is)" using assms by (simp add: cache_inv_def distinct_card [symmetric])
  also have "\<dots> = card (set is)" unfolding keyed_def by (rule card_image) (simp add: inj_on_def)
  also have "\<dots> = length is" using assms by (simp add: cache_inv_def distinct_card)
  finally show ?thesis .
qed

lemma inv_keys_distinct:
  assumes "cache_inv c is"
  shows "distinct (map fst (entries (nodes c) is))"
proof -
  have "inj_on (\<lambda>i. fst (content (nodes c ! i))) (set is)"
  proof (rule inj_onI)
    fix i j assume "i \<in> set is" "j \<in> set is" "fst (content (nodes c ! i)) = fst (content (nodes c ! j))"
    then have "hm_get (cache_map c) (fst (content (nodes c ! i))) = Some i"
      "hm_get (cache_map c) (fst (content (nodes c ! i))) = Some j" by (simp_all add: inv_lookup [OF assms])
    then show "i = j" by simp
  qed
  then show ?thesis using assms by (simp add: entries_def distinct_map comp_def cache_inv_def)
qed

lemma delete_middle:
  assumes "distinct (map fst (xs @ (k, v) # ys))"
  shows "AList.delete k (xs @ (k, v) # ys) = xs @ ys" "hm_get (xs @ (k, v) # ys) k = Some v"
proof -
  have "filter (\<lambda>(k', _). k \<noteq> k') zs = zs" if "k \<notin> fst ` set zs" for zs :: "('a \<times> 'b) list"
    using that by (induction zs) auto
  then show "AList.delete k (xs @ (k, v) # ys) = xs @ ys" using assms by (simp add: AList.delete_eq)
  show "hm_get (xs @ (k, v) # ys) k = Some v" using assms by (induction xs) auto
qed

lemma inv_found:
  assumes "cache_inv c is" "hm_get (cache_map c) k = Some i"
  obtains xs ys a where "is = xs @ i # ys" "content (nodes c ! i) = (k, a)"
    "hm_get (entries (nodes c) is) k = Some a"
    "AList.delete k (entries (nodes c) is) = entries (nodes c) (xs @ ys)"
proof -
  have i: "i \<in> set is" "fst (content (nodes c ! i)) = k" using assms inv_lookup by auto
  obtain xs ys where s: "is = xs @ i # ys" using i(1) by (meson split_list)
  obtain a where a: "content (nodes c ! i) = (k, a)" using i(2) by (cases "content (nodes c ! i)") auto
  have "entries (nodes c) is = entries (nodes c) xs @ (k, a) # entries (nodes c) ys" by (simp add: s a)
  with delete_middle [of "entries (nodes c) xs" k a "entries (nodes c) ys"] inv_keys_distinct [OF assms(1)]
  show thesis by (intro that [OF s a]) simp_all
qed

lemma inv_missing:
  assumes "cache_inv c is" "hm_get (cache_map c) k = None"
  shows "hm_get (entries (nodes c) is) k = None" "AList.delete k (entries (nodes c) is) = entries (nodes c) is"
    "\<forall>i\<in>set is. fst (content (nodes c ! i)) \<noteq> k"
proof -
  show n: "\<forall>i\<in>set is. fst (content (nodes c ! i)) \<noteq> k" using inv_lookup [OF assms(1), of k] assms(2) by simp
  then have k: "k \<notin> fst ` set (entries (nodes c) is)" by (auto simp: entries_def)
  then show "hm_get (entries (nodes c) is) k = None" by (simp add: map_of_eq_None_iff)
  show "AList.delete k (entries (nodes c) is) = entries (nodes c) is" using k by (rule AList.delete_id)
qed

lemma inv_relink:
  assumes "cache_inv c is" "seg ns NIL is' NIL" "map content ns = map content (nodes c)" "mset is' = mset is"
  shows "cache_inv (relink c ns is') is'" "entries ns is' = entries (nodes c) is'"
proof -
  have e: "set is' = set is" "distinct is' = distinct is" "length ns = length (nodes c)"
    using assms(3,4) by (metis mset_eq_setD, metis mset_eq_imp_distinct_iff, metis length_map)
  have b: "set is' \<subseteq> {..<length (nodes c)}" using inv_bound [OF assms(1)] e by simp
  show "entries ns is' = entries (nodes c) is'" using assms(3) b by (rule entries_cong)
  have "keyed ns is' = keyed (nodes c) is" using keyed_cong [OF assms(3) b] keyed_perm [OF e(1)] by simp
  then show "cache_inv (relink c ns is') is'"
    using assms(1,2) e by (auto simp: cache_inv_def chained_def)
qed

text \<open>Replacing the account of a node keeps the invariant.\<close>

lemma inv_set_account:
  fixes a :: CachedAccount
  assumes "cache_inv c is" "i \<in> set is"
  defines "c' \<equiv> c\<lparr> nodes := (nodes c)[i := (nodes c ! i)\<lparr> ln_account := a \<rparr>] \<rparr>"
  shows "cache_inv c' is"
proof -
  have i: "i < length (nodes c)" using assms(1,2) inv_bound by auto
  have "seg (nodes c) NIL is NIL" using assms(1) by (simp add: cache_inv_def chained_def)
  then have "seg (nodes c') NIL is NIL" by (rule seg_frame) (auto simp: c'_def i nth_list_update)
  moreover have "keyed (nodes c') is = keyed (nodes c) is"
    unfolding keyed_def by (rule image_cong) (auto simp: c'_def i content_def nth_list_update)
  ultimately show ?thesis using assms(1) by (simp add: cache_inv_def chained_def c'_def)
qed

section \<open>Specification\<close>

type_synonym lru_list = "(pubkey \<times> CachedAccount) list"

definition total_size :: "lru_list \<Rightarrow> nat" where
  "total_size xs = sum_list (map (\<lambda>e. memory_size (snd e)) xs)"

definition touched :: "instant \<Rightarrow> CachedAccount \<Rightarrow> CachedAccount" where
  "touched now a = a\<lparr> last_accessed := now, access_count := sat_add 64 (access_count a) 1 \<rparr>"

definition lru_get :: "instant \<Rightarrow> pubkey \<Rightarrow> lru_list \<Rightarrow> lru_list \<times> AccountSharedData option" where
  "lru_get now k xs =
     (case hm_get xs k of
        None \<Rightarrow> (xs, None)
      | Some a \<Rightarrow> ((k, touched now a) # AList.delete k xs, Some (ca_data a)))"

definition lru_insert :: "instant \<Rightarrow> pubkey \<Rightarrow> AccountSharedData \<Rightarrow> lru_list \<Rightarrow> lru_list" where
  "lru_insert now k account xs = (k, CachedAccount_new now account) # AList.delete k xs"

definition lru_remove :: "pubkey \<Rightarrow> lru_list \<Rightarrow> lru_list \<times> AccountSharedData option" where
  "lru_remove k xs = (AList.delete k xs, map_option ca_data (hm_get xs k))"

text \<open>Eviction, on the list from the oldest entry on.\<close>

fun drop_oldest :: "u64 \<Rightarrow> nat \<Rightarrow> lru_list \<Rightarrow> lru_list \<times> (pubkey \<times> AccountSharedData) list" where
  "drop_oldest w b [] = ([], [])"
| "drop_oldest w 0 (x # xs) = (x # xs, [])"
| "drop_oldest w (Suc b) (x # xs) =
     (if total_size (x # xs) > w
      then let (r, e) = drop_oldest w b xs in (r, (fst x, ca_data (snd x)) # e)
      else (x # xs, []))"

definition lru_evict :: "TieredStorageConfig \<Rightarrow> lru_list \<Rightarrow> lru_list \<times> (pubkey \<times> AccountSharedData) list" where
  "lru_evict cfg xs =
     (let (r, e) = drop_oldest (eviction_watermark cfg) (eviction_batch_size cfg) (rev xs) in (rev r, e))"

section \<open>The relation\<close>

definition cache_core :: "nat \<Rightarrow> AccountCache \<Rightarrow> lru_list \<Rightarrow> bool" where
  "cache_core b c xs \<longleftrightarrow> (\<exists>is. cache_inv c is \<and> xs = entries (nodes c) is)
     \<and> current_size_bytes c = total_size xs \<and> total_size xs \<le> b \<and> length (nodes c) \<le> b \<and> b \<le> umax 64
     \<and> (\<forall>e\<in>set xs. access_count (snd e) < b)"

definition cache_rel :: "nat \<Rightarrow> AccountCache \<Rightarrow> lru_list \<Rightarrow> bool" where
  "cache_rel b c xs \<longleftrightarrow> cache_core b c xs
     \<and> hot_accounts (cache_stats c) = length xs \<and> hot_size_bytes (cache_stats c) = total_size xs"

lemma total_size_simps [simp]:
  "total_size [] = 0" "total_size (x # xs) = memory_size (snd x) + total_size xs"
  "total_size (xs @ ys) = total_size xs + total_size ys" "total_size (rev xs) = total_size xs"
  by (simp_all add: total_size_def rev_map [symmetric])

lemma core_map_length: "cache_core b c xs \<Longrightarrow> length (cache_map c) = length xs"
  by (auto simp: cache_core_def inv_map_length)

lemma update_size_stats_rel: "cache_core b c xs \<Longrightarrow> cache_rel b (update_size_stats c) xs"
  using core_map_length [of b c xs]
  by (auto simp: cache_rel_def cache_core_def cache_inv_def chained_def update_size_stats_def)

lemma core_stats: "cache_core b (c\<lparr> cache_stats := s \<rparr>) xs = cache_core b c xs"
  by (simp add: cache_core_def cache_inv_def chained_def)

lemma core_mono: "cache_core b c xs \<Longrightarrow> b \<le> b' \<Longrightarrow> b' \<le> umax 64 \<Longrightarrow> cache_core b' c xs"
  by (auto simp: cache_core_def)

subsection \<open>Removal\<close>

lemma evict_node_inv:
  assumes "cache_inv c (xs @ i # ys)"
  obtains c' where "evict_node i c = Some (c', fst (content (nodes c ! i)), ca_data (snd (content (nodes c ! i))))"
    "cache_inv c' (xs @ ys)" "entries (nodes c') (xs @ ys) = entries (nodes c) (xs @ ys)"
    "length (nodes c') = length (nodes c)" "cache_config c' = cache_config c" "cache_stats c' = cache_stats c"
    "current_size_bytes c' = current_size_bytes c - memory_size (snd (content (nodes c ! i)))"
proof -
  let ?k = "fst (content (nodes c ! i))" and ?is = "xs @ ys"
  let ?c = "c\<lparr> cache_map := AList.delete ?k (cache_map c) \<rparr>"
  have ch: "chained ?c (xs @ i # ys)" using assms by (simp add: cache_inv_def chained_def)
  obtain ns where u: "unlink i ?c = Some (relink ?c ns ?is)" "seg ns NIL ?is NIL" "map content ns = map content (nodes c)"
    using unlink_chained [OF ch] by auto
  define c' where "c' = (relink ?c ns ?is)\<lparr> free_list := free_list c @ [i],
    current_size_bytes := current_size_bytes c - memory_size (snd (content (nodes c ! i))) \<rparr>"
  have i: "i < length (nodes c)" and b: "set ?is \<subseteq> {..<length (nodes c)}" using inv_bound [OF assms] by auto
  have l: "length ns = length (nodes c)" using u(3) by (metis length_map)
  have "set (cache_map ?c) = keyed ns ?is"
  proof -
    have "set (AList.delete ?k (cache_map c)) = {e \<in> set (cache_map c). fst e \<noteq> ?k}" by (auto simp: AList.delete_eq)
    also have "\<dots> = {e \<in> keyed (nodes c) (xs @ i # ys). fst e \<noteq> ?k}" using assms by (simp add: cache_inv_def)
    also have "\<dots> = keyed (nodes c) ?is"
    proof -
      have "?k \<notin> (\<lambda>j. fst (content (nodes c ! j))) ` set ?is"
        using inv_keys_distinct [OF assms] by (simp add: entries_def image_Un image_image)
      then have "fst (content (nodes c ! j)) \<noteq> ?k" if "j \<in> set ?is" for j using that by (metis imageI)
      then show ?thesis by (auto simp: keyed_def)
    qed
    finally show ?thesis using keyed_cong [OF u(3) b] by simp
  qed
  moreover have "hm_wf (cache_map ?c)" using assms by (simp add: cache_inv_def hm_wf_def distinct_delete)
  ultimately have "cache_inv c' ?is"
    using assms u(2) l by (auto simp: c'_def cache_inv_def chained_def)
  moreover have "evict_node i c = Some (c', ?k, ca_data (snd (content (nodes c ! i))))"
    using u(1) i by (simp add: evict_node_def node_at_def c'_def content_def)
  moreover have "entries (nodes c') ?is = entries (nodes c) ?is" using entries_cong [OF u(3) b] by (simp add: c'_def)
  ultimately show thesis using l by (intro that [of c']) (simp_all add: c'_def)
qed

lemma core_evict:
  assumes "cache_core b c (xs @ (k, a) # ys)" "cache_inv c (is @ i # js)" "entries (nodes c) is = xs"
    "entries (nodes c) (i # js) = (k, a) # ys"
  obtains c' where "evict_node i c = Some (c', k, ca_data a)" "cache_core b c' (xs @ ys)"
    "cache_config c' = cache_config c" "cache_stats c' = cache_stats c"
proof -
  have a: "content (nodes c ! i) = (k, a)" "entries (nodes c) (is @ js) = xs @ ys" using assms(3,4) by simp_all
  obtain c' where c': "evict_node i c = Some (c', k, ca_data a)"
    "cache_inv c' (is @ js)" "entries (nodes c') (is @ js) = xs @ ys" "length (nodes c') = length (nodes c)"
    "cache_config c' = cache_config c" "cache_stats c' = cache_stats c" "current_size_bytes c' = current_size_bytes c - memory_size a"
    by (rule evict_node_inv [OF assms(2), unfolded a fst_conv snd_conv])
  have "\<exists>is. cache_inv c' is \<and> xs @ ys = entries (nodes c') is" using c'(2,3) by metis
  then have "cache_core b c' (xs @ ys)" using assms(1) c'(4,7) by (simp add: cache_core_def)
  then show thesis by (rule that [OF c'(1) _ c'(5,6)])
qed

lemma core_indices:
  assumes "cache_core b c xs"
  obtains "is" where "cache_inv c is" "entries (nodes c) is = xs" "length is = length xs"
  using assms by (auto simp: cache_core_def)

lemma core_hit:
  assumes "cache_core b c xs" "hm_get (cache_map c) k = Some i"
  obtains js ks a where "cache_inv c (js @ i # ks)" "content (nodes c ! i) = (k, a)"
    "xs = entries (nodes c) js @ (k, a) # entries (nodes c) ks" "hm_get xs k = Some a"
    "AList.delete k xs = entries (nodes c) (js @ ks)"
proof -
  obtain "is" where i: "cache_inv c is" "entries (nodes c) is = xs" using core_indices [OF assms(1)] by blast
  from inv_found [OF i(1) assms(2)] obtain js ks a where f: "is = js @ i # ks" "content (nodes c ! i) = (k, a)"
    "hm_get (entries (nodes c) is) k = Some a" "AList.delete k (entries (nodes c) is) = entries (nodes c) (js @ ks)" .
  have "xs = entries (nodes c) js @ (k, a) # entries (nodes c) ks" using i(2) f(1,2) by simp
  then show thesis by (rule that [OF i(1) [unfolded f(1)] f(2) _ f(3) [unfolded i(2)] f(4) [unfolded i(2)]])
qed

lemma core_miss:
  assumes "cache_core b c xs" "hm_get (cache_map c) k = None"
  shows "hm_get xs k = None" "AList.delete k xs = xs"
  using assms inv_missing by (auto simp: cache_core_def)

lemma unlink_size: "unlink i (c\<lparr> current_size_bytes := n \<rparr>) = map_option (\<lambda>c'. c'\<lparr> current_size_bytes := n \<rparr>) (unlink i c)"
  by (simp add: unlink_def node_at_def set_node_def Let_def)

lemma cache_remove_rel:
  assumes "cache_rel b c xs"
  shows "\<exists>c'. cache_remove k c = Some (c', snd (lru_remove k xs)) \<and> cache_rel b c' (fst (lru_remove k xs))
    \<and> cache_config c' = cache_config c"
proof (cases "hm_get (cache_map c) k")
  case None
  then show ?thesis using assms core_miss [of b c xs k] by (simp add: cache_rel_def cache_remove_def lru_remove_def)
next
  case (Some i)
  have core: "cache_core b c xs" using assms by (simp add: cache_rel_def)
  obtain js ks a where h: "cache_inv c (js @ i # ks)" "content (nodes c ! i) = (k, a)"
    "xs = entries (nodes c) js @ (k, a) # entries (nodes c) ks" "hm_get xs k = Some a"
    "AList.delete k xs = entries (nodes c) (js @ ks)" by (rule core_hit [OF core Some])
  obtain c' where e: "evict_node i c = Some (c', k, ca_data a)" "cache_core b c' (entries (nodes c) js @ entries (nodes c) ks)"
    "cache_config c' = cache_config c"
    by (rule core_evict [OF core [unfolded h(3)] h(1)]) (simp_all add: h(2))
  have i: "i < length (nodes c)" "ln_pubkey (nodes c ! i) = k" "ln_account (nodes c ! i) = a"
    using inv_bound [OF h(1)] h(2) by (auto simp: content_def)
  let ?c = "c\<lparr> cache_map := AList.delete k (cache_map c) \<rparr>"
  have ch: "chained ?c (js @ i # ks)" using h(1) by (simp add: cache_inv_def chained_def)
  obtain ns where u: "unlink i ?c = Some (relink ?c ns (js @ ks))" "map content ns = map content (nodes c)"
    using unlink_chained [OF ch] by auto
  have "length ns = length (nodes c)" "content (ns ! i) = (k, a)"
    using u(2) i(1) h(2) by (metis length_map, metis length_map nth_map)
  then have "cache_remove k c = Some (update_size_stats c', Some (ca_data a))"
    using e(1) u(1) i Some
    by (auto simp: cache_remove_def evict_node_def node_at_def unlink_size update_size_stats_def content_def relink_def)
  then show ?thesis using e update_size_stats_rel [OF e(2)] h(4,5) by (simp add: lru_remove_def update_size_stats_def)
qed

subsection \<open>Eviction\<close>

lemma core_last:
  assumes "cache_core b c (xs @ [(k, a)])"
  obtains c' where "lru_tail c \<noteq> NIL" "evict_node (lru_tail c) c = Some (c', k, ca_data a)" "cache_core b c' xs"
    "cache_config c' = cache_config c" "cache_stats c' = cache_stats c"
    "\<forall>n > 0. lfu_scan c n 0 (umax 64) NIL (lru_tail c) = Some (lru_tail c)"
proof -
  obtain "is" where i: "cache_inv c is" "entries (nodes c) is = xs @ [(k, a)]" using core_indices [OF assms] by blast
  then have "is \<noteq> []" by auto
  then obtain js j where j: "is = js @ [j]" by (meson rev_exhaust)
  have e: "entries (nodes c) js = xs" "content (nodes c ! j) = (k, a)" using i(2) by (simp_all add: j)
  have t: "lru_tail c = j" "j \<noteq> NIL" "j < length (nodes c)" "ln_next (nodes c ! j) = NIL"
    using i(1) by (auto simp: cache_inv_def chained_def seg_snoc j)
  obtain c' where c': "evict_node j c = Some (c', k, ca_data a)" "cache_core b c' (xs @ [])"
    "cache_config c' = cache_config c" "cache_stats c' = cache_stats c"
    by (rule core_evict [OF assms i(1) [unfolded j]]) (simp_all add: e)
  have "access_count (ln_account (nodes c ! j)) < umax 64"
    using assms e(2) by (auto simp: cache_core_def content_def)
  then have "lfu_scan c n 0 (umax 64) NIL j = Some j" if "0 < n" for n using that t
    by (simp add: lfu_scan.simps [of c n 0 _ _ j] lfu_scan.simps [of c n "Suc 0" _ _ NIL] node_at_def)
  then show thesis using c' t by (intro that [of c']) simp_all
qed

lemma core_empty: "cache_core b c [] \<Longrightarrow> lru_tail c = NIL \<and> cache_map c = []"
  using core_map_length [of b c "[]"] by (auto simp: cache_core_def cache_inv_def chained_def entries_def)

lemma evict_lru_core:
  assumes "cache_core b c xs" "drop_oldest w (eviction_batch_size (cache_config c) - cnt) (rev xs) = (r, ev)"
  shows "\<exists>c'. evict_lru w cnt c evs = Some (c', evs @ ev) \<and> cache_core b c' (rev r)
    \<and> cache_config c' = cache_config c \<and> cache_stats c' = cache_stats c"
  using assms
proof (induction xs arbitrary: c cnt evs r ev rule: rev_induct)
  case Nil
  then show ?case using core_empty [OF Nil(1)] by (simp add: evict_lru.simps [of w cnt c])
next
  case (snoc x xs)
  obtain k a where x: "x = (k, a)" by (cases x)
  let ?b = "eviction_batch_size (cache_config c)"
  have s: "current_size_bytes c = total_size (xs @ [x])" using snoc.prems(1) by (simp add: cache_core_def)
  show ?case
  proof (cases "w < total_size (xs @ [x]) \<and> cnt < ?b")
    case False
    then have "drop_oldest w (?b - cnt) (x # rev xs) = (x # rev xs, [])" by (cases "?b - cnt") auto
    moreover have "evict_lru w cnt c evs = Some (c, evs)" using False s by (auto simp: evict_lru.simps [of w cnt c])
    ultimately show ?thesis using snoc.prems by auto
  next
    case True
    obtain c' where c': "lru_tail c \<noteq> NIL" "evict_node (lru_tail c) c = Some (c', k, ca_data a)" "cache_core b c' xs"
      "cache_config c' = cache_config c" "cache_stats c' = cache_stats c"
      by (rule core_last [OF snoc.prems(1) [unfolded x]])
    have step: "evict_lru w cnt c evs = evict_lru w (cnt + 1) c' (evs @ [(k, ca_data a)])"
      using True s c'(1,2) by (simp add: evict_lru.simps [of w cnt c])
    have "?b - cnt = Suc (?b - (cnt + 1))" using True by linarith
    then obtain e where e: "drop_oldest w (?b - (cnt + 1)) (rev xs) = (r, e)" "ev = (k, ca_data a) # e"
      using True snoc.prems(2) by (auto simp: x split: prod.splits)
    show ?thesis using snoc.IH [OF c'(3), of "cnt + 1" r e "evs @ [(k, ca_data a)]"] c'(4,5) e
      by (simp add: step)
  qed
qed

text \<open>The scan of the LFU policy starts at the tail and follows \<^verbatim>\<open>next\<close>, which is empty there.\<close>

lemma evict_lfu_is_lru: "cache_core b c xs \<Longrightarrow> evict_lfu w cnt c evs = evict_lru w cnt c evs"
proof (induction xs arbitrary: c cnt evs rule: rev_induct)
  case Nil
  then show ?case using core_empty [OF Nil] by (simp add: evict_lru.simps [of w cnt c] evict_lfu.simps [of w cnt c])
next
  case (snoc x xs)
  obtain k a where x: "x = (k, a)" by (cases x)
  obtain c' where c': "lru_tail c \<noteq> NIL" "evict_node (lru_tail c) c = Some (c', k, ca_data a)" "cache_core b c' xs"
    "cache_config c' = cache_config c" "cache_stats c' = cache_stats c"
    "\<forall>n > 0. lfu_scan c n 0 (umax 64) NIL (lru_tail c) = Some (lru_tail c)"
    by (rule core_last [OF snoc.prems [unfolded x]])
  have "cache_map c \<noteq> []" using core_map_length [OF snoc.prems] by auto
  then show ?case using c' snoc.IH [OF c'(3)] by (simp add: evict_lru.simps [of w cnt c] evict_lfu.simps [of w cnt c])
qed

lemma evict_to_warm_rel:
  assumes "cache_rel b c xs"
  shows "\<exists>c'. evict_to_warm c = Some (c', snd (lru_evict (cache_config c) xs))
    \<and> cache_rel b c' (fst (lru_evict (cache_config c) xs)) \<and> cache_config c' = cache_config c"
proof -
  let ?w = "eviction_watermark (cache_config c)"
  have core: "cache_core b c xs" using assms by (simp add: cache_rel_def)
  obtain r ev where d: "drop_oldest ?w (eviction_batch_size (cache_config c)) (rev xs) = (r, ev)" by (meson surj_pair)
  then obtain c' where c': "evict_lru ?w 0 c [] = Some (c', ev)" "cache_core b c' (rev r)" "cache_config c' = cache_config c"
    using evict_lru_core [OF core, of ?w 0 r ev "[]"] by auto
  have "(case eviction_policy (cache_config c) of LRU \<Rightarrow> evict_lru ?w 0 c [] | LFU \<Rightarrow> evict_lfu ?w 0 c []
      | ARC \<Rightarrow> evict_lru ?w 0 c []) = Some (c', ev)"
    using c'(1) evict_lfu_is_lru [OF core] by (simp split: EvictionPolicy.split)
  then show ?thesis using c' d
    by (simp add: evict_to_warm_def lru_evict_def Let_def update_size_stats_rel core_stats) (simp add: update_size_stats_def)
qed

subsection \<open>Lookup and insertion\<close>

text \<open>A found entry whose account is replaced and that moves to the head.\<close>

lemma core_touch:
  fixes a' :: CachedAccount
  assumes "cache_core b c xs" "hm_get (cache_map c) k = Some i"
  defines "c1 \<equiv> c\<lparr> nodes := (nodes c)[i := (nodes c ! i)\<lparr> ln_account := a' \<rparr>] \<rparr>"
  obtains a ns "is" where "hm_get xs k = Some a" "i < length (nodes c)" "ln_account (nodes c ! i) = a"
    "move_to_head i c1 = Some (relink c1 ns is)" "cache_inv (relink c1 ns is) is"
    "entries ns is = (k, a') # AList.delete k xs" "length ns = length (nodes c)" "ln_account (ns ! i) = a'"
    "(k, a) \<in> set xs" "total_size xs = memory_size a + total_size (AList.delete k xs)" "set (AList.delete k xs) \<subseteq> set xs"
    "length xs = Suc (length (AList.delete k xs))"
proof -
  obtain js ks a where h: "cache_inv c (js @ i # ks)" "content (nodes c ! i) = (k, a)"
    "xs = entries (nodes c) js @ (k, a) # entries (nodes c) ks" "hm_get xs k = Some a"
    "AList.delete k xs = entries (nodes c) (js @ ks)" by (rule core_hit [OF assms(1,2)])
  have i: "i < length (nodes c)" "i \<notin> set (js @ ks)" using h(1) inv_bound [OF h(1)] by (auto simp: cache_inv_def)
  have inv: "cache_inv c1 (js @ i # ks)" unfolding c1_def using h(1) by (rule inv_set_account) simp
  then have "chained c1 (js @ i # ks)" by (simp add: cache_inv_def)
  from move_to_head_chained [OF this] obtain ns where m: "move_to_head i c1 = Some (relink c1 ns (i # js @ ks))"
    "seg ns NIL (i # js @ ks) NIL" "map content ns = map content (nodes c1)" by blast
  have r: "cache_inv (relink c1 ns (i # js @ ks)) (i # js @ ks)" "entries ns (i # js @ ks) = entries (nodes c1) (i # js @ ks)"
    using inv_relink [OF inv m(2,3)] by simp_all
  have "content (nodes c1 ! i) = (k, a')" using i(1) h(2) by (simp add: c1_def content_def)
  then have e: "entries ns (i # js @ ks) = (k, a') # AList.delete k xs"
    using r(2) i(2) h(5) by (simp add: c1_def)
  then have "ln_account (ns ! i) = a'" by (simp add: content_def)
  moreover have "length ns = length (nodes c)" using arg_cong [OF m(3), of length] by (simp add: c1_def)
  ultimately show thesis using h i e by (intro that [OF h(4) i(1) _ m(1) r(1) e]) (auto simp: content_def)
qed

lemma cache_get_rel:
  assumes "cache_rel b c xs" "b + 1 \<le> umax 64"
  shows "\<exists>c'. cache_get now k c = Some (c', snd (lru_get now k xs)) \<and> cache_rel (b + 1) c' (fst (lru_get now k xs))
    \<and> cache_config c' = cache_config c"
proof (cases "hm_get (cache_map c) k")
  case None
  have "cache_core (b + 1) c xs" using assms core_mono [of b c xs "b + 1"] by (simp add: cache_rel_def)
  then show ?thesis using assms None core_miss [of b c xs k] by (simp add: cache_rel_def cache_get_def lru_get_def Let_def core_stats)
next
  case (Some i)
  let ?s = "cache_stats c"
  define c0 where "c0 = c\<lparr> cache_stats := recalculate_rates (?s\<lparr> total_hits := sat_add 64 (total_hits ?s) 1 \<rparr>) \<rparr>"
  have core: "cache_core b c0 xs" "hm_get (cache_map c0) k = Some i" "nodes c0 = nodes c"
    using assms(1) Some by (simp_all add: c0_def cache_rel_def core_stats)
  let ?a = "touched now (ln_account (nodes c ! i))"
  define c1 where "c1 = c0\<lparr> nodes := (nodes c0)[i := (nodes c0 ! i)\<lparr> ln_account := ?a \<rparr>] \<rparr>"
  obtain a ns "is" where t: "hm_get xs k = Some a" "i < length (nodes c0)" "ln_account (nodes c0 ! i) = a"
    "move_to_head i c1 = Some (relink c1 ns is)" "cache_inv (relink c1 ns is) is"
    "entries ns is = (k, ?a) # AList.delete k xs" "length ns = length (nodes c0)" "ln_account (ns ! i) = ?a"
    "(k, a) \<in> set xs" "total_size xs = memory_size a + total_size (AList.delete k xs)" "set (AList.delete k xs) \<subseteq> set xs"
    "length xs = Suc (length (AList.delete k xs))"
    unfolding c1_def by (rule core_touch [OF core(1,2), of ?a])
  have x: "?a = touched now a" "memory_size (touched now a) = memory_size a" "ca_data (touched now a) = ca_data a"
    using t(3) core(3) by (simp_all add: touched_def memory_size_def)
  have "access_count a < b" "b \<le> umax 64" using core(1) t(9) by (auto simp: cache_core_def)
  then have "access_count (touched now a) < b + 1" by (simp add: touched_def sat_add_def)
  moreover have "access_count (snd e) < b + 1" if "e \<in> set (AList.delete k xs)" for e
    using core(1) t(11) that by (auto simp: cache_core_def less_SucI)
  moreover have "\<exists>is. cache_inv (relink c1 ns is) is \<and> (k, touched now a) # AList.delete k xs = entries ns is"
    using t(5,6) x(1) by metis
  ultimately have "cache_core (b + 1) (relink c1 ns is) ((k, touched now a) # AList.delete k xs)"
    using core(1) assms(2) t(5,6,7,10) x by (auto simp: cache_core_def c1_def)
  moreover have "cache_get now k c = Some (relink c1 ns is, Some (ca_data a))"
    using Some t(2,4,7,8) x core(3) by (simp add: cache_get_def set_node_def node_at_def c0_def c1_def touched_def Let_def)
  ultimately show ?thesis using t(1,10,12) x assms(1) by (simp add: lru_get_def cache_rel_def c1_def c0_def)
qed

lemma alloc_node_inv:
  assumes "cache_inv c is" "length (nodes c) < umax 64"
  obtains c' i where "alloc_node n c = Some (c', i)" "i \<notin> set is" "i < length (nodes c')" "i \<noteq> NIL" "chained c' is"
    "nodes c' ! i = n" "entries (nodes c') is = entries (nodes c) is" "keyed (nodes c') is = keyed (nodes c) is"
    "distinct (free_list c' @ i # is)" "set (free_list c' @ i # is) = {..<length (nodes c')}"
    "cache_map c' = cache_map c" "cache_config c' = cache_config c" "current_size_bytes c' = current_size_bytes c"
    "cache_stats c' = cache_stats c" "length (nodes c') \<le> length (nodes c) + 1"
proof (cases "free_list c = []")
  case True
  let ?c = "c\<lparr> nodes := nodes c @ [n] \<rparr>" and ?i = "length (nodes c)"
  have f: "set is = {..<?i}" "distinct is" "seg (nodes c) NIL is NIL"
    using assms(1) True by (simp_all add: cache_inv_def chained_def)
  have "seg (nodes c @ [n]) NIL is NIL" using f(3) by (rule seg_frame) (auto simp: nth_append f(1))
  then show thesis using assms f True
    by (intro that [of ?c ?i]) (auto simp: alloc_node_def cache_inv_def chained_def entries_def keyed_def nth_append NIL_def)
next
  case False
  then obtain fs i where f: "free_list c = fs @ [i]" by (meson rev_exhaust)
  let ?c = "c\<lparr> free_list := fs, nodes := (nodes c)[i := n] \<rparr>"
  have d: "distinct (fs @ i # is)" "set (fs @ i # is) = {..<length (nodes c)}" "seg (nodes c) NIL is NIL" "i \<notin> set is"
    using assms(1) f by (auto simp: cache_inv_def chained_def)
  then have i: "i < length (nodes c)" by auto
  have "keyed ((nodes c)[i := n]) is = keyed (nodes c) is"
    unfolding keyed_def using d(4) by (intro image_cong) (auto, metis nth_list_update_neq)
  moreover have "chained ?c is" using assms(1) d(3,4) by (simp add: cache_inv_def chained_def)
  moreover have "alloc_node n c = Some (?c, i)" using f i by (simp add: alloc_node_def set_node_def)
  ultimately show thesis using d i assms(2) by (intro that [of ?c i]) (simp_all add: NIL_def)
qed

lemma hm_insert_new: "k \<notin> fst ` set m \<Longrightarrow> set (hm_insert k v m) = insert (k, v) (set m)"
  by (induction m) auto

lemma push_head_size: "push_head i (c\<lparr> current_size_bytes := n \<rparr>) = map_option (\<lambda>c'. c'\<lparr> current_size_bytes := n \<rparr>) (push_head i c)"
  by (simp add: push_head_def set_node_def Let_def)

lemma move_to_head_size:
  "move_to_head i (c\<lparr> current_size_bytes := n \<rparr>) = map_option (\<lambda>c'. c'\<lparr> current_size_bytes := n \<rparr>) (move_to_head i c)"
  by (cases "unlink i c") (simp_all add: move_to_head_def unlink_size push_head_size)

lemma cache_insert_rel:
  assumes "cache_rel b c xs" "b + (160 + length (acc_data account)) \<le> umax 64"
  shows "\<exists>c'. cache_insert now k account c = Some c'
    \<and> cache_rel (b + (160 + length (acc_data account))) c' (lru_insert now k account xs) \<and> cache_config c' = cache_config c"
proof -
  let ?a = "CachedAccount_new now account" and ?b = "b + (160 + length (acc_data account))"
  have core: "cache_core b c xs" using assms(1) by (simp add: cache_rel_def)
  have sz: "memory_size ?a = 160 + length (acc_data account)"
    using assms(2) by (simp add: memory_size_def CachedAccount_new_def wadd_def umax_def)
  have ok: "access_count ?a < ?b" "\<forall>e\<in>set xs. access_count (snd e) < ?b" "current_size_bytes c = total_size xs"
    "total_size xs \<le> b" "length (nodes c) \<le> b"
    using core by (auto simp: CachedAccount_new_def cache_core_def)
  show ?thesis
  proof (cases "hm_get (cache_map c) k")
    case (Some i)
    define c1 where "c1 = c\<lparr> nodes := (nodes c)[i := (nodes c ! i)\<lparr> ln_account := ?a \<rparr>] \<rparr>"
    obtain a ns "is" where t: "hm_get xs k = Some a" "i < length (nodes c)" "ln_account (nodes c ! i) = a"
      "move_to_head i c1 = Some (relink c1 ns is)" "cache_inv (relink c1 ns is) is"
      "entries ns is = (k, ?a) # AList.delete k xs" "length ns = length (nodes c)" "ln_account (ns ! i) = ?a"
      "(k, a) \<in> set xs" "total_size xs = memory_size a + total_size (AList.delete k xs)" "set (AList.delete k xs) \<subseteq> set xs"
      unfolding c1_def by (rule core_touch [OF core Some, of ?a])
    let ?s = "sat_add 64 (total_size xs - memory_size a) (memory_size ?a)"
    have s: "?s = memory_size ?a + total_size (AList.delete k xs)"
      using t(10) ok(4) assms(2) sz by (simp add: sat_add_exact)
    let ?c = "(relink c1 ns is)\<lparr> current_size_bytes := ?s \<rparr>"
    have "\<exists>is. cache_inv ?c is \<and> (k, ?a) # AList.delete k xs = entries (nodes ?c) is"
      using t(5,6) by (intro exI [of _ "is"]) (simp add: cache_inv_def chained_def)
    then have "cache_core ?b ?c ((k, ?a) # AList.delete k xs)"
      using ok t(7,10,11) assms(2) s sz unfolding cache_core_def by auto
    then have "cache_rel ?b (update_size_stats ?c) (lru_insert now k account xs)"
      using update_size_stats_rel by (simp add: lru_insert_def)
    moreover have "cache_insert now k account c = Some (update_size_stats ?c)"
      using t(2,3,4) Some ok(3)
      by (simp add: cache_insert_def node_at_def set_node_def move_to_head_size c1_def [symmetric])
    ultimately show ?thesis by (simp add: update_size_stats_def c1_def)
  next
    case None
    obtain "is" where i: "cache_inv c is" "entries (nodes c) is = xs" using core_indices [OF core] by blast
    let ?n = "\<lparr> ln_pubkey = k, ln_account = ?a, ln_next = NIL, ln_prev = NIL \<rparr>"
    have l: "length (nodes c) < umax 64" using ok(5) assms(2) by simp
    obtain c1 j where c1: "alloc_node ?n c = Some (c1, j)" "j \<notin> set is" "j < length (nodes c1)" "j \<noteq> NIL" "chained c1 is"
      "nodes c1 ! j = ?n" "entries (nodes c1) is = entries (nodes c) is" "keyed (nodes c1) is = keyed (nodes c) is"
      "distinct (free_list c1 @ j # is)" "set (free_list c1 @ j # is) = {..<length (nodes c1)}"
      "cache_map c1 = cache_map c" "cache_config c1 = cache_config c" "current_size_bytes c1 = current_size_bytes c"
      "cache_stats c1 = cache_stats c" "length (nodes c1) \<le> length (nodes c) + 1"
      by (rule alloc_node_inv [OF i(1) l, of ?n])
    let ?c2 = "c1\<lparr> cache_map := hm_insert k j (cache_map c1) \<rparr>" and ?js = "j # is"
    have "chained ?c2 is" using c1(5) by (simp add: chained_def)
    from push_head_chained [OF this c1(2) _ c1(4)] c1(3)
    obtain ns where p: "push_head j ?c2 = Some (relink ?c2 ns ?js)" "seg ns NIL ?js NIL" "map content ns = map content (nodes c1)"
      by auto
    have b: "set ?js \<subseteq> {..<length (nodes c1)}" "length ns = length (nodes c1)" using c1(10) arg_cong [OF p(3), of length] by auto
    let ?c3 = "(relink ?c2 ns ?js)\<lparr> current_size_bytes := sat_add 64 (current_size_bytes c) (memory_size ?a) \<rparr>"
    have "k \<notin> fst ` set (cache_map c)" using None by (simp add: map_of_eq_None_iff)
    moreover have "keyed ns ?js = insert (k, j) (set (cache_map c))"
      using keyed_cong [OF p(3) b(1)] c1(6,8) i(1) by (simp add: keyed_def cache_inv_def content_def)
    ultimately have "cache_inv ?c3 ?js"
      using c1(4,5,9,10,11) p(2) b(2) i(1) by (auto simp: cache_inv_def chained_def hm_insert_new)
    moreover have "entries ns ?js = (k, ?a) # xs" using entries_cong [OF p(3) b(1)] c1(6,7) i(2) by (simp add: content_def)
    ultimately have "cache_core ?b ?c3 ((k, ?a) # xs)"
      using ok sz assms(2) b(2) c1(15) unfolding cache_core_def by (auto simp: sat_add_exact intro!: exI [of _ ?js])
    moreover have "lru_insert now k account xs = (k, ?a) # xs" using core_miss [OF core None] by (simp add: lru_insert_def)
    moreover have "cache_insert now k account c = Some (update_size_stats ?c3)"
      using None c1(1,13) p(1) by (simp add: cache_insert_def Let_def)
    ultimately show ?thesis using update_size_stats_rel [of ?b ?c3] c1(12) by (simp add: update_size_stats_def)
  qed
qed

section \<open>Runs\<close>

datatype cache_op =
  Get instant pubkey
| Insert instant pubkey AccountSharedData
| Remove pubkey
| Evict

datatype cache_result =
  Account "AccountSharedData option"
| Done
| Evicted "(pubkey \<times> AccountSharedData) list"

fun cache_exec :: "cache_op \<Rightarrow> AccountCache \<Rightarrow> (AccountCache \<times> cache_result) option" where
  "cache_exec (Get now k) c = do { (c, r) \<leftarrow> cache_get now k c; Some (c, Account r) }"
| "cache_exec (Insert now k a) c = do { c \<leftarrow> cache_insert now k a c; Some (c, Done) }"
| "cache_exec (Remove k) c = do { (c, r) \<leftarrow> cache_remove k c; Some (c, Account r) }"
| "cache_exec Evict c = do { (c, r) \<leftarrow> evict_to_warm c; Some (c, Evicted r) }"

fun lru_exec :: "TieredStorageConfig \<Rightarrow> cache_op \<Rightarrow> lru_list \<Rightarrow> lru_list \<times> cache_result" where
  "lru_exec cfg (Get now k) xs = map_prod id Account (lru_get now k xs)"
| "lru_exec cfg (Insert now k a) xs = (lru_insert now k a xs, Done)"
| "lru_exec cfg (Remove k) xs = map_prod id Account (lru_remove k xs)"
| "lru_exec cfg Evict xs = map_prod id Evicted (lru_evict cfg xs)"

text \<open>The bytes an operation adds; a lookup counts as one.\<close>

fun op_cost :: "cache_op \<Rightarrow> nat" where
  "op_cost (Get _ _) = 1"
| "op_cost (Insert _ _ a) = 160 + length (acc_data a)"
| "op_cost (Remove _) = 0"
| "op_cost Evict = 0"

text \<open>A run collects the results; \<open>None\<close> is a panic.\<close>

fun try_run :: "('o \<Rightarrow> 's \<Rightarrow> ('s \<times> 'r) option) \<Rightarrow> 's \<Rightarrow> 'o list \<Rightarrow> ('s \<times> 'r list) option" where
  "try_run f s [] = Some (s, [])"
| "try_run f s (e # es) = do { (s, r) \<leftarrow> f e s; (s, rs) \<leftarrow> try_run f s es; Some (s, r # rs) }"

fun spec_run :: "('o \<Rightarrow> 'a \<Rightarrow> 'a \<times> 'r) \<Rightarrow> 'a \<Rightarrow> 'o list \<Rightarrow> 'a \<times> 'r list" where
  "spec_run g a [] = (a, [])"
| "spec_run g a (e # es) = (let (a, r) = g e a; (a, rs) = spec_run g a es in (a, r # rs))"

text \<open>
  Simulation with a budget: every operation of the implementation matches the specification as long as
  the costs so far stay within a limit.
\<close>

locale budgeted_simulation =
  fixes step :: "'o \<Rightarrow> 's \<Rightarrow> ('s \<times> 'r) option"
    and spec :: "'o \<Rightarrow> 'a \<Rightarrow> 'a \<times> 'r"
    and rel :: "nat \<Rightarrow> 's \<Rightarrow> 'a \<Rightarrow> bool"
    and cost :: "'o \<Rightarrow> nat"
    and limit :: nat
  assumes simulates: "rel b s a \<Longrightarrow> b + cost e \<le> limit \<Longrightarrow>
    \<exists>s'. step e s = Some (s', snd (spec e a)) \<and> rel (b + cost e) s' (fst (spec e a))"
begin

lemma run_simulates:
  "rel b s a \<Longrightarrow> b + sum_list (map cost es) \<le> limit \<Longrightarrow>
   \<exists>s'. try_run step s es = Some (s', snd (spec_run spec a es)) \<and> rel (b + sum_list (map cost es)) s' (fst (spec_run spec a es))"
proof (induction es arbitrary: b s a)
  case (Cons e es)
  obtain s' where s': "step e s = Some (s', snd (spec e a))" "rel (b + cost e) s' (fst (spec e a))"
    using simulates [OF Cons.prems(1), of e] Cons.prems(2) by auto
  from Cons.IH [OF s'(2)] Cons.prems(2) s'(1) show ?case by (auto simp: add.assoc split: prod.splits)
qed simp

end

interpretation hot_cache: budgeted_simulation cache_exec "lru_exec cfg"
    "\<lambda>b c xs. cache_rel b c xs \<and> cache_config c = cfg" op_cost "umax 64" for cfg
proof
  fix b c xs e
  assume r: "cache_rel b c xs \<and> cache_config c = cfg" and l: "b + op_cost e \<le> umax 64"
  show "\<exists>c'. cache_exec e c = Some (c', snd (lru_exec cfg e xs))
      \<and> cache_rel (b + op_cost e) c' (fst (lru_exec cfg e xs)) \<and> cache_config c' = cfg"
  proof (cases e)
    case (Get now k)
    then show ?thesis using cache_get_rel [of b c xs now k] r l by auto
  next
    case (Insert now k a)
    then show ?thesis using cache_insert_rel [of b c xs a now k] r l by auto
  next
    case (Remove k)
    then show ?thesis using cache_remove_rel [of b c xs k] r by auto
  next
    case Evict
    then show ?thesis using evict_to_warm_rel [of b c xs] r by auto
  qed
qed

lemma new_cache_rel: "cache_rel 0 (AccountCache_new cfg) []"
  by (auto simp: cache_rel_def cache_core_def cache_inv_def chained_def keyed_def AccountCache_new_def TierStats_default_def
    intro!: exI [of _ "[]"])

end
