(* ===== verification/Cache_Properties.thy ===== *)
theory Cache_Properties
  imports Cache_Refinement
begin

text \<open>
  What the account cache promises, from the list it implements: its contents, that a lookup never
  returns anything but the account last inserted, and what an eviction takes.
\<close>

section \<open>Contents\<close>

text \<open>The entries reached from the head along \<^verbatim>\<open>next\<close>.\<close>

fun follow :: "nat \<Rightarrow> LruNode list \<Rightarrow> node_index \<Rightarrow> lru_list" where
  "follow 0 ns i = []"
| "follow (Suc n) ns i = (if i < length ns then content (ns ! i) # follow n ns (ln_next (ns ! i)) else [])"

definition cache_list :: "AccountCache \<Rightarrow> lru_list" where
  "cache_list c = follow (length (nodes c)) (nodes c) (lru_head c)"

lemma follow_seg:
  "seg ns p is NIL \<Longrightarrow> length is \<le> n \<Longrightarrow> length ns \<le> NIL \<Longrightarrow> follow n ns (hd_or NIL is) = entries ns is"
proof (induction n arbitrary: p "is")
  case (Suc n)
  then show ?case by (cases "is") auto
qed simp

lemma core_list:
  assumes "cache_core b c xs"
  shows "cache_list c = xs"
proof -
  obtain "is" where i: "cache_inv c is" "entries (nodes c) is = xs" using core_indices [OF assms] by blast
  have "card (set is) \<le> card {..<length (nodes c)}" using inv_bound [OF i(1)] by (intro card_mono) auto
  then have "length is \<le> length (nodes c)" using i(1) by (simp add: cache_inv_def distinct_card)
  then show ?thesis using i assms follow_seg [of "nodes c" NIL "is" "length (nodes c)"]
    by (auto simp: cache_list_def cache_inv_def chained_def cache_core_def NIL_def)
qed

lemma reached:
  assumes "sum_list (map op_cost es) \<le> umax 64"
  obtains c where "try_run cache_exec (AccountCache_new cfg) es = Some (c, snd (spec_run (lru_exec cfg) [] es))"
    "cache_rel (sum_list (map op_cost es)) c (fst (spec_run (lru_exec cfg) [] es))" "cache_config c = cfg"
proof -
  have "cache_rel 0 (AccountCache_new cfg) [] \<and> cache_config (AccountCache_new cfg) = cfg"
    using new_cache_rel by (simp add: AccountCache_new_def)
  from hot_cache.run_simulates [OF this, of es] assms that show thesis by auto
qed

text \<open>
  C28: The account cache implements a list of entries in the order of their last use. For every sequence of
  lookups, insertions, removals and evictions that inserts less than \<open>2 ^ 64\<close> bytes, starting from the
  empty cache: no operation panics, every result is the one of the list, the chain of nodes from the head
  is the list, and its size, the number of hot accounts and the number of hot bytes in the statistics are exact.
\<close>

theorem cache_refines_list:
  assumes "sum_list (map op_cost es) \<le> umax 64"
  shows "\<exists>c. try_run cache_exec (AccountCache_new cfg) es = Some (c, snd (spec_run (lru_exec cfg) [] es))
    \<and> cache_list c = fst (spec_run (lru_exec cfg) [] es) \<and> current_size_bytes c = total_size (cache_list c)
    \<and> cache_len c = length (cache_list c) \<and> hot_accounts (cache_stats c) = length (cache_list c)
    \<and> hot_size_bytes (cache_stats c) = total_size (cache_list c)"
proof -
  obtain c where c: "try_run cache_exec (AccountCache_new cfg) es = Some (c, snd (spec_run (lru_exec cfg) [] es))"
    "cache_rel (sum_list (map op_cost es)) c (fst (spec_run (lru_exec cfg) [] es))" "cache_config c = cfg"
    by (rule reached [OF assms])
  have l: "cache_list c = fst (spec_run (lru_exec cfg) [] es)" "length (cache_map c) = length (cache_list c)"
    using core_list core_map_length c(2) by (auto simp: cache_rel_def)
  then show ?thesis using c by (intro exI [of _ c]) (simp add: cache_rel_def cache_core_def cache_len_def)
qed

section \<open>Lookups\<close>

fun written :: "pubkey \<Rightarrow> AccountSharedData option \<Rightarrow> cache_op \<Rightarrow> AccountSharedData option" where
  "written k r (Insert _ k' a) = (if k' = k then Some a else r)"
| "written k r (Remove k') = (if k' = k then None else r)"
| "written k r _ = r"

text \<open>The account last inserted under a key, if it was not removed since.\<close>

definition latest :: "pubkey \<Rightarrow> cache_op list \<Rightarrow> AccountSharedData option" where
  "latest k es = foldl (written k) None es"

lemma spec_run_snoc:
  "spec_run g a (es @ [e]) =
     (let (b, rs) = spec_run g a es; (b', r) = g e b in (b', rs @ [r]))"
  by (induction es arbitrary: a) (auto simp: Let_def split: prod.splits)

definition lru_data :: "lru_list \<Rightarrow> pubkey \<Rightarrow> AccountSharedData option" where
  "lru_data xs k = map_option ca_data (hm_get xs k)"

lemma drop_oldest_split:
  "drop_oldest w b xs = (r, e) \<Longrightarrow>
   \<exists>os. xs = os @ r \<and> e = map (\<lambda>x. (fst x, ca_data (snd x))) os \<and> length os \<le> b
     \<and> (total_size r \<le> w \<or> length os = b) \<and> (os \<noteq> [] \<longrightarrow> total_size (last os # r) > w)"
proof (induction w b xs arbitrary: r e rule: drop_oldest.induct)
  case (3 w b x xs)
  show ?case
  proof (cases "total_size (x # xs) > w")
    case True
    obtain r' e' where d: "drop_oldest w b xs = (r', e')" by (meson surj_pair)
    then have r: "r = r'" "e = (fst x, ca_data (snd x)) # e'" using 3(2) True by (auto split: prod.splits)
    from 3(1) [OF True d] obtain os where "xs = os @ r'" "e' = map (\<lambda>x. (fst x, ca_data (snd x))) os" "length os \<le> b"
      "total_size r' \<le> w \<or> length os = b" "os \<noteq> [] \<longrightarrow> total_size (last os # r') > w" by blast
    then show ?thesis using True r by (intro exI [of _ "x # os"]) auto
  qed (use 3 in auto)
qed auto

lemma lru_evict_split:
  assumes "lru_evict cfg xs = (ys, ev)"
  shows "\<exists>os. xs = ys @ os \<and> ev = map (\<lambda>x. (fst x, ca_data (snd x))) (rev os) \<and> length os \<le> eviction_batch_size cfg
     \<and> (total_size ys \<le> eviction_watermark cfg \<or> length os = eviction_batch_size cfg)
     \<and> (os \<noteq> [] \<longrightarrow> total_size (ys @ [hd os]) > eviction_watermark cfg)"
proof -
  obtain r where r: "drop_oldest (eviction_watermark cfg) (eviction_batch_size cfg) (rev xs) = (r, ev)" "ys = rev r"
    using assms by (auto simp: lru_evict_def split: prod.splits)
  from drop_oldest_split [OF r(1)] obtain os where "rev xs = os @ r" "ev = map (\<lambda>x. (fst x, ca_data (snd x))) os"
    "length os \<le> eviction_batch_size cfg" "total_size r \<le> eviction_watermark cfg \<or> length os = eviction_batch_size cfg"
    "os \<noteq> [] \<longrightarrow> total_size (last os # r) > eviction_watermark cfg" by blast
  moreover from this(1) have "xs = rev r @ rev os" by (metis rev_append rev_rev_ident)
  ultimately show ?thesis using r(2) by (intro exI [of _ "rev os"]) (auto simp: hd_rev)
qed

lemma lru_step_data:
  assumes "lru_data xs k = None \<or> lru_data xs k = r"
  shows "lru_data (fst (lru_exec cfg e xs)) k = None \<or> lru_data (fst (lru_exec cfg e xs)) k = written k r e"
    and "lru_data xs k = r \<Longrightarrow> e \<noteq> Evict \<Longrightarrow> lru_data (fst (lru_exec cfg e xs)) k = written k r e"
proof -
  have d: "lru_data (AList.delete k' xs) k = (if k' = k then None else lru_data xs k)" for k'
    by (simp add: lru_data_def delete_conv')
  have ev: "lru_data ys k = None \<or> lru_data ys k = lru_data xs k" if "lru_evict cfg xs = (ys, v)" for ys v
  proof -
    from lru_evict_split [OF that] obtain os where "xs = ys @ os" by blast
    then show ?thesis by (auto simp: lru_data_def map_add_def split: option.splits)
  qed
  show "lru_data xs k = r \<Longrightarrow> e \<noteq> Evict \<Longrightarrow> lru_data (fst (lru_exec cfg e xs)) k = written k r e"
    using d by (cases e)
      (auto simp: lru_get_def lru_insert_def lru_remove_def lru_data_def touched_def CachedAccount_new_def split: option.splits)
  show "lru_data (fst (lru_exec cfg e xs)) k = None \<or> lru_data (fst (lru_exec cfg e xs)) k = written k r e"
    using assms d ev [of "fst (lru_evict cfg xs)" "snd (lru_evict cfg xs)"] by (cases e)
      (auto simp: lru_get_def lru_insert_def lru_remove_def lru_data_def touched_def CachedAccount_new_def split: option.splits)
qed

lemma spec_run_data:
  "let xs = fst (spec_run (lru_exec cfg) [] es) in
   (lru_data xs k = None \<or> lru_data xs k = latest k es) \<and> (Evict \<notin> set es \<longrightarrow> lru_data xs k = latest k es)"
proof (induction es rule: rev_induct)
  case Nil
  then show ?case by (simp add: lru_data_def latest_def)
next
  case (snoc e es)
  let ?xs = "fst (spec_run (lru_exec cfg) [] es)"
  have "fst (spec_run (lru_exec cfg) [] (es @ [e])) = fst (lru_exec cfg e ?xs)"
    by (simp add: spec_run_snoc split: prod.splits)
  moreover have "latest k (es @ [e]) = written k (latest k es) e" by (simp add: latest_def)
  ultimately show ?case using snoc lru_step_data(1) [of ?xs k "latest k es" cfg e] lru_step_data(2) [of ?xs k "latest k es" e cfg] by (auto simp: Let_def)
qed

lemma try_run_snoc:
  "try_run f s (es @ [e]) = do { (s, rs) \<leftarrow> try_run f s es; (s, r) \<leftarrow> f e s; Some (s, rs @ [r]) }"
proof (induction es arbitrary: s)
  case (Cons x es)
  then show ?case by (cases "f x s") (auto split: prod.splits bind_splits)
qed (auto split: prod.splits bind_splits)

text \<open>
  A lookup never returns stale data. After any sequence of operations on a new cache, looking up a
  key returns nothing or the account last inserted under the key and not removed since; if nothing was
  evicted, it returns exactly that account.
\<close>

theorem lookup_is_latest:
  assumes "sum_list (map op_cost es) + 1 \<le> umax 64"
  shows "\<exists>c rs r. try_run cache_exec (AccountCache_new cfg) (es @ [Get now k]) = Some (c, rs @ [Account r])
    \<and> (r = None \<or> r = latest k es) \<and> (Evict \<notin> set es \<longrightarrow> r = latest k es)"
proof -
  let ?xs = "fst (spec_run (lru_exec cfg) [] es)"
  have "sum_list (map op_cost (es @ [Get now k])) \<le> umax 64" using assms by simp
  then obtain c where "try_run cache_exec (AccountCache_new cfg) (es @ [Get now k]) =
      Some (c, snd (spec_run (lru_exec cfg) [] (es @ [Get now k])))" by (rule reached)
  moreover have "snd (spec_run (lru_exec cfg) [] (es @ [Get now k])) = snd (spec_run (lru_exec cfg) [] es) @ [Account (lru_data ?xs k)]"
    by (auto simp: spec_run_snoc lru_get_def lru_data_def split: prod.splits option.splits)
  ultimately show ?thesis using spec_run_data [of cfg es k] by (auto simp: Let_def)
qed

section \<open>Eviction\<close>

text \<open>
  C29: An eviction ends and takes the oldest entries. Whatever the policy of the configuration (LRU, LFU or ARC),
  on every cache that a sequence of operations reaches, the eviction returns; it splits the entries into
  the most recently used ones, which stay, and the least recently used ones, which it returns oldest first;
  it takes at most one batch; it ends at the watermark unless the batch is used up, and the last entry it
  took was needed to get there.
\<close>

theorem eviction_takes_oldest:
  assumes "sum_list (map op_cost es) \<le> umax 64" "try_run cache_exec (AccountCache_new cfg) es = Some (c, rs)"
  shows "\<exists>c' os. evict_to_warm c = Some (c', map (\<lambda>e. (fst e, ca_data (snd e))) (rev os))
    \<and> cache_list c = cache_list c' @ os \<and> current_size_bytes c' = total_size (cache_list c') \<and> length os \<le> eviction_batch_size cfg
    \<and> (current_size_bytes c' \<le> eviction_watermark cfg \<or> length os = eviction_batch_size cfg)
    \<and> (os \<noteq> [] \<longrightarrow> current_size_bytes c' + memory_size (snd (hd os)) > eviction_watermark cfg)"
proof -
  let ?b = "sum_list (map op_cost es)" and ?xs = "fst (spec_run (lru_exec cfg) [] es)"
  have r: "cache_rel ?b c ?xs" "cache_config c = cfg" using reached [OF assms(1), of cfg] assms(2) by auto
  obtain ys ev where y: "lru_evict cfg ?xs = (ys, ev)" by (meson surj_pair)
  obtain c' where c': "evict_to_warm c = Some (c', ev)" "cache_rel ?b c' ys"
    using evict_to_warm_rel [OF r(1)] r(2) y by auto
  have l: "cache_list c = ?xs" "cache_list c' = ys" "current_size_bytes c' = total_size ys"
    using r(1) c'(2) core_list by (auto simp: cache_rel_def cache_core_def)
  from lru_evict_split [OF y] show ?thesis using c'(1) l by auto
qed

section \<open>An example\<close>

text \<open>
  A cache with the LFU policy and room for one entry of 160 bytes: the first account is used five times, the second
  is only inserted.
\<close>

definition small_cache :: TieredStorageConfig where
  "small_cache = TieredStorageConfig_default
     \<lparr> hot_cache_size := 400, eviction_policy := LFU, target_utilization := 1 / 2 \<rparr>"

definition small_ops :: "cache_op list" where
  "small_ops = [Insert 0 [1] default_account, Get 1 [1], Get 2 [1], Get 3 [1], Get 4 [1], Insert 5 [2] default_account]"

lemma small_watermark: "eviction_watermark small_cache = 200"
proof -
  have "f64_of_nat 400 = 400" using f64_of_nat_exact [of 400] by simp
  moreover have "f64_round 200 = 200" using f64_of_nat_exact [of 200] by (simp add: f64_of_nat_def)
  ultimately show ?thesis by (simp add: eviction_watermark_def small_cache_def f64_mul_def f64_to_u64_def umax_def)
qed

lemma small_cost: "sum_list (map op_cost small_ops) = 324"
  by (simp add: small_ops_def default_account_def)

lemma small_list:
  "fst (spec_run (lru_exec small_cache) [] small_ops) =
     [([2], \<lparr> ca_data = default_account, last_accessed = 5, access_count = 1, ca_data_len = 0 \<rparr>),
      ([1], \<lparr> ca_data = default_account, last_accessed = 4, access_count = 5, ca_data_len = 0 \<rparr>)]"
  by (simp add: small_ops_def lru_insert_def lru_get_def touched_def CachedAccount_new_def sat_add_def umax_def
    default_account_def)

theorem cache_refines_list_witness:
  "\<exists>c rs. try_run cache_exec (AccountCache_new small_cache) small_ops = Some (c, rs)
    \<and> map fst (cache_list c) = [[2], [1]] \<and> current_size_bytes c = 320 \<and> hot_accounts (cache_stats c) = 2"
proof -
  have "sum_list (map op_cost small_ops) \<le> umax 64" by (simp add: small_cost umax_def)
  from cache_refines_list [OF this, of small_cache] show ?thesis
    by (auto simp: small_list memory_size_def wadd_def)
qed

theorem lookup_is_latest_witness:
  "\<exists>c rs. try_run cache_exec (AccountCache_new small_cache) (small_ops @ [Get 6 [2]]) = Some (c, rs @ [Account (Some default_account)])"
proof -
  have "sum_list (map op_cost small_ops) + 1 \<le> umax 64" by (simp add: small_cost umax_def)
  moreover have "Evict \<notin> set small_ops" "latest [2] small_ops = Some default_account"
    by (simp_all add: small_ops_def latest_def)
  ultimately show ?thesis using lookup_is_latest [of small_ops small_cache 6 "[2]"] by auto
qed

text \<open>The account used five times is evicted, the one used once stays.\<close>

theorem eviction_takes_oldest_witness:
  "\<exists>c rs c'. try_run cache_exec (AccountCache_new small_cache) small_ops = Some (c, rs) \<and> eviction_policy small_cache = LFU
    \<and> evict_to_warm c = Some (c', [([1], default_account)]) \<and> map fst (cache_list c') = [[2]]"
proof -
  have k: "sum_list (map op_cost small_ops) \<le> umax 64" by (simp add: small_cost umax_def)
  obtain c where c: "try_run cache_exec (AccountCache_new small_cache) small_ops = Some (c, snd (spec_run (lru_exec small_cache) [] small_ops))"
    "cache_rel (sum_list (map op_cost small_ops)) c (fst (spec_run (lru_exec small_cache) [] small_ops))"
    by (rule reached [OF k, of small_cache])
  have l: "cache_list c = fst (spec_run (lru_exec small_cache) [] small_ops)" using c(2) core_list by (auto simp: cache_rel_def)
  from eviction_takes_oldest [OF k c(1)] obtain c' os where
    e: "evict_to_warm c = Some (c', map (\<lambda>e. (fst e, ca_data (snd e))) (rev os))" "cache_list c = cache_list c' @ os"
    "current_size_bytes c' = total_size (cache_list c')" "current_size_bytes c' \<le> 200 \<or> length os = 4096" "os \<noteq> [] \<longrightarrow> current_size_bytes c' + memory_size (snd (hd os)) > 200"
    by (auto simp: small_watermark) (auto simp: small_cache_def TieredStorageConfig_default_def)
  have s: "length (cache_list c' @ os) = 2" "total_size (cache_list c' @ os) = 320"
    by (simp_all only: e(2) [symmetric] l small_list) (simp_all add: memory_size_def wadd_def)
  have "length os = 1"
  proof -
    have "os \<noteq> []" using e(3,4) s by auto
    moreover have "cache_list c' \<noteq> []"
    proof
      assume z: "cache_list c' = []"
      then have "os = fst (spec_run (lru_exec small_cache) [] small_ops)" using e(2) l by simp
      then show False using e(3,5) z by (simp add: small_list memory_size_def wadd_def)
    qed
    ultimately show ?thesis using s(1) by (cases os; cases "cache_list c'") auto
  qed
  then obtain x where "os = [x]" by (cases os) auto
  with e(2) l have "cache_list c' = butlast (fst (spec_run (lru_exec small_cache) [] small_ops))"
    "x = last (fst (spec_run (lru_exec small_cache) [] small_ops))" by (metis butlast_snoc, metis last_snoc)
  then have "evict_to_warm c = Some (c', [([1], default_account)])" "map fst (cache_list c') = [[2]]"
    using e(1) \<open>os = [x]\<close> by (simp_all add: small_list)
  moreover have "eviction_policy small_cache = LFU" by (simp add: small_cache_def)
  ultimately show ?thesis using c(1) by (intro exI conjI)
qed

end
