(* ===== verification/Cold_Storage.thy ===== *)
theory Cold_Storage
  imports Account_Data
begin

text \<open>
  Archival of inactive accounts to cold storage and their revival, \<^verbatim>\<open>accounts-db/src/state_rent_expiry.rs\<close>.
  SHA-256 is the parameter \<open>sha\<close>, the textual form of a key (base 58, an external crate) the parameter
  \<open>show_key\<close>, and \<open>re\<close> the rent epoch that the external constructor \<^verbatim>\<open>AccountSharedData::new\<close> gives an
  account. The file system is a map from paths to contents; whether a call of the operating system fails,
  and what a failed write leaves behind, is an argument. The system time is an argument. A panic is \<open>None\<close>.

  Shown: what was archived can be revived unchanged except for the rent epoch; whatever the cold file
  holds, a successful revival returns the archived account or exhibits two inputs with the same
  SHA-256 hash; the Merkle proof check accepts, with as many siblings as the tree is deep, exactly the
  proofs of its leaves, again up to hash collisions, and with fewer siblings the proofs of inner nodes.
\<close>

section \<open>Configuration\<close>

definition DEFAULT_LAMPORTS_PER_BYTE_YEAR :: u64 where "DEFAULT_LAMPORTS_PER_BYTE_YEAR = 3480"
definition DEFAULT_ARCHIVE_AFTER_DAYS :: u64 where "DEFAULT_ARCHIVE_AFTER_DAYS = 365"
definition ESTIMATED_SLOTS_PER_DAY :: u64 where "ESTIMATED_SLOTS_PER_DAY = 216000"
definition MIN_ARCHIVAL_DATA_SIZE :: nat where "MIN_ARCHIVAL_DATA_SIZE = 128"
definition MIN_REVIVAL_RENT_YEARS :: u64 where "MIN_REVIVAL_RENT_YEARS = 2"

text \<open>A path is the list of its components.\<close>

type_synonym path = "string list"

record StateRentConfig =
  lamports_per_byte_year :: u64
  archive_after_days :: u64
  allow_revival :: bool
  cold_storage_path :: path
  exempt_system_programs :: bool

definition StateRentConfig_default :: StateRentConfig where
  "StateRentConfig_default =
     \<lparr> lamports_per_byte_year = DEFAULT_LAMPORTS_PER_BYTE_YEAR, archive_after_days = DEFAULT_ARCHIVE_AFTER_DAYS,
       allow_revival = True, cold_storage_path = [''trv1-cold-storage''], exempt_system_programs = True \<rparr>"

definition rent_for_testing :: StateRentConfig where
  "rent_for_testing =
     \<lparr> lamports_per_byte_year = 1000, archive_after_days = 1, allow_revival = True,
       cold_storage_path = [''/'', ''tmp'', ''trv1-test-cold''], exempt_system_programs = False \<rparr>"

definition calculate_rent :: "StateRentConfig \<Rightarrow> nat \<Rightarrow> u64 \<Rightarrow> u64" where
  "calculate_rent config data_len years =
     sat_mul 64 (sat_mul 64 data_len (lamports_per_byte_year config)) years"

definition minimum_balance :: "StateRentConfig \<Rightarrow> nat \<Rightarrow> u64 \<Rightarrow> u64" where
  "minimum_balance config data_len years = calculate_rent config data_len years"

definition revival_deposit :: "StateRentConfig \<Rightarrow> nat \<Rightarrow> u64" where
  "revival_deposit config data_len = calculate_rent config data_len MIN_REVIVAL_RENT_YEARS"

section \<open>Merkle proofs\<close>

record MerkleProof =
  leaf_hash :: hash
  proof_hashes :: "hash list"
  root_hash :: hash
  proof_slot :: u64
  leaf_index :: u64

definition combine_hashes :: "(bytes \<Rightarrow> hash) \<Rightarrow> hash \<Rightarrow> hash \<Rightarrow> hash" where
  "combine_hashes sha left right = sha (left @ right)"

text \<open>The loop of \<^verbatim>\<open>verify\<close>.\<close>

fun walk_up :: "(bytes \<Rightarrow> hash) \<Rightarrow> hash \<Rightarrow> u64 \<Rightarrow> hash list \<Rightarrow> hash" where
  "walk_up sha current_hash index [] = current_hash"
| "walk_up sha current_hash index (sibling # siblings) =
     walk_up sha (if index mod 2 = 0 then combine_hashes sha current_hash sibling
                  else combine_hashes sha sibling current_hash) (index div 2) siblings"

definition merkle_verify :: "(bytes \<Rightarrow> hash) \<Rightarrow> MerkleProof \<Rightarrow> hash \<Rightarrow> bool" where
  "merkle_verify sha p account_data_hash =
     (if account_data_hash \<noteq> leaf_hash p then False
      else walk_up sha (leaf_hash p) (leaf_index p) (proof_hashes p) = root_hash p)"

section \<open>Archived accounts\<close>

record ArchivedAccount =
  ar_pubkey :: pubkey
  archive_slot :: u64
  archive_epoch :: u64
  account_hash :: hash
  lamports_at_archive :: u64
  ar_data_len :: nat
  ar_owner :: pubkey
  ar_executable :: bool
  archive_timestamp :: u64
  storage_path :: path
  merkle_proof :: "MerkleProof option"

record ArchiveIndex =
  ix_entries :: "(pubkey, ArchivedAccount) hashmap"
  total_archived :: u64
  total_archived_bytes :: u64
  total_revived :: u64

definition ArchiveIndex_new :: ArchiveIndex where
  "ArchiveIndex_new = \<lparr> ix_entries = [], total_archived = 0, total_archived_bytes = 0, total_revived = 0 \<rparr>"

definition index_insert :: "ArchivedAccount \<Rightarrow> ArchiveIndex \<Rightarrow> ArchiveIndex" where
  "index_insert archived ix = ix
     \<lparr> total_archived := sat_add 64 (total_archived ix) 1,
       total_archived_bytes := sat_add 64 (total_archived_bytes ix) (ar_data_len archived),
       ix_entries := hm_insert (ar_pubkey archived) archived (ix_entries ix) \<rparr>"

definition index_get :: "ArchiveIndex \<Rightarrow> pubkey \<Rightarrow> ArchivedAccount option" where
  "index_get ix k = hm_get (ix_entries ix) k"

definition index_remove :: "pubkey \<Rightarrow> ArchiveIndex \<Rightarrow> ArchiveIndex \<times> ArchivedAccount option" where
  "index_remove k ix =
     (case hm_get (ix_entries ix) k of
        Some archived \<Rightarrow>
          (ix\<lparr> ix_entries := AList.delete k (ix_entries ix), total_revived := sat_add 64 (total_revived ix) 1 \<rparr>, Some archived)
      | None \<Rightarrow> (ix, None))"

definition index_is_archived :: "ArchiveIndex \<Rightarrow> pubkey \<Rightarrow> bool" where
  "index_is_archived ix k = (hm_get (ix_entries ix) k \<noteq> None)"

definition index_len :: "ArchiveIndex \<Rightarrow> nat" where
  "index_len ix = length (ix_entries ix)"

definition get_archive_proof :: "pubkey \<Rightarrow> ArchiveIndex \<Rightarrow> MerkleProof option" where
  "get_archive_proof k ix = Option.bind (index_get ix k) merkle_proof"

section \<open>Encoding\<close>

datatype io_error = NotFound | InvalidData string | OsError string

definition hash_input :: "pubkey \<Rightarrow> AccountSharedData \<Rightarrow> bytes" where
  "hash_input k a = k @ le_bytes 8 (int (lamports a)) @ owner a @ bool_byte (executable a) @ acc_data a"

definition compute_account_hash :: "(bytes \<Rightarrow> hash) \<Rightarrow> pubkey \<Rightarrow> AccountSharedData \<Rightarrow> hash" where
  "compute_account_hash sha k a = sha (hash_input k a)"

text \<open>\<^verbatim>\<open>format!("{:02x}", byte)\<close>.\<close>

definition hex_digit :: "nat \<Rightarrow> char" where
  "hex_digit n = ''0123456789abcdef'' ! n"

definition hex_byte :: "u8 \<Rightarrow> string" where
  "hex_byte b = [hex_digit (unat b div 16), hex_digit (unat b mod 16)]"

definition cold_storage_path_for_account :: "(pubkey \<Rightarrow> string) \<Rightarrow> pubkey \<Rightarrow> path \<Rightarrow> path" where
  "cold_storage_path_for_account show_key k base =
     base @ [hex_byte (k ! 0), hex_byte (k ! 1), show_key k @ ''.bin'']"

definition serialize_account_for_cold_storage :: "AccountSharedData \<Rightarrow> bytes" where
  "serialize_account_for_cold_storage a =
     le_bytes 8 (int (lamports a)) @ owner a @ bool_byte (executable a) @ le_bytes 8 (int (length (acc_data a))) @ acc_data a"

text \<open>
  The sum \<^verbatim>\<open>49 + data_len\<close> wraps; the slice \<^verbatim>\<open>data[49..49 + data_len]\<close> panics when it ends before 49.
\<close>

definition deserialize_account_from_cold_storage :: "u64 \<Rightarrow> bytes \<Rightarrow> (io_error + AccountSharedData) option" where
  "deserialize_account_from_cold_storage re data =
     (if length data < 49 then Some (Inl (InvalidData ''Cold storage data too short''))
      else let data_len = u_field 41 8 data; stop = wadd 64 49 data_len in
        if length data < stop then Some (Inl (InvalidData ''Cold storage data truncated''))
        else if stop < 49 then None
        else Some (Inr \<lparr> lamports = u_field 0 8 data, acc_data = field 49 (stop - 49) data, owner = field 8 32 data,
                         executable = (data ! 40 \<noteq> 0), rent_epoch = re \<rparr>))"

definition system_programs :: "pubkey list" where
  "system_programs =
     [replicate 32 0,
      [2, 168, 246, 145, 78, 136, 161, 107, 189, 35, 149, 133, 95, 100, 4, 217, 180, 244,
       86, 183, 130, 27, 176, 20, 87, 73, 66, 140, 0, 0, 0, 0],
      [6, 221, 246, 225, 215, 101, 161, 147, 217, 203, 225, 70, 206, 235, 121, 172, 28,
       180, 133, 237, 95, 91, 55, 145, 58, 140, 245, 133, 126, 255, 0, 169],
      [6, 161, 216, 23, 145, 55, 84, 42, 152, 52, 55, 189, 254, 42, 122, 178, 85, 127, 83,
       92, 138, 120, 114, 43, 104, 164, 157, 192, 0, 0, 0, 0]]"

definition is_system_program :: "pubkey \<Rightarrow> bool" where
  "is_system_program k = list_ex (\<lambda>sp. k = sp) system_programs"

section \<open>Archival and revival\<close>

definition check_rent_expiry :: "AccountSharedData \<Rightarrow> u64 \<Rightarrow> u64 \<Rightarrow> StateRentConfig \<Rightarrow> bool" where
  "check_rent_expiry account last_active_slot current_slot config =
     (if length (acc_data account) < MIN_ARCHIVAL_DATA_SIZE then False
      else if lamports account = 0 then False
      else if exempt_system_programs config \<and> is_system_program (owner account) then False
      else let inactive_slots = current_slot - last_active_slot;
               inactive_days = inactive_slots div ESTIMATED_SLOTS_PER_DAY
           in inactive_days \<ge> archive_after_days config)"

type_synonym files = "path \<rightharpoonup> bytes"

text \<open>
  What the operating system does with the calls of one archival: whether creating the directory fails,
  and whether the write fails and then what the file holds.
\<close>

record io_outcome =
  mkdir_error :: "io_error option"
  write_error :: "(io_error \<times> bytes option) option"

definition archive_account ::
    "(bytes \<Rightarrow> hash) \<Rightarrow> (pubkey \<Rightarrow> string) \<Rightarrow> io_outcome \<Rightarrow> u64 \<Rightarrow> pubkey \<Rightarrow> AccountSharedData \<Rightarrow> u64 \<Rightarrow> u64 \<Rightarrow>
     StateRentConfig \<Rightarrow> files \<Rightarrow> files \<times> (io_error + ArchivedAccount)" where
  "archive_account sha show_key io timestamp k account current_slot current_epoch config fs =
     (let account_hash = compute_account_hash sha k account;
          path = cold_storage_path_for_account show_key k (cold_storage_path config)
      in case mkdir_error io of
           Some e \<Rightarrow> (fs, Inl e)
         | None \<Rightarrow>
             let serialized = serialize_account_for_cold_storage account
             in case write_error io of
                  Some (e, left) \<Rightarrow> (fs(path := left), Inl e)
                | None \<Rightarrow>
                    (fs(path \<mapsto> serialized),
                     Inr \<lparr> ar_pubkey = k, archive_slot = current_slot, archive_epoch = current_epoch,
                           account_hash = account_hash, lamports_at_archive = lamports account,
                           ar_data_len = length (acc_data account), ar_owner = owner account,
                           ar_executable = executable account, archive_timestamp = timestamp,
                           storage_path = path, merkle_proof = None \<rparr>))"

datatype RevivalError =
  RevivalDisabled
| InsufficientRentDeposit u64 u64
| StorageError io_error
| IntegrityCheckFailed hash hash
| MerkleProofFailed

definition fs_read :: "io_error option \<Rightarrow> path \<Rightarrow> files \<Rightarrow> io_error + bytes" where
  "fs_read fault p fs = (case fault of Some e \<Rightarrow> Inl e | None \<Rightarrow> (case fs p of None \<Rightarrow> Inl NotFound | Some b \<Rightarrow> Inr b))"

definition revive_account ::
    "(bytes \<Rightarrow> hash) \<Rightarrow> u64 \<Rightarrow> io_error option \<Rightarrow> files \<Rightarrow> ArchivedAccount \<Rightarrow> u64 \<Rightarrow> StateRentConfig \<Rightarrow>
     (RevivalError + AccountSharedData) option" where
  "revive_account sha re fault fs archived rent_deposit config =
     (if \<not> allow_revival config then Some (Inl RevivalDisabled)
      else let min_deposit = revival_deposit config (ar_data_len archived) in
        if rent_deposit < min_deposit then Some (Inl (InsufficientRentDeposit min_deposit rent_deposit))
        else case fs_read fault (storage_path archived) fs of
               Inl e \<Rightarrow> Some (Inl (StorageError e))
             | Inr serialized \<Rightarrow>
                 (case deserialize_account_from_cold_storage re serialized of
                    None \<Rightarrow> None
                  | Some (Inl e) \<Rightarrow> Some (Inl (StorageError e))
                  | Some (Inr account) \<Rightarrow>
                      let computed_hash = compute_account_hash sha (ar_pubkey archived) account in
                      if computed_hash \<noteq> account_hash archived
                      then Some (Inl (IntegrityCheckFailed (account_hash archived) computed_hash))
                      else case merkle_proof archived of
                             Some p \<Rightarrow> if \<not> merkle_verify sha p computed_hash then Some (Inl MerkleProofFailed)
                                       else Some (Inr account)
                           | None \<Rightarrow> Some (Inr account)))"

section \<open>Round trip\<close>

text \<open>The sizes of an account: a balance of 64 bits, a key of 32 bytes, a data buffer that can exist.\<close>

definition account_ok :: "AccountSharedData \<Rightarrow> bool" where
  "account_ok a \<longleftrightarrow> lamports a < 2 ^ 64 \<and> length (owner a) = 32 \<and> length (acc_data a) < 2 ^ 63"

lemma nth_bool_byte: "length xs = n \<Longrightarrow> (xs @ bool_byte b @ ys) ! n \<noteq> 0 \<longleftrightarrow> b"
  by (simp add: nth_append bool_byte_def)

lemma cold_storage_roundtrip:
  assumes "account_ok a"
  shows "deserialize_account_from_cold_storage re (serialize_account_for_cold_storage a @ rest) = Some (Inr (a\<lparr> rent_epoch := re \<rparr>))"
proof -
  let ?n = "length (acc_data a)" and ?d = "serialize_account_for_cold_storage a @ rest"
  have a: "lamports a < 256 ^ 8" "length (owner a) = 32" "?n < 256 ^ 8" "?n < 2 ^ 63" using assms by (simp_all add: account_ok_def)
  have l: "length ?d = 49 + ?n + length rest" using a by (simp add: serialize_account_for_cold_storage_def)
  have f: "u_field 0 8 ?d = lamports a" "field 8 32 ?d = owner a" "u_field 41 8 ?d = ?n" "field 49 ?n ?d = acc_data a"
    using a by (simp_all add: serialize_account_for_cold_storage_def read_fields)
  have e: "?d ! 40 \<noteq> 0 \<longleftrightarrow> executable a"
    using nth_bool_byte [of "le_bytes 8 (int (lamports a)) @ owner a" 40 "executable a"] a(2)
    by (simp add: serialize_account_for_cold_storage_def)
  have w: "wadd 64 49 ?n = 49 + ?n" using a(4) by (intro wadd_exact) simp
  show ?thesis unfolding deserialize_account_from_cold_storage_def Let_def f e w using l f by simp
qed

lemma hash_input_inj:
  assumes "account_ok a" "length (owner b) = 32" "lamports b < 2 ^ 64" "hash_input k a = hash_input k b"
  shows "a\<lparr> rent_epoch := r \<rparr> = b\<lparr> rent_epoch := r \<rparr>"
proof -
  have e: "le_bytes 8 (int (lamports a)) = le_bytes 8 (int (lamports b))" "owner a = owner b" "executable a = executable b" "acc_data a = acc_data b"
    using assms by (simp_all add: hash_input_def account_ok_def bool_byte_def append_eq_append_conv split: if_splits)
  have "lamports a = lamports b"
  proof -
    have "int (lamports a) mod 256 ^ 8 = int (lamports b) mod 256 ^ 8" using e(1) by (metis le_val_le_bytes)
    then show ?thesis using assms(1,3) by (simp add: account_ok_def)
  qed
  with e show ?thesis by (cases a; cases b) simp
qed

lemma deserialized_sizes:
  assumes "deserialize_account_from_cold_storage re data = Some (Inr a)"
  shows "length (owner a) = 32" "lamports a < 2 ^ 64" "rent_epoch a = re"
  using assms u_field_range [of 0 8 data]
  by (auto simp: deserialize_account_from_cold_storage_def Let_def field_def split: if_splits)

lemma archived_file:
  assumes "archive_account sha show_key io ts k account slot ep config fs = (fs', Inr ar)"
  shows "fs' = fs(storage_path ar \<mapsto> serialize_account_for_cold_storage account)"
    "ar_pubkey ar = k" "account_hash ar = compute_account_hash sha k account" "ar_data_len ar = length (acc_data account)"
    "merkle_proof ar = None" "storage_path ar = cold_storage_path_for_account show_key k (cold_storage_path config)"
  using assms by (auto simp: archive_account_def Let_def split: option.splits)

lemma revive_archived:
  assumes "archive_account sha show_key io ts k account slot ep config fs = (fs', Inr ar)" "account_ok account"
    and "fs'' (storage_path ar) = Some (serialize_account_for_cold_storage account)"
    and "allow_revival config'" "revival_deposit config' (length (acc_data account)) \<le> deposit"
  shows "revive_account sha re None fs'' ar deposit config' = Some (Inr (account\<lparr> rent_epoch := re \<rparr>))"
proof -
  have d: "deserialize_account_from_cold_storage re (serialize_account_for_cold_storage account) = Some (Inr (account\<lparr> rent_epoch := re \<rparr>))"
    using cold_storage_roundtrip [OF assms(2), of re "[]"] by simp
  have "compute_account_hash sha k (account\<lparr> rent_epoch := re \<rparr>) = compute_account_hash sha k account"
    by (simp add: compute_account_hash_def hash_input_def)
  then show ?thesis using assms(3-5) archived_file [OF assms(1)] d
    by (simp add: revive_account_def fs_read_def Let_def)
qed

text \<open>
  C30: A revival returns the archived account. Whatever the cold storage holds by then, if the revival of an
  archived account succeeds it returns the account as it was archived, with the rent epoch of a new
  account, or the bytes hashed for the returned and for the archived account are a collision of SHA-256.
\<close>

theorem revival_returns_archived:
  assumes "archive_account sha show_key io ts k account slot ep config fs = (fs', Inr ar)" "account_ok account"
    and "revive_account sha re fault fs'' ar deposit config' = Some (Inr a)"
  shows "a = account\<lparr> rent_epoch := re \<rparr>
    \<or> hash_input k a \<noteq> hash_input k account \<and> sha (hash_input k a) = sha (hash_input k account)"
proof -
  obtain data where d: "deserialize_account_from_cold_storage re data = Some (Inr a)"
    and h: "compute_account_hash sha k a = compute_account_hash sha k account"
    using assms(3) archived_file [OF assms(1)]
    by (auto simp: revive_account_def Let_def split: if_splits sum.splits option.splits)
  note s = deserialized_sizes [OF d]
  show ?thesis
  proof (cases "hash_input k a = hash_input k account")
    case True
    have "account\<lparr> rent_epoch := re \<rparr> = a\<lparr> rent_epoch := re \<rparr>"
      using hash_input_inj [OF assms(2) s(1,2) True [symmetric]] .
    then show ?thesis using s(3) by simp
  next
    case False
    then show ?thesis using h by (simp add: compute_account_hash_def)
  qed
qed

definition cold_example :: AccountSharedData where
  "cold_example = \<lparr> lamports = 5, acc_data = replicate 128 7, owner = replicate 32 9, executable = True, rent_epoch = 3 \<rparr>"

theorem revival_returns_archived_witness:
  "\<exists>fs' ar a. archive_account (\<lambda>b. b) (\<lambda>k. ''key'') \<lparr> mkdir_error = None, write_error = None \<rparr> 0 (replicate 32 1) cold_example 10 0
       rent_for_testing Map.empty = (fs', Inr ar)
    \<and> revive_account (\<lambda>b. b) 0 None fs' ar 256000 rent_for_testing = Some (Inr a) \<and> a = cold_example\<lparr> rent_epoch := 0 \<rparr>"
proof -
  obtain fs' ar where ar: "archive_account (\<lambda>b. b) (\<lambda>k. ''key'') \<lparr> mkdir_error = None, write_error = None \<rparr> 0 (replicate 32 1)
      cold_example 10 0 rent_for_testing Map.empty = (fs', Inr ar)"
    by (simp add: archive_account_def Let_def)
  have ok: "account_ok cold_example" by (simp add: account_ok_def cold_example_def)
  have "revival_deposit rent_for_testing (length (acc_data cold_example)) = 256000"
    by (simp add: revival_deposit_def calculate_rent_def rent_for_testing_def cold_example_def MIN_REVIVAL_RENT_YEARS_def sat_mul_def umax_def)
  then obtain a where a: "revive_account (\<lambda>b. b) 0 None fs' ar 256000 rent_for_testing = Some (Inr a)"
    using revive_archived [OF ar ok, of fs' rent_for_testing 256000 0] archived_file(1) [OF ar] by (simp add: rent_for_testing_def)
  from revival_returns_archived [OF ar ok a] have "a = cold_example\<lparr> rent_epoch := 0 \<rparr>" by auto
  with ar a show ?thesis by (intro exI conjI)
qed

section \<open>Merkle trees\<close>

text \<open>The tree over \<open>2 ^ d\<close> leaves, level by level, and the siblings along the path of a leaf.\<close>

fun pair_up :: "(bytes \<Rightarrow> hash) \<Rightarrow> hash list \<Rightarrow> hash list" where
  "pair_up sha (a # b # hs) = combine_hashes sha a b # pair_up sha hs"
| "pair_up sha hs = []"

fun merkle_root :: "(bytes \<Rightarrow> hash) \<Rightarrow> nat \<Rightarrow> hash list \<Rightarrow> hash" where
  "merkle_root sha 0 hs = hs ! 0"
| "merkle_root sha (Suc d) hs = merkle_root sha d (pair_up sha hs)"

fun merkle_path :: "(bytes \<Rightarrow> hash) \<Rightarrow> nat \<Rightarrow> hash list \<Rightarrow> nat \<Rightarrow> hash list" where
  "merkle_path sha 0 hs i = []"
| "merkle_path sha (Suc d) hs i =
     hs ! (if i mod 2 = 0 then i + 1 else i - 1) # merkle_path sha d (pair_up sha hs) (i div 2)"

text \<open>What is hashed on the way from a leaf to the root.\<close>

fun walk_inputs :: "(bytes \<Rightarrow> hash) \<Rightarrow> hash \<Rightarrow> nat \<Rightarrow> hash list \<Rightarrow> bytes list" where
  "walk_inputs sha h i [] = []"
| "walk_inputs sha h i (s # ss) =
     (let x = (if i mod 2 = 0 then h @ s else s @ h) in x # walk_inputs sha (sha x) (i div 2) ss)"

lemma pair_up_nth: "2 * j + 1 < length hs \<Longrightarrow> pair_up sha hs ! j = combine_hashes sha (hs ! (2 * j)) (hs ! (2 * j + 1))"
proof (induction sha hs arbitrary: j rule: pair_up.induct)
  case (1 sha a b hs)
  then show ?case by (cases j) auto
qed auto

lemma pair_up_length: "length (pair_up sha hs) = length hs div 2"
  by (induction sha hs rule: pair_up.induct) auto

lemma merkle_path_length [simp]: "length (merkle_path sha d hs i) = d"
  by (induction d arbitrary: hs i) auto

lemma merkle_complete:
  "length hs = 2 ^ d \<Longrightarrow> i < 2 ^ d \<Longrightarrow> walk_up sha (hs ! i) i (merkle_path sha d hs i) = merkle_root sha d hs"
proof (induction d arbitrary: hs i)
  case (Suc d)
  have "i div 2 < 2 ^ d" "length (pair_up sha hs) = 2 ^ d" using Suc.prems by (auto simp: pair_up_length)
  moreover have "pair_up sha hs ! (i div 2) =
      (if i mod 2 = 0 then combine_hashes sha (hs ! i) (hs ! (i + 1)) else combine_hashes sha (hs ! (i - 1)) (hs ! i))"
  proof (cases "even i")
    case True
    then obtain j where "i = 2 * j" by blast
    then show ?thesis using Suc.prems pair_up_nth [of j hs sha] by simp
  next
    case False
    then obtain j where "i = 2 * j + 1" by (rule oddE)
    then show ?thesis using Suc.prems pair_up_nth [of j hs sha] by simp
  qed
  ultimately show ?case using Suc.IH [of "pair_up sha hs" "i div 2"] by (auto split: if_splits)
qed simp

lemma walk_up_mod: "walk_up sha h i ss = walk_up sha h (i mod 2 ^ length ss) ss"
  "walk_inputs sha h i ss = walk_inputs sha h (i mod 2 ^ length ss) ss"
proof -
  have m: "i mod (2 * m) mod 2 = i mod 2" "i mod (2 * m) div 2 = i div 2 mod m" for i m :: nat
    by (simp_all add: mod_mod_cancel mod_mult2_eq)
  show "walk_up sha h i ss = walk_up sha h (i mod 2 ^ length ss) ss"
  proof (induction ss arbitrary: h i)
    case (Cons s ss)
    let ?x = "if i mod 2 = 0 then combine_hashes sha h s else combine_hashes sha s h"
    have "walk_up sha h (i mod 2 ^ length (s # ss)) (s # ss) = walk_up sha ?x (i div 2 mod 2 ^ length ss) ss"
      unfolding walk_up.simps list.size add_Suc_right add_0_right power_Suc m ..
    then show ?case using Cons.IH [of ?x "i div 2"] by simp
  qed simp
  show "walk_inputs sha h i ss = walk_inputs sha h (i mod 2 ^ length ss) ss"
  proof (induction ss arbitrary: h i)
    case (Cons s ss)
    let ?x = "if i mod 2 = 0 then h @ s else s @ h"
    have "walk_inputs sha h (i mod 2 ^ length (s # ss)) (s # ss) = ?x # walk_inputs sha (sha ?x) (i div 2 mod 2 ^ length ss) ss"
      unfolding walk_inputs.simps list.size add_Suc_right add_0_right power_Suc m Let_def ..
    moreover have "walk_inputs sha h i (s # ss) = ?x # walk_inputs sha (sha ?x) (i div 2) ss" by (simp only: walk_inputs.simps Let_def)
    ultimately show ?case using Cons.IH [of "sha ?x" "i div 2"] by (simp only:)
  qed simp
qed

lemma walk_up_collision:
  assumes "walk_up sha h i ss = walk_up sha h' i ss'" "length ss = length ss'"
    and "\<forall>b. length (sha b) = 32" "length h = 32" "length h' = 32" "\<forall>s\<in>set ss \<union> set ss'. length s = 32"
  shows "h = h' \<or> (\<exists>j < length ss. walk_inputs sha h i ss ! j \<noteq> walk_inputs sha h' i ss' ! j
    \<and> sha (walk_inputs sha h i ss ! j) = sha (walk_inputs sha h' i ss' ! j))"
  using assms(1,2,4,5,6)
proof (induction ss arbitrary: h h' i ss')
  case (Cons s ss)
  obtain s' ts where t: "ss' = s' # ts" using Cons.prems(2) by (cases ss') auto
  define x where "x = (if i mod 2 = 0 then h @ s else s @ h)"
  define y where "y = (if i mod 2 = 0 then h' @ s' else s' @ h')"
  have w: "walk_inputs sha h i (s # ss) = x # walk_inputs sha (sha x) (i div 2) ss"
    "walk_inputs sha h' i ss' = y # walk_inputs sha (sha y) (i div 2) ts"
    by (simp_all add: t x_def y_def Let_def)
  have "walk_up sha (sha x) (i div 2) ss = walk_up sha (sha y) (i div 2) ts"
    using Cons.prems(1) by (cases "i mod 2 = 0") (simp_all add: t x_def y_def combine_hashes_def)
  from Cons.IH [OF this] Cons.prems assms(3) t
  consider "sha x = sha y" | j where "j < length ss" "walk_inputs sha (sha x) (i div 2) ss ! j \<noteq> walk_inputs sha (sha y) (i div 2) ts ! j"
    "sha (walk_inputs sha (sha x) (i div 2) ss ! j) = sha (walk_inputs sha (sha y) (i div 2) ts ! j)" by auto
  then show ?case
  proof cases
    case 1
    show ?thesis
    proof (cases "x = y")
      case True
      then have "h = h'" using Cons.prems t by (auto simp: x_def y_def split: if_splits)
      then show ?thesis ..
    next
      case False
      then show ?thesis using 1 unfolding w by (intro disjI2 exI [of _ 0]) simp
    qed
  next
    case (2 j)
    then show ?thesis unfolding w by (intro disjI2 exI [of _ "Suc j"]) simp
  qed
qed simp

lemma pair_up_sizes: "\<forall>b. length (sha b) = 32 \<Longrightarrow> h \<in> set (pair_up sha hs) \<Longrightarrow> length h = 32"
  by (induction sha hs rule: pair_up.induct) (auto simp: combine_hashes_def)

lemma merkle_path_sizes:
  "length hs = 2 ^ d \<Longrightarrow> i < 2 ^ d \<Longrightarrow> \<forall>b. length (sha b) = 32 \<Longrightarrow> \<forall>h\<in>set hs. length h = 32 \<Longrightarrow>
   s \<in> set (merkle_path sha d hs i) \<Longrightarrow> length s = 32"
proof (induction d arbitrary: hs i)
  case (Suc d)
  have "(if i mod 2 = 0 then i + 1 else i - 1) < length hs"
  proof (cases "even i")
    case True
    then have "i + 1 \<noteq> 2 ^ Suc d" by (metis even_Suc even_power Suc_eq_plus1 even_numeral zero_less_Suc)
    then show ?thesis using Suc.prems True by (auto simp: even_iff_mod_2_eq_zero)
  qed (use Suc.prems in \<open>auto simp: even_iff_mod_2_eq_zero\<close>)
  then have "length (hs ! (if i mod 2 = 0 then i + 1 else i - 1)) = 32" using Suc.prems(4) by simp
  moreover have "length s = 32" if "s \<in> set (merkle_path sha d (pair_up sha hs) (i div 2))"
    using that Suc.prems pair_up_sizes [OF Suc.prems(3)]
    by (intro Suc.IH [of "pair_up sha hs" "i div 2"]) (auto simp: pair_up_length)
  ultimately show ?case using Suc.prems(5) by (auto split: if_splits)
qed simp

text \<open>A check that walks up from a node of a tree with \<open>2 ^ d\<close> leaves.\<close>

lemma merkle_walk:
  assumes "length ls = 2 ^ d" "\<forall>b. length (sha b) = 32" "\<forall>l\<in>set ls. length l = 32"
    and "length ss = d" "length h = 32" "\<forall>s\<in>set ss. length s = 32" "i < 2 ^ d"
  shows "h = ls ! i \<and> ss = merkle_path sha d ls i \<Longrightarrow> walk_up sha h i ss = merkle_root sha d ls"
    and "walk_up sha h i ss = merkle_root sha d ls \<Longrightarrow> h = ls ! i \<or>
      (\<exists>j < d. walk_inputs sha h i ss ! j \<noteq> walk_inputs sha (ls ! i) i (merkle_path sha d ls i) ! j
        \<and> sha (walk_inputs sha h i ss ! j) = sha (walk_inputs sha (ls ! i) i (merkle_path sha d ls i) ! j))"
proof -
  have root: "walk_up sha (ls ! i) i (merkle_path sha d ls i) = merkle_root sha d ls"
    using merkle_complete [OF assms(1,7)] .
  then show "h = ls ! i \<and> ss = merkle_path sha d ls i \<Longrightarrow> walk_up sha h i ss = merkle_root sha d ls" by simp
  have "length (ls ! i) = 32" "\<forall>s\<in>set ss \<union> set (merkle_path sha d ls i). length s = 32"
    using assms(1,3,6,7) merkle_path_sizes [OF assms(1,7,2,3)] by auto
  then show "walk_up sha h i ss = merkle_root sha d ls \<Longrightarrow> h = ls ! i \<or>
      (\<exists>j < d. walk_inputs sha h i ss ! j \<noteq> walk_inputs sha (ls ! i) i (merkle_path sha d ls i) ! j
        \<and> sha (walk_inputs sha h i ss ! j) = sha (walk_inputs sha (ls ! i) i (merkle_path sha d ls i) ! j))"
    using root walk_up_collision [of sha h i ss "ls ! i" "merkle_path sha d ls i"] assms(2,4,5) by simp
qed

text \<open>The nodes at height \<open>k\<close>; height 0 are the leaves.\<close>

definition merkle_level :: "(bytes \<Rightarrow> hash) \<Rightarrow> nat \<Rightarrow> hash list \<Rightarrow> hash list" where
  "merkle_level sha k hs = (pair_up sha ^^ k) hs"

lemma merkle_level_Suc: "merkle_level sha (Suc k) hs = merkle_level sha k (pair_up sha hs)"
  by (simp add: merkle_level_def funpow_Suc_right del: funpow.simps)

lemma merkle_level_0 [simp]: "merkle_level sha 0 hs = hs"
  by (simp add: merkle_level_def)

lemma merkle_level_root: "merkle_root sha (k + n) hs = merkle_root sha n (merkle_level sha k hs)"
  by (induction k arbitrary: hs) (simp_all add: merkle_level_Suc)

lemma merkle_level_length: "length hs = 2 ^ (k + n) \<Longrightarrow> length (merkle_level sha k hs) = 2 ^ n"
  by (induction k arbitrary: hs) (simp_all add: merkle_level_Suc pair_up_length)

lemma merkle_level_sizes:
  "\<forall>b. length (sha b) = 32 \<Longrightarrow> \<forall>h\<in>set hs. length h = 32 \<Longrightarrow> \<forall>h\<in>set (merkle_level sha k hs). length h = 32"
proof (induction k arbitrary: hs)
  case (Suc k)
  have "\<forall>h\<in>set (pair_up sha hs). length h = 32" using pair_up_sizes [OF Suc.prems(1)] by blast
  then show ?case unfolding merkle_level_Suc using Suc by blast
qed simp

lemma walk_up_append: "walk_up sha h i (ss @ ts) = walk_up sha (walk_up sha h i ss) (i div 2 ^ length ss) ts"
  by (induction ss arbitrary: h i) (simp_all add: div_mult2_eq)

lemma walk_up_size: "\<forall>b. length (sha b) = 32 \<Longrightarrow> length h = 32 \<Longrightarrow> length (walk_up sha h i ss) = 32"
  by (induction ss arbitrary: h i) (simp_all add: combine_hashes_def)

text \<open>
  C31: What the check of a Merkle proof accepts. Take the tree over \<open>2 ^ d\<close> leaf hashes and a proof that claims
  its root. A proof with \<open>d\<close> siblings is checked correctly: the leaf at the index of the proof is accepted with
  the siblings of its path, and whenever a hash is accepted, it is that leaf, or on some level the bytes hashed
  by the check and those of the tree are a collision of SHA-256. The check does not compare the number of siblings with the
  depth of the tree. With \<open>n < d\<close> siblings it accepts in the same way the node at height \<open>d - n\<close>, an inner node, and with
  no siblings the root, as if they were leaves. With \<open>k\<close> siblings more than \<open>d\<close> it accepts a hash \<open>h\<close> from which the first \<open>k\<close>
  siblings lead to the leaf.
\<close>

theorem merkle_verify_correct:
  assumes "length ls = 2 ^ d" "\<forall>b. length (sha b) = 32" "\<forall>l\<in>set ls. length l = 32"
    and "root_hash p = merkle_root sha d ls" "length h = 32" "\<forall>s\<in>set (proof_hashes p). length s = 32"
    and "n = min d (length (proof_hashes p))" "k = length (proof_hashes p) - d"
    and "nodes = merkle_level sha (d - n) ls" "i = leaf_index p div 2 ^ k mod 2 ^ n"
    and "x = walk_up sha h (leaf_index p) (take k (proof_hashes p))" "ss = drop k (proof_hashes p)"
  shows "(h = leaf_hash p \<and> x = nodes ! i \<and> ss = merkle_path sha n nodes i \<longrightarrow> merkle_verify sha p h)
    \<and> (merkle_verify sha p h \<longrightarrow> h = leaf_hash p \<and> (x = nodes ! i \<or>
        (let xs = walk_inputs sha x i ss; ys = walk_inputs sha (nodes ! i) i (merkle_path sha n nodes i) in
         \<exists>j < n. xs ! j \<noteq> ys ! j \<and> sha (xs ! j) = sha (ys ! j))))"
proof -
  have d: "d = d - n + n" and ss: "length ss = n" "\<forall>s\<in>set ss. length s = 32" "length (take k (proof_hashes p)) = k"
    using assms(6,7,8,12) by (auto simp: min_def dest: in_set_dropD)
  have nodes: "length nodes = 2 ^ n" "\<forall>l\<in>set nodes. length l = 32" "root_hash p = merkle_root sha n nodes"
    using merkle_level_length [of ls "d - n" n sha] merkle_level_sizes [OF assms(2,3), of "d - n"]
      merkle_level_root [of sha "d - n" n ls] assms(1,4,9) d by auto
  have x: "length x = 32" using walk_up_size [OF assms(2,5)] assms(11) by simp
  have "walk_up sha h (leaf_index p) (proof_hashes p) = walk_up sha x (leaf_index p div 2 ^ k) ss"
    using walk_up_append [of sha h "leaf_index p" "take k (proof_hashes p)" ss] ss(3) assms(11,12) by simp
  also have "\<dots> = walk_up sha x i ss" using walk_up_mod(1) [of sha x "leaf_index p div 2 ^ k" ss] ss(1) assms(10) by simp
  finally have v: "merkle_verify sha p h \<longleftrightarrow> h = leaf_hash p \<and> walk_up sha x i ss = merkle_root sha n nodes"
    using nodes(3) by (auto simp: merkle_verify_def)
  have "i < 2 ^ n" using assms(10) by simp
  note w = merkle_walk [OF nodes(1) assms(2) nodes(2) ss(1) x ss(2) this]
  show ?thesis using v w unfolding Let_def by blast
qed

definition pad_hash :: "bytes \<Rightarrow> hash" where
  "pad_hash b = take 32 (b @ replicate 32 0)"

definition example_proof :: MerkleProof where
  "example_proof = \<lparr> leaf_hash = replicate 32 2, proof_hashes = [replicate 32 1], root_hash = replicate 32 1, proof_slot = 0, leaf_index = 1 \<rparr>"

text \<open>The root passes as a leaf of its own tree.\<close>

theorem merkle_verify_correct_witness:
  "merkle_root pad_hash 1 [replicate 32 1, replicate 32 2] = replicate 32 1 \<and>
   merkle_verify pad_hash example_proof (replicate 32 2) \<and>
   merkle_verify pad_hash (example_proof\<lparr> leaf_hash := replicate 32 1, proof_hashes := [] \<rparr>) (replicate 32 1)"
proof -
  let ?ls = "[replicate 32 1, replicate 32 2] :: hash list"
  have r: "merkle_root pad_hash 1 ?ls = replicate 32 1"
    by (simp add: pad_hash_def combine_hashes_def)
  have s: "\<forall>b. length (pad_hash b) = 32" by (auto simp: pad_hash_def min_def)
  let ?p = "example_proof\<lparr> leaf_hash := replicate 32 1, proof_hashes := [] \<rparr>"
  have "merkle_verify pad_hash example_proof (replicate 32 2)"
    by (rule merkle_verify_correct [of ?ls 1 pad_hash _ _ 1 0 ?ls 1 "replicate 32 2" "[replicate 32 1]", THEN conjunct1, THEN mp])
      (use r s in \<open>simp_all add: example_proof_def\<close>)
  moreover have "merkle_verify pad_hash ?p (replicate 32 1)"
    by (rule merkle_verify_correct [of ?ls 1 pad_hash _ _ 0 0 "[replicate 32 1]" 0 "replicate 32 1" "[]", THEN conjunct1, THEN mp])
      (use r s in \<open>simp_all add: example_proof_def merkle_level_def\<close>)
  ultimately show ?thesis using r by blast
qed

end
