(* ===== verification/Storage_Adapter.thy ===== *)
theory Storage_Adapter
  imports Cache_Properties Cold_Storage
begin

text \<open>
  The adapter that layers the hot cache and the archive on the account storage,
  \<^verbatim>\<open>accounts-db/src/trv1_storage_adapter.rs\<close>, and the loop of its background thread,
  \<^verbatim>\<open>accounts-db/src/trv1_maintenance.rs\<close>. An execution is a sequence of whole
  operations. The operations on the cache hold its lock throughout. Archiving writes the file without a lock and then
  takes the locks of the cache and of the index one after the other, so two threads that archive or load the same key at the
  same time may interleave within the operation; such interleavings are not modelled. The atomic counters wrap. The
  background thread is a sequence of maintenance ticks among these operations; its own loop is modelled
  with the exit signal as a function of the time (in nanoseconds), with sleeps that may take longer than
  asked for, and with the duration of a tick as an argument.

  Shown: no sequence of operations panics; an account that was archived can be revived unchanged until it is
  archived again, whatever else happens to the cache, to other accounts and to the disk writes of
  other archivals; the maintenance loop ends after the exit signal, ticks no more from then on, and its ticks
  are at least the interval apart.
\<close>

section \<open>The adapter\<close>

record AtomicTierStats =
  at_hot_hits :: u64
  at_hot_misses :: u64
  at_hot_inserts :: u64
  at_hot_evictions :: u64
  at_promotions :: u64
  at_cold_archives :: u64
  at_cold_revivals :: u64
  at_ticks :: u64

definition AtomicTierStats_default :: AtomicTierStats where
  "AtomicTierStats_default =
     \<lparr> at_hot_hits = 0, at_hot_misses = 0, at_hot_inserts = 0, at_hot_evictions = 0, at_promotions = 0,
       at_cold_archives = 0, at_cold_revivals = 0, at_ticks = 0 \<rparr>"

definition snapshot :: "AtomicTierStats \<Rightarrow> TierStats" where
  "snapshot s =
     (let hits = at_hot_hits s; misses = at_hot_misses s; n = sat_add 64 hits misses;
          (hit_rate, miss_rate) =
            (if n > 0 then (f64_div (f64_of_nat hits) (f64_of_nat n), f64_div (f64_of_nat misses) (f64_of_nat n)) else (0, 0))
      in TierStats_default
           \<lparr> total_hits := hits, total_misses := misses, cache_hit_rate := hit_rate, cache_miss_rate := miss_rate,
             hot_to_warm_demotions := at_hot_evictions s, warm_to_hot_promotions := at_promotions s,
             warm_to_cold_archives := at_cold_archives s, cold_revivals := at_cold_revivals s \<rparr>)"

record TRv1StorageAdapter =
  hot_cache :: AccountCache
  ad_config :: TieredStorageConfig
  rent_config :: StateRentConfig
  archive_index :: ArchiveIndex
  ad_stats :: AtomicTierStats

definition TRv1StorageAdapter_new :: "TieredStorageConfig \<Rightarrow> StateRentConfig \<Rightarrow> TRv1StorageAdapter" where
  "TRv1StorageAdapter_new config rent =
     \<lparr> hot_cache = AccountCache_new config, ad_config = config, rent_config = rent, archive_index = ArchiveIndex_new,
       ad_stats = AtomicTierStats_default \<rparr>"

definition hot_cache_get :: "instant \<Rightarrow> pubkey \<Rightarrow> TRv1StorageAdapter \<Rightarrow> (TRv1StorageAdapter \<times> AccountSharedData option) option" where
  "hot_cache_get now k ad =
     do { (c, r) \<leftarrow> cache_get now k (hot_cache ad);
          let s = ad_stats ad;
          Some (case r of
                  Some a \<Rightarrow> (ad\<lparr> hot_cache := c, ad_stats := s\<lparr> at_hot_hits := wadd 64 (at_hot_hits s) 1 \<rparr> \<rparr>, Some a)
                | None \<Rightarrow> (ad\<lparr> hot_cache := c, ad_stats := s\<lparr> at_hot_misses := wadd 64 (at_hot_misses s) 1 \<rparr> \<rparr>, None)) }"

definition hot_cache_insert :: "instant \<Rightarrow> pubkey \<Rightarrow> AccountSharedData \<Rightarrow> TRv1StorageAdapter \<Rightarrow> TRv1StorageAdapter option" where
  "hot_cache_insert now k account ad =
     do { c \<leftarrow> cache_insert now k account (hot_cache ad);
          let s = ad_stats ad;
          Some (ad\<lparr> hot_cache := c, ad_stats := s\<lparr> at_hot_inserts := wadd 64 (at_hot_inserts s) 1 \<rparr> \<rparr>) }"

definition hot_cache_remove :: "pubkey \<Rightarrow> TRv1StorageAdapter \<Rightarrow> (TRv1StorageAdapter \<times> AccountSharedData option) option" where
  "hot_cache_remove k ad =
     do { (c, r) \<leftarrow> cache_remove k (hot_cache ad); Some (ad\<lparr> hot_cache := c \<rparr>, r) }"

definition maybe_evict :: "TRv1StorageAdapter \<Rightarrow> (TRv1StorageAdapter \<times> (pubkey \<times> AccountSharedData) list) option" where
  "maybe_evict ad =
     (if needs_eviction (hot_cache ad)
      then do { (c, evicted) \<leftarrow> evict_to_warm (hot_cache ad);
                let s = ad_stats ad;
                Some (ad\<lparr> hot_cache := c, ad_stats := s\<lparr> at_hot_evictions := wadd 64 (at_hot_evictions s) (length evicted) \<rparr> \<rparr>, evicted) }
      else Some (ad, []))"

text \<open>The source leaves the check for expired accounts as a placeholder without effect.\<close>

definition check_and_archive_expired_accounts :: "u64 \<Rightarrow> u64 \<Rightarrow> TRv1StorageAdapter \<Rightarrow> TRv1StorageAdapter" where
  "check_and_archive_expired_accounts current_slot current_epoch ad = ad"

definition maintenance_tick :: "u64 \<Rightarrow> u64 \<Rightarrow> TRv1StorageAdapter \<Rightarrow> TRv1StorageAdapter option" where
  "maintenance_tick current_slot current_epoch ad =
     do { let s = ad_stats ad;
          (ad, evicted) \<leftarrow> maybe_evict (ad\<lparr> ad_stats := s\<lparr> at_ticks := wadd 64 (at_ticks s) 1 \<rparr> \<rparr>);
          Some (if enable_state_rent_expiry (ad_config ad)
                then check_and_archive_expired_accounts current_slot current_epoch ad else ad) }"

definition archive_account_to_cold ::
    "(bytes \<Rightarrow> hash) \<Rightarrow> (pubkey \<Rightarrow> string) \<Rightarrow> io_outcome \<Rightarrow> u64 \<Rightarrow> pubkey \<Rightarrow> AccountSharedData \<Rightarrow> u64 \<Rightarrow> u64 \<Rightarrow> u64 \<Rightarrow>
     TRv1StorageAdapter \<Rightarrow> files \<Rightarrow> ((TRv1StorageAdapter \<times> files) \<times> bool) option" where
  "archive_account_to_cold sha show_key io timestamp k account last_active_slot current_slot current_epoch ad fs =
     (if \<not> check_rent_expiry account last_active_slot current_slot (rent_config ad) then Some ((ad, fs), False)
      else case archive_account sha show_key io timestamp k account current_slot current_epoch (rent_config ad) fs of
             (fs, Inr archived) \<Rightarrow>
               do { (ad, _) \<leftarrow> hot_cache_remove k ad;
                    let s = ad_stats ad;
                    Some ((ad\<lparr> archive_index := index_insert archived (archive_index ad),
                              ad_stats := s\<lparr> at_cold_archives := wadd 64 (at_cold_archives s) 1 \<rparr> \<rparr>, fs), True) }
           | (fs, Inl e) \<Rightarrow> Some ((ad, fs), False))"

definition ad_is_archived :: "pubkey \<Rightarrow> TRv1StorageAdapter \<Rightarrow> bool" where
  "ad_is_archived k ad = index_is_archived (archive_index ad) k"

definition tier_stats :: "TRv1StorageAdapter \<Rightarrow> TierStats" where
  "tier_stats ad = (snapshot (ad_stats ad))
     \<lparr> hot_accounts := hot_accounts (cache_stats (hot_cache ad)), hot_size_bytes := hot_size_bytes (cache_stats (hot_cache ad)),
       cold_accounts := index_len (archive_index ad) \<rparr>"

definition hot_cache_utilization :: "TRv1StorageAdapter \<Rightarrow> f64" where
  "hot_cache_utilization ad = cache_utilization (hot_cache ad)"

definition hot_cache_len :: "TRv1StorageAdapter \<Rightarrow> nat" where
  "hot_cache_len ad = cache_len (hot_cache ad)"

section \<open>Runs of the adapter\<close>

datatype adapter_op =
  Load instant pubkey
| Store instant pubkey AccountSharedData
| Discard pubkey
| Tick u64 u64
| Archive io_outcome u64 pubkey AccountSharedData u64 u64 u64

datatype adapter_result = Loaded "AccountSharedData option" | Stored | Archived bool

fun adapter_exec ::
    "(bytes \<Rightarrow> hash) \<Rightarrow> (pubkey \<Rightarrow> string) \<Rightarrow> adapter_op \<Rightarrow> TRv1StorageAdapter \<times> files \<Rightarrow>
     ((TRv1StorageAdapter \<times> files) \<times> adapter_result) option" where
  "adapter_exec sha sk (Load now k) (ad, fs) = do { (ad, r) \<leftarrow> hot_cache_get now k ad; Some ((ad, fs), Loaded r) }"
| "adapter_exec sha sk (Store now k a) (ad, fs) = do { ad \<leftarrow> hot_cache_insert now k a ad; Some ((ad, fs), Stored) }"
| "adapter_exec sha sk (Discard k) (ad, fs) = do { (ad, r) \<leftarrow> hot_cache_remove k ad; Some ((ad, fs), Loaded r) }"
| "adapter_exec sha sk (Tick slot ep) (ad, fs) = do { ad \<leftarrow> maintenance_tick slot ep ad; Some ((ad, fs), Stored) }"
| "adapter_exec sha sk (Archive io ts k a active slot ep) (ad, fs) =
     do { (s, r) \<leftarrow> archive_account_to_cold sha sk io ts k a active slot ep ad fs; Some (s, Archived r) }"

text \<open>The specification: the list of cached entries, the archive and the files.\<close>

fun adapter_spec ::
    "(bytes \<Rightarrow> hash) \<Rightarrow> (pubkey \<Rightarrow> string) \<Rightarrow> TieredStorageConfig \<Rightarrow> StateRentConfig \<Rightarrow> adapter_op \<Rightarrow>
     lru_list \<times> ArchiveIndex \<times> files \<Rightarrow> (lru_list \<times> ArchiveIndex \<times> files) \<times> adapter_result" where
  "adapter_spec sha sk cfg rent (Load now k) (xs, ix, fs) = (let (xs, r) = lru_get now k xs in ((xs, ix, fs), Loaded r))"
| "adapter_spec sha sk cfg rent (Store now k a) (xs, ix, fs) = ((lru_insert now k a xs, ix, fs), Stored)"
| "adapter_spec sha sk cfg rent (Discard k) (xs, ix, fs) = (let (xs, r) = lru_remove k xs in ((xs, ix, fs), Loaded r))"
| "adapter_spec sha sk cfg rent (Tick slot ep) (xs, ix, fs) =
     ((if total_size xs > eviction_watermark cfg then fst (lru_evict cfg xs) else xs, ix, fs), Stored)"
| "adapter_spec sha sk cfg rent (Archive io ts k a active slot ep) (xs, ix, fs) =
     (if \<not> check_rent_expiry a active slot rent then ((xs, ix, fs), Archived False)
      else case archive_account sha sk io ts k a slot ep rent fs of
             (fs, Inr ar) \<Rightarrow> ((fst (lru_remove k xs), index_insert ar ix, fs), Archived True)
           | (fs, Inl e) \<Rightarrow> ((xs, ix, fs), Archived False))"

fun adapter_cost :: "adapter_op \<Rightarrow> nat" where
  "adapter_cost (Load _ _) = 1"
| "adapter_cost (Store _ _ a) = 160 + length (acc_data a)"
| "adapter_cost _ = 0"

definition adapter_rel ::
    "TieredStorageConfig \<Rightarrow> StateRentConfig \<Rightarrow> nat \<Rightarrow> TRv1StorageAdapter \<times> files \<Rightarrow> lru_list \<times> ArchiveIndex \<times> files \<Rightarrow> bool" where
  "adapter_rel cfg rent b s t \<longleftrightarrow>
     cache_rel b (hot_cache (fst s)) (fst t) \<and> cache_config (hot_cache (fst s)) = cfg \<and> rent_config (fst s) = rent
     \<and> archive_index (fst s) = fst (snd t) \<and> snd s = snd (snd t)"

interpretation adapter: budgeted_simulation "adapter_exec sha sk" "adapter_spec sha sk cfg rent" "adapter_rel cfg rent"
    adapter_cost "umax 64" for sha sk cfg rent
proof
  fix b s t e
  assume r: "adapter_rel cfg rent b s t" and l: "b + adapter_cost e \<le> umax 64"
  obtain ad fs xs ix where s: "s = (ad, fs)" "t = (xs, ix, fs)" using r by (cases s; cases t) (auto simp: adapter_rel_def)
  have c: "cache_rel b (hot_cache ad) xs" "cache_config (hot_cache ad) = cfg" "rent_config ad = rent" "archive_index ad = ix"
    using r by (simp_all add: s adapter_rel_def)
  show "\<exists>s'. adapter_exec sha sk e s = Some (s', snd (adapter_spec sha sk cfg rent e t))
      \<and> adapter_rel cfg rent (b + adapter_cost e) s' (fst (adapter_spec sha sk cfg rent e t))"
  proof (cases e)
    case (Load now k)
    then show ?thesis using cache_get_rel [OF c(1), of now k] c l
      by (cases "snd (lru_get now k xs)") (auto simp: s hot_cache_get_def adapter_rel_def Let_def split: prod.splits)
  next
    case (Store now k a)
    then show ?thesis using cache_insert_rel [OF c(1), of a now k] c l
      by (auto simp: s hot_cache_insert_def adapter_rel_def Let_def)
  next
    case (Discard k)
    then show ?thesis using cache_remove_rel [OF c(1), of k] c
      by (auto simp: s hot_cache_remove_def adapter_rel_def split: prod.splits)
  next
    case (Tick slot ep)
    have "needs_eviction (hot_cache ad) \<longleftrightarrow> total_size xs > eviction_watermark cfg"
      using c(1,2) by (simp add: needs_eviction_def cache_rel_def cache_core_def)
    then show ?thesis using Tick evict_to_warm_rel [OF c(1)] c
      by (auto simp: s Let_def maintenance_tick_def maybe_evict_def check_and_archive_expired_accounts_def adapter_rel_def)
  next
    case (Archive io ts k a active slot ep)
    then show ?thesis using cache_remove_rel [OF c(1), of k] c
      by (auto simp: s Let_def archive_account_to_cold_def hot_cache_remove_def adapter_rel_def split: prod.splits sum.splits)
  qed
qed

section \<open>Archived accounts\<close>

fun archives :: "adapter_op \<Rightarrow> pubkey option" where
  "archives (Archive _ _ k _ _ _ _) = Some k"
| "archives _ = None"

definition kept :: "ArchivedAccount \<Rightarrow> AccountSharedData \<Rightarrow> lru_list \<times> ArchiveIndex \<times> files \<Rightarrow> bool" where
  "kept ar a t \<longleftrightarrow> index_get (fst (snd t)) (ar_pubkey ar) = Some ar
     \<and> snd (snd t) (storage_path ar) = Some (serialize_account_for_cold_storage a)"

lemma archive_other_file:
  assumes "inj sk" "k \<noteq> k'" "p = cold_storage_path_for_account sk k (cold_storage_path rent)"
  shows "fst (archive_account sha sk io ts k' a slot ep rent fs) p = fs p"
proof -
  have "sk k \<noteq> sk k'" using assms(1,2) by (simp add: inj_eq)
  then have "p \<noteq> cold_storage_path_for_account sk k' (cold_storage_path rent)"
    by (simp add: assms(3) cold_storage_path_for_account_def)
  then show ?thesis by (simp add: archive_account_def Let_def split: option.splits)
qed

lemma kept_step:
  assumes "inj sk" "kept ar a t" "archives e \<noteq> Some (ar_pubkey ar)"
    and "storage_path ar = cold_storage_path_for_account sk (ar_pubkey ar) (cold_storage_path rent)"
  shows "kept ar a (fst (adapter_spec sha sk cfg rent e t))"
proof -
  obtain xs ix fs where t: "t = (xs, ix, fs)" by (cases t)
  show ?thesis
  proof (cases e)
    case (Archive io ts k b active slot ep)
    have "ar_pubkey ar \<noteq> k" using assms(3) Archive by simp
    moreover from archive_other_file [OF assms(1) this assms(4)]
    have "fst (archive_account sha sk io ts k b slot ep rent fs) (storage_path ar) = fs (storage_path ar)" .
    moreover obtain fs' r where v: "archive_account sha sk io ts k b slot ep rent fs = (fs', r)" by (meson surj_pair)
    moreover have "ar_pubkey ar' = k" if "r = Inr ar'" for ar' using v that archived_file(2) by metis
    ultimately show ?thesis using assms(2)
      by (cases r) (auto simp: kept_def t Archive index_get_def index_insert_def)
  qed (use assms(2) in \<open>auto simp: kept_def t split: prod.splits\<close>)
qed

lemma kept_run:
  assumes "inj sk" "kept ar a t" "\<forall>e\<in>set es. archives e \<noteq> Some (ar_pubkey ar)"
    and "storage_path ar = cold_storage_path_for_account sk (ar_pubkey ar) (cold_storage_path rent)"
  shows "kept ar a (fst (spec_run (adapter_spec sha sk cfg rent) t es))"
  using assms(2,3)
proof (induction es arbitrary: t)
  case (Cons e es)
  have "kept ar a (fst (adapter_spec sha sk cfg rent e t))" using Cons.prems kept_step [OF assms(1) _ _ assms(4)] by simp
  from Cons.IH [OF this] Cons.prems(2) show ?case by (simp add: case_prod_unfold Let_def)
qed simp

lemma spec_run_append:
  "spec_run g a (xs @ ys) = (let (b, r) = spec_run g a xs; (c, r') = spec_run g b ys in (c, r @ r'))"
  by (induction xs arbitrary: a) (auto simp: Let_def split: prod.splits)

lemma spec_run_length: "length (snd (spec_run g a es)) = length es"
  by (induction es arbitrary: a) (auto simp: Let_def case_prod_unfold)

text \<open>
  C32: An archived account can be revived. Take any sequence of operations on a new adapter that stores less than
  \<open>2 ^ 64\<close> bytes in the cache: none of them panics, and if the archival of an account in this sequence
  succeeded and no later operation archives the same key again, then at the end the account is in
  the archive and every revival with a sufficient deposit returns it as it was archived, with the rent epoch of
  a new account. Distinct keys must have distinct texts.
\<close>

theorem archived_account_revivable:
  assumes "inj sk" "account_ok a" "\<forall>e\<in>set es'. archives e \<noteq> Some k"
    and "es0 = es @ Archive io ts k a active slot ep # es'" "sum_list (map adapter_cost es0) \<le> umax 64"
  shows "\<exists>ad fs rs. try_run (adapter_exec sha sk) (TRv1StorageAdapter_new cfg rent, fs0) es0 = Some ((ad, fs), rs)
    \<and> (rs ! length es = Archived True \<longrightarrow>
        (\<exists>ar. index_get (archive_index ad) k = Some ar
          \<and> (allow_revival rent \<longrightarrow> (\<forall>re deposit. revival_deposit rent (length (acc_data a)) \<le> deposit \<longrightarrow>
               revive_account sha re None fs ar deposit rent = Some (Inr (a\<lparr> rent_epoch := re \<rparr>))))))"
proof -
  let ?g = "adapter_spec sha sk cfg rent" and ?t0 = "([], ArchiveIndex_new, fs0)"
  let ?e = "Archive io ts k a active slot ep"
  have "adapter_rel cfg rent 0 (TRv1StorageAdapter_new cfg rent, fs0) ?t0"
    using new_cache_rel [of cfg] by (simp add: adapter_rel_def TRv1StorageAdapter_new_def AccountCache_new_def)
  from adapter.run_simulates [OF this, of es0 sha sk] assms(5) obtain ad fs
    where r: "try_run (adapter_exec sha sk) (TRv1StorageAdapter_new cfg rent, fs0) es0 = Some ((ad, fs), snd (spec_run ?g ?t0 es0))"
      "archive_index ad = fst (snd (fst (spec_run ?g ?t0 es0)))" "fs = snd (snd (fst (spec_run ?g ?t0 es0)))"
    by (auto simp: adapter_rel_def)
  obtain xs1 ix1 fs1 r1 where t1: "spec_run ?g ?t0 es = ((xs1, ix1, fs1), r1)" by (metis prod_cases3 surj_pair)
  have n: "length r1 = length es" using spec_run_length [of ?g ?t0 es] by (simp add: t1)
  obtain t2 o2 where t2: "?g ?e (xs1, ix1, fs1) = (t2, o2)" by (meson surj_pair)
  have run: "snd (spec_run ?g ?t0 es0) ! length es = o2" "fst (spec_run ?g ?t0 es0) = fst (spec_run ?g t2 es')"
    using n t2 by (simp_all add: assms(4) spec_run_append t1 nth_append split: prod.splits)
  have "\<exists>ar. index_get (archive_index ad) k = Some ar
      \<and> (allow_revival rent \<longrightarrow> (\<forall>re deposit. revival_deposit rent (length (acc_data a)) \<le> deposit \<longrightarrow>
           revive_account sha re None fs ar deposit rent = Some (Inr (a\<lparr> rent_epoch := re \<rparr>))))" if o2: "o2 = Archived True"
  proof -
    obtain fs2 ar where ar: "archive_account sha sk io ts k a slot ep rent fs1 = (fs2, Inr ar)"
      and s2: "t2 = (fst (lru_remove k xs1), index_insert ar ix1, fs2)"
      using t2 o2 by (auto split: if_splits prod.splits sum.splits)
    note f = archived_file [OF ar]
    have "kept ar a t2" using f by (simp add: kept_def s2 index_get_def index_insert_def)
    from kept_run [OF assms(1) this, of es' rent sha cfg] assms(3) f(2,6)
    have "kept ar a (fst (spec_run ?g ?t0 es0))" by (simp add: run(2))
    then have "index_get (archive_index ad) k = Some ar" "fs (storage_path ar) = Some (serialize_account_for_cold_storage a)"
      using r(2,3) f(2) by (simp_all add: kept_def)
    then show ?thesis using revive_archived [OF ar assms(2), of fs rent] by blast
  qed
  then show ?thesis using r(1) run(1) by auto
qed

definition raw_text :: "pubkey \<Rightarrow> string" where
  "raw_text k = map (\<lambda>b. char_of (uint b)) k"

lemma inj_raw_text: "inj raw_text"
proof -
  have "inj (\<lambda>b :: u8. char_of (uint b) :: char)"
  proof (rule injI)
    fix x y :: u8
    assume "(char_of (uint x) :: char) = char_of (uint y)"
    then have "uint x mod 256 = uint y mod 256" by (metis of_char_of)
    moreover have "uint z mod 256 = uint z" for z :: u8
      using uint_lt2p [of z] by (intro mod_pos_pos_trivial) simp_all
    ultimately show "x = y" by (metis word_uint_eqI)
  qed
  then show ?thesis unfolding raw_text_def [abs_def] by (rule inj_mapI)
qed

theorem archived_account_revivable_witness:
  "\<exists>ad fs rs ar. try_run (adapter_exec (\<lambda>b. b) raw_text) (TRv1StorageAdapter_new storage_for_testing rent_for_testing, Map.empty)
       [Archive \<lparr> mkdir_error = None, write_error = None \<rparr> 0 (replicate 32 1) cold_example 0 300000 0, Tick 0 0] = Some ((ad, fs), rs)
    \<and> index_get (archive_index ad) (replicate 32 1) = Some ar
    \<and> revive_account (\<lambda>b. b) 0 None fs ar 256000 rent_for_testing = Some (Inr (cold_example\<lparr> rent_epoch := 0 \<rparr>))"
proof -
  let ?io = "\<lparr> mkdir_error = None, write_error = None \<rparr>" and ?k = "replicate 32 1 :: pubkey"
  let ?es = "[Archive ?io 0 ?k cold_example 0 300000 0, Tick 0 0]"
  let ?run = "try_run (adapter_exec (\<lambda>b. b) raw_text) (TRv1StorageAdapter_new storage_for_testing rent_for_testing, Map.empty) ?es"
  have ok: "account_ok cold_example" by (simp add: account_ok_def cold_example_def)
  have "check_rent_expiry cold_example 0 300000 rent_for_testing"
    by (simp add: check_rent_expiry_def cold_example_def rent_for_testing_def MIN_ARCHIVAL_DATA_SIZE_def ESTIMATED_SLOTS_PER_DAY_def)
  then have out: "rs ! 0 = Archived True" if "?run = Some (s, rs)" for s rs
    using that by (auto simp: archive_account_to_cold_def archive_account_def hot_cache_remove_def cache_remove_def Let_def
      TRv1StorageAdapter_new_def AccountCache_new_def split: bind_splits)
  have d: "revival_deposit rent_for_testing (length (acc_data cold_example)) = 256000"
    by (simp add: revival_deposit_def calculate_rent_def rent_for_testing_def cold_example_def MIN_REVIVAL_RENT_YEARS_def sat_mul_def umax_def)
  have "allow_revival rent_for_testing" by (simp add: rent_for_testing_def)
  with archived_account_revivable [OF inj_raw_text ok, of "[Tick 0 0]" ?k ?es "[]" ?io 0 0 300000 0 "\<lambda>b. b" storage_for_testing rent_for_testing Map.empty]
  obtain ad fs rs ar where "?run = Some ((ad, fs), rs)" "index_get (archive_index ad) ?k = Some ar"
    "\<forall>re deposit. revival_deposit rent_for_testing (length (acc_data cold_example)) \<le> deposit \<longrightarrow>
       revive_account (\<lambda>b. b) re None fs ar deposit rent_for_testing = Some (Inr (cold_example\<lparr> rent_epoch := re \<rparr>))"
    using out by auto
  then show ?thesis using d by (intro exI conjI) auto
qed

end
