(* ===== verification/Maintenance.thy ===== *)
theory Maintenance
  imports Trv1_Prelude "HOL-Library.Monad_Syntax"
begin

text \<open>
  The loop of the background thread of the tiered storage, \<^verbatim>\<open>accounts-db/src/trv1_maintenance.rs\<close>. Times
  and durations are in nanoseconds. The exit signal is a function of the time at which it is read; a sleep
  started at \<open>now\<close> for \<open>d\<close> ends at \<open>wake now d\<close>, and \<open>busy t\<close> is how long the tick started at \<open>t\<close>
  takes. The loop gives the list of the ticks it makes, each with the time, the slot and the epoch it passes to
  \<^verbatim>\<open>maintenance_tick\<close>; a loop that never ends is \<open>None\<close>.

  Shown: once the exit signal is set the loop ends and makes no further tick; the ticks are at least the
  interval apart and pass the estimated slots.
\<close>

definition DEFAULT_MAINTENANCE_INTERVAL_SECS :: u64 where "DEFAULT_MAINTENANCE_INTERVAL_SECS = 60"
definition MIN_MAINTENANCE_INTERVAL_SECS :: u64 where "MIN_MAINTENANCE_INTERVAL_SECS = 5"

text \<open>\<^verbatim>\<open>Duration::from_secs\<close> and \<^verbatim>\<open>Duration::from_millis\<close>.\<close>

abbreviation from_secs :: "nat \<Rightarrow> nat" where "from_secs n \<equiv> n * 1000000000"
abbreviation from_millis :: "nat \<Rightarrow> nat" where "from_millis n \<equiv> n * 1000000"

definition service_interval :: "nat \<Rightarrow> nat" where
  "service_interval interval = max interval (from_secs MIN_MAINTENANCE_INTERVAL_SECS)"

text \<open>The inner loop: sleep in steps of half a second; the result is the time at which it stops.\<close>

function pause :: "(nat \<Rightarrow> bool) \<Rightarrow> (nat \<Rightarrow> nat \<Rightarrow> nat) \<Rightarrow> nat \<Rightarrow> nat \<Rightarrow> nat \<Rightarrow> nat" where
  "pause exit wake interval now slept =
     (if slept < interval \<and> \<not> exit now
      then pause exit wake interval (wake now (min (from_millis 500) (interval - slept))) (slept + from_millis 500)
      else now)"
  by pat_completeness auto
termination
  by (relation "measure (\<lambda>(exit, wake, interval, now, slept). interval - slept)") auto

declare pause.simps [simp del]

definition estimated_slot :: "nat \<Rightarrow> u64 \<Rightarrow> u64" where
  "estimated_slot interval tick_count = sat_mul 64 tick_count ((interval div 1000000) mod 2 ^ 64 div 400)"

partial_function (option) run_loop ::
    "(nat \<Rightarrow> bool) \<Rightarrow> (nat \<Rightarrow> nat \<Rightarrow> nat) \<Rightarrow> (nat \<Rightarrow> nat) \<Rightarrow> nat \<Rightarrow> nat \<Rightarrow> u64 \<Rightarrow> (nat \<times> u64 \<times> u64) list option" where
  "run_loop exit wake busy interval now tick_count =
     (if exit now then Some []
      else let t = pause exit wake interval now 0 in
        if exit t then Some []
        else let tick_count = wadd 64 tick_count 1;
                 slot = estimated_slot interval tick_count;
                 epoch = slot div 432000
             in do { ticks \<leftarrow> run_loop exit wake busy interval (t + busy t) tick_count;
                     Some ((t, slot, epoch) # ticks) })"

definition service_ticks ::
    "(nat \<Rightarrow> bool) \<Rightarrow> (nat \<Rightarrow> nat \<Rightarrow> nat) \<Rightarrow> (nat \<Rightarrow> nat) \<Rightarrow> nat \<Rightarrow> nat \<Rightarrow> (nat \<times> u64 \<times> u64) list option" where
  "service_ticks exit wake busy interval now = run_loop exit wake busy (service_interval interval) now 0"

lemma pause_ge:
  assumes "\<And>now d. now + d \<le> wake now d"
  shows "now \<le> pause exit wake interval now slept
    \<and> (\<not> exit (pause exit wake interval now slept) \<longrightarrow> now + (interval - slept) \<le> pause exit wake interval now slept)"
proof (induction "interval - slept" arbitrary: now slept rule: less_induct)
  case less
  show ?case
  proof (cases "slept < interval \<and> \<not> exit now")
    case True
    let ?d = "min (from_millis 500) (interval - slept)" and ?s = "slept + from_millis 500"
    have "pause exit wake interval now slept = pause exit wake interval (wake now ?d) ?s"
      using True by (simp add: pause.simps [of _ _ _ now slept])
    moreover have "interval - ?s < interval - slept" "?d + (interval - ?s) = interval - slept" using True by auto
    ultimately show ?thesis using less [of ?s "wake now ?d"] assms [of now ?d] by auto
  next
    case False
    then have "pause exit wake interval now slept = now" by (auto simp: pause.simps [of _ _ _ now slept])
    then show ?thesis using False by auto
  qed
qed

text \<open>
  The maintenance thread stops. If the exit signal is set from some time on and sleeps last at least as long as
  asked for, the loop returns. Its ticks all start before that time, the one with index \<open>i\<close> not before
  \<open>i + 1\<close> intervals have passed since the start, and passes the slot estimated for \<open>i + 1\<close> ticks and the
  epoch of that slot. The interval is never below five seconds.
\<close>

theorem maintenance_stops:
  assumes "\<And>now d. now + d \<le> wake now d" "\<And>t. T \<le> t \<Longrightarrow> exit t" "iv = service_interval interval"
  shows "\<exists>ts. service_ticks exit wake busy interval now = Some ts \<and> 5000000000 \<le> iv
    \<and> (\<forall>i < length ts. let (t, slot, epoch) = ts ! i in
         t < T \<and> now + (i + 1) * iv \<le> t \<and> slot = estimated_slot iv ((i + 1) mod 2 ^ 64) \<and> epoch = slot div 432000)"
proof -
  have iv: "5000000000 \<le> iv" by (simp add: assms(3) service_interval_def MIN_MAINTENANCE_INTERVAL_SECS_def)
  have "\<exists>ts. run_loop exit wake busy iv now (n mod 2 ^ 64) = Some ts \<and> (\<forall>i < length ts. let (t, slot, epoch) = ts ! i in
         t < T \<and> now + (i + 1) * iv \<le> t \<and> slot = estimated_slot iv ((n + i + 1) mod 2 ^ 64) \<and> epoch = slot div 432000)" for n
  proof (induction "T - now" arbitrary: now n rule: less_induct)
    case less
    let ?t = "pause exit wake iv now 0" and ?n = "n mod 2 ^ 64"
    show ?case
    proof (cases "exit now \<or> exit ?t")
      case True
      then have "run_loop exit wake busy iv now ?n = Some []" by (auto simp: run_loop.simps [of _ _ _ _ now] Let_def)
      then show ?thesis by simp
    next
      case False
      have t: "now + iv \<le> ?t" "?t < T" "now < T"
        using pause_ge [OF assms(1), of now exit iv 0] assms(2) False by (auto simp: not_le [symmetric])
      have c: "wadd 64 ?n 1 = (n + 1) mod 2 ^ 64" unfolding wadd_def by (simp only: mod_add_left_eq)
      let ?t' = "?t + busy ?t" and ?slot = "estimated_slot iv ((n + 1) mod 2 ^ 64)"
      have "T - ?t' < T - now" using t iv by linarith
      from less [OF this, of "n + 1"] obtain ts where ts: "run_loop exit wake busy iv ?t' ((n + 1) mod 2 ^ 64) = Some ts"
        "\<forall>i < length ts. let (t, slot, epoch) = ts ! i in t < T \<and> ?t' + (i + 1) * iv \<le> t
           \<and> slot = estimated_slot iv ((n + 1 + i + 1) mod 2 ^ 64) \<and> epoch = slot div 432000" by blast
      have r: "run_loop exit wake busy iv now ?n = Some ((?t, ?slot, ?slot div 432000) # ts)"
        using False ts(1) c by (simp add: run_loop.simps [of _ _ _ _ now] Let_def)
      have "let (t, slot, epoch) = ((?t, ?slot, ?slot div 432000) # ts) ! i in
          t < T \<and> now + (i + 1) * iv \<le> t \<and> slot = estimated_slot iv ((n + i + 1) mod 2 ^ 64) \<and> epoch = slot div 432000"
        if i: "i < length ((?t, ?slot, ?slot div 432000) # ts)" for i
      proof (cases i)
        case 0
        then show ?thesis using t by simp
      next
        case (Suc j)
        obtain u sl ep where u: "ts ! j = (u, sl, ep)" by (cases "ts ! j")
        with ts(2) i Suc have "u < T" "?t' + (j + 1) * iv \<le> u" "sl = estimated_slot iv ((n + 1 + j + 1) mod 2 ^ 64)" "ep = sl div 432000"
          by fastforce+
        moreover have "now + (Suc j + 1) * iv \<le> ?t' + (j + 1) * iv" using t(1) by simp
        ultimately show ?thesis using Suc u by (simp add: add.commute)
      qed
      then show ?thesis using r by blast
    qed
  qed
  from this [of 0] show ?thesis using iv by (auto simp: service_ticks_def assms(3))
qed

theorem maintenance_stops_witness:
  "\<exists>ts. service_ticks (\<lambda>t. 12000000000 \<le> t) (\<lambda>now d. now + d) (\<lambda>_. 0) 1000000000 0 = Some ts
    \<and> (\<forall>i < length ts. fst (ts ! i) < 12000000000 \<and> (i + 1) * 5000000000 \<le> fst (ts ! i))"
proof -
  have s: "service_interval 1000000000 = 5000000000" by (simp add: service_interval_def MIN_MAINTENANCE_INTERVAL_SECS_def)
  from maintenance_stops [of "\<lambda>now d. now + d" 12000000000 "\<lambda>t. 12000000000 \<le> t" 5000000000 1000000000 "\<lambda>_. 0" 0]
  obtain ts where "service_ticks (\<lambda>t. 12000000000 \<le> t) (\<lambda>now d. now + d) (\<lambda>_. 0) 1000000000 0 = Some ts"
    "\<forall>i < length ts. let (t, slot, epoch) = ts ! i in t < 12000000000 \<and> 0 + (i + 1) * 5000000000 \<le> t
       \<and> slot = estimated_slot 5000000000 ((i + 1) mod 2 ^ 64) \<and> epoch = slot div 432000"
    by (auto simp: s)
  then show ?thesis by (auto simp: case_prod_unfold Let_def)
qed

end
