(* ===== verification/Block_Producer.thy ===== *)
theory Block_Producer
  imports Consensus_Engine "HOL-Library.Monad_Syntax"
begin

text \<open>
  \<^verbatim>\<open>core/src/block_producer.rs\<close>: block production from the queue of pending transactions, the structural
  check of a proposed block, and the execution of a committed block, together with the part of
  \<^verbatim>\<open>runtime/src/bank.rs\<close> and \<^verbatim>\<open>runtime/src/bank_forks.rs\<close> that they call.

  A bank is modelled as far as block production reads or writes it: its slot, hash, last blockhash and
  the links to its parent. The accounts of a bank are not modelled, so \<open>hash_internal_state\<close> is a
  parameter \<open>state_hash\<close>. What \<^verbatim>\<open>freeze\<close> does to the accounts before it takes the hash (the distribution of the fees, the
  slot history, the incinerator) and what the creation of a child bank does beyond the fields below (the processing
  of a new epoch, the sysvars, the base fee) is left out, with the panics it may have. An operation that panics is \<open>None\<close>.

  Shown: a block holds exactly the longest prefix of the queue that fits, and what a cut batch loses;
  executing a block extends the chain of banks by one frozen child of the working bank.
\<close>

section \<open>Banks\<close>

record Bank =
  bk_slot :: u64
  bk_hash :: hash
  bk_blockhash :: hash
  bk_parent_hash :: hash
  bk_parent_slot :: u64
  bk_leader :: pubkey
  bk_block_height :: u64
  bk_ticks_per_slot :: u64
  bk_max_tick_height :: u64

text \<open>\<^verbatim>\<open>Hash::default()\<close>: 32 zero bytes.\<close>

definition default_hash :: hash where
  "default_hash = replicate 32 0"

definition is_frozen :: "Bank \<Rightarrow> bool" where
  "is_frozen b = (bk_hash b \<noteq> default_hash)"

definition bank_freeze :: "(Bank \<Rightarrow> hash) \<Rightarrow> Bank \<Rightarrow> Bank" where
  "bank_freeze state_hash b = (if bk_hash b = default_hash then b\<lparr> bk_hash := state_hash b \<rparr> else b)"

text \<open>The parent is frozen on the way; the result is the parent as it is left, and the child.\<close>

definition new_from_parent :: "(Bank \<Rightarrow> hash) \<Rightarrow> Bank \<Rightarrow> pubkey \<Rightarrow> u64 \<Rightarrow> (Bank \<times> Bank) option" where
  "new_from_parent state_hash parent leader slot =
     (let parent = bank_freeze state_hash parent in
      if slot = bk_slot parent then None
      else do {
        next \<leftarrow> checked_add 64 slot 1;
        max_tick_height \<leftarrow> checked_mul 64 next (bk_ticks_per_slot parent);
        block_height \<leftarrow> checked_add 64 (bk_block_height parent) 1;
        Some (parent,
          \<lparr> bk_slot = slot, bk_hash = default_hash, bk_blockhash = bk_blockhash parent,
             bk_parent_hash = bk_hash parent, bk_parent_slot = bk_slot parent, bk_leader = leader,
             bk_block_height = block_height, bk_ticks_per_slot = bk_ticks_per_slot parent,
             bk_max_tick_height = max_tick_height \<rparr>)
      })"

record BankForks =
  banks :: "(u64, Bank) hashmap"
  working_slot :: u64

definition find_highest_slot :: "(u64, Bank) hashmap \<Rightarrow> u64" where
  "find_highest_slot bs = Max (set (map (\<lambda>(_, b). bk_slot b) bs))"

definition working_bank :: "BankForks \<Rightarrow> Bank option" where
  "working_bank f = hm_get (banks f) (working_slot f)"

definition forks_insert :: "Bank \<Rightarrow> BankForks \<Rightarrow> BankForks option" where
  "forks_insert b f =
     (case hm_get (banks f) (bk_slot b) of
        Some _ \<Rightarrow> None
      | None \<Rightarrow> let bs = hm_insert (bk_slot b) b (banks f)
                in Some \<lparr> banks = bs, working_slot = find_highest_slot bs \<rparr>)"

section \<open>The block producer\<close>

datatype BlockProducerError =
    NoWorkingBank
  | HeightMismatch u64 u64
  | ParentHashMismatch hash hash
  | TooManyTransactions nat nat
  | ExceedsComputeLimit u64 u64
  | ExecutionError string
  | InvalidProposer pubkey

record BlockProducerConfig =
  max_transactions_per_block :: nat
  max_compute_units_per_block :: u64

definition BlockProducerConfig_default :: BlockProducerConfig where
  "BlockProducerConfig_default =
     \<lparr> max_transactions_per_block = 2048, max_compute_units_per_block = 48000000 \<rparr>"

text \<open>The receiver is the list of the batches that are waiting in the channel, oldest first.\<close>

record BlockProducer =
  bp_forks :: BankForks
  tx_receiver :: "bytes list list"
  bp_config :: BlockProducerConfig

definition BlockProducer_new :: "BankForks \<Rightarrow> bytes list list \<Rightarrow> BlockProducerConfig \<Rightarrow> BlockProducer" where
  "BlockProducer_new f q c = \<lparr> bp_forks = f, tx_receiver = q, bp_config = c \<rparr>"

text \<open>The drain loop: the transactions collected and the batches left in the channel.\<close>

fun drain :: "nat \<Rightarrow> bytes list \<Rightarrow> bytes list list \<Rightarrow> bytes list \<times> bytes list list" where
  "drain limit txs [] = (txs, [])"
| "drain limit txs (batch # queue) =
     (if length txs < limit
      then let remaining = limit - length txs in
           if length batch \<le> remaining then drain limit (txs @ batch) queue
           else (txs @ take remaining batch, queue)
      else (txs, batch # queue))"

definition create_block ::
    "i64 \<Rightarrow> u64 \<Rightarrow> hash \<Rightarrow> pubkey \<Rightarrow> BlockProducer \<Rightarrow> (BlockProducer \<times> (BlockProducerError + ProposedBlock)) option" where
  "create_block wall h parent me bp =
     do {
       bank \<leftarrow> working_bank (bp_forks bp);
       let (txs, queue) = drain (max_transactions_per_block (bp_config bp)) [] (tx_receiver bp);
       Some (bp\<lparr> tx_receiver := queue \<rparr>,
         Inr \<lparr> parent_hash = parent, blk_height = h, timestamp = wall, transactions = txs,
               state_root = bk_blockhash bank, blk_proposer = me \<rparr>)
     }"

definition validate_block :: "BlockProducer \<Rightarrow> ProposedBlock \<Rightarrow> (BlockProducerError + unit) option" where
  "validate_block bp block =
     (if length (transactions block) > max_transactions_per_block (bp_config bp)
      then Some (Inl (TooManyTransactions (length (transactions block)) (max_transactions_per_block (bp_config bp))))
      else do { bank \<leftarrow> working_bank (bp_forks bp); Some (Inr ()) })"

definition execute_block ::
    "(Bank \<Rightarrow> hash) \<Rightarrow> CommittedBlock \<Rightarrow> BlockProducer \<Rightarrow> (BlockProducer \<times> (BlockProducerError + hash)) option" where
  "execute_block state_hash committed bp =
     do {
       parent \<leftarrow> working_bank (bp_forks bp);
       (parent, child) \<leftarrow> new_from_parent state_hash parent (blk_proposer (cb_block committed)) (wadd 64 (bk_slot parent) 1);
       let f = bp_forks bp;
       let f = f\<lparr> banks := hm_insert (working_slot f) parent (banks f) \<rparr>;
       let bank_hash = bk_hash child;
       f \<leftarrow> forks_insert (bank_freeze state_hash child) f;
       Some (bp\<lparr> bp_forks := f \<rparr>, Inr bank_hash)
     }"

section \<open>The drain loop\<close>

lemma drain_prefix:
  "length txs \<le> limit \<Longrightarrow> fst (drain limit txs queue) = take limit (txs @ concat queue)"
proof (induction queue arbitrary: txs)
  case (Cons b q)
  then show ?case by (cases "length txs < limit") (auto simp: Let_def)
qed simp

text \<open>A batch that does not fit is taken off the channel; what is left of it goes nowhere.\<close>

lemma drain_rest:
  "length txs \<le> limit \<Longrightarrow>
   \<exists>n cut. n \<le> length queue \<and> snd (drain limit txs queue) = drop n queue \<and>
     txs @ concat queue = fst (drain limit txs queue) @ cut @ concat (drop n queue) \<and>
     (cut \<noteq> [] \<longrightarrow> 0 < n \<and> length cut < length (queue ! (n - 1)) \<and> length (fst (drain limit txs queue)) = limit)"
proof (induction queue arbitrary: txs)
  case (Cons b q)
  consider (full) "\<not> length txs < limit"
    | (fits) "length txs < limit" "length b \<le> limit - length txs"
    | (cut) "length txs < limit" "\<not> length b \<le> limit - length txs" by blast
  then show ?case
  proof cases
    case full
    then show ?thesis by (intro exI [of _ 0] exI [of _ "[]"]) simp
  next
    case fits
    then have "length (txs @ b) \<le> limit" by simp
    from Cons.IH [OF this] obtain n cut where "n \<le> length q" "snd (drain limit (txs @ b) q) = drop n q"
      "(txs @ b) @ concat q = fst (drain limit (txs @ b) q) @ cut @ concat (drop n q)"
      "cut \<noteq> [] \<longrightarrow> 0 < n \<and> length cut < length (q ! (n - 1)) \<and> length (fst (drain limit (txs @ b) q)) = limit"
      by blast
    with fits show ?thesis by (intro exI [of _ "Suc n"] exI [of _ cut]) (auto simp: Let_def nth_Cons')
  next
    case cut
    then show ?thesis
      by (intro exI [of _ 1] exI [of _ "drop (limit - length txs) b"]) (auto simp: Let_def)
  qed
qed simp

section \<open>Chains of banks\<close>

text \<open>
  The forks as they are kept: every bank is filed under its slot, and the working bank is the one
  with the highest slot.
\<close>

definition forks_ok :: "BankForks \<Rightarrow> bool" where
  "forks_ok f \<longleftrightarrow> hm_wf (banks f) \<and> (\<forall>(s, b) \<in> set (banks f). bk_slot b = s) \<and>
     banks f \<noteq> [] \<and> working_slot f = find_highest_slot (banks f)"

text \<open>Room for one more bank: neither the slot, the tick height nor the block height overflows.\<close>

definition has_room :: "Bank \<Rightarrow> bool" where
  "has_room b \<longleftrightarrow> bk_slot b + 2 < 2 ^ 64 \<and> (bk_slot b + 2) * bk_ticks_per_slot b < 2 ^ 64 \<and> bk_block_height b + 1 < 2 ^ 64"

lemma forks_slot: "forks_ok f \<Longrightarrow> hm_get (banks f) s = Some b \<Longrightarrow> bk_slot b = s"
  by (auto simp: forks_ok_def dest!: map_of_SomeD)

lemma highest_slot_keys: "\<forall>(s, b) \<in> set bs. bk_slot b = s \<Longrightarrow> find_highest_slot bs = Max (set (hm_keys bs))"
  unfolding find_highest_slot_def by (rule arg_cong [of _ _ "\<lambda>xs. Max (set xs)"]) auto

lemma working_slot_max: "forks_ok f \<Longrightarrow> s \<in> set (hm_keys (banks f)) \<Longrightarrow> s \<le> working_slot f"
  by (auto simp: forks_ok_def highest_slot_keys)

lemma forks_working:
  assumes "forks_ok f" obtains b where "working_bank f = Some b" "bk_slot b = working_slot f"
proof -
  have "working_slot f \<in> set (hm_keys (banks f))"
    using assms Max_in [of "set (hm_keys (banks f))"] by (auto simp: forks_ok_def highest_slot_keys)
  then obtain b where "working_bank f = Some b" unfolding working_bank_def by (metis map_of_eq_None_iff not_None_eq set_map)
  with that forks_slot [OF assms] show ?thesis by (auto simp: working_bank_def)
qed

definition child_bank :: "(Bank \<Rightarrow> hash) \<Rightarrow> Bank \<Rightarrow> pubkey \<Rightarrow> Bank" where
  "child_bank state_hash parent leader =
     \<lparr> bk_slot = bk_slot parent + 1, bk_hash = default_hash, bk_blockhash = bk_blockhash parent,
        bk_parent_hash = bk_hash (bank_freeze state_hash parent), bk_parent_slot = bk_slot parent, bk_leader = leader,
        bk_block_height = bk_block_height parent + 1, bk_ticks_per_slot = bk_ticks_per_slot parent,
        bk_max_tick_height = (bk_slot parent + 2) * bk_ticks_per_slot parent \<rparr>"

lemma bank_freeze_frame [simp]:
  "bk_slot (bank_freeze sh b) = bk_slot b" "bk_blockhash (bank_freeze sh b) = bk_blockhash b"
  "bk_parent_hash (bank_freeze sh b) = bk_parent_hash b" "bk_parent_slot (bank_freeze sh b) = bk_parent_slot b"
  "bk_leader (bank_freeze sh b) = bk_leader b" "bk_block_height (bank_freeze sh b) = bk_block_height b"
  "bk_ticks_per_slot (bank_freeze sh b) = bk_ticks_per_slot b"
  by (simp_all add: bank_freeze_def)

lemma new_from_parent_child:
  assumes "has_room b"
  shows "new_from_parent sh b leader (wadd 64 (bk_slot b) 1) = Some (bank_freeze sh b, child_bank sh b leader)"
  using assms by (simp add: new_from_parent_def child_bank_def has_room_def wadd_def checked_add_def checked_mul_def Let_def)

text \<open>What the forks look like after one more block.\<close>

definition extended :: "(Bank \<Rightarrow> hash) \<Rightarrow> Bank \<Rightarrow> pubkey \<Rightarrow> BankForks \<Rightarrow> BankForks" where
  "extended sh b leader f =
     \<lparr> banks = hm_insert (bk_slot b + 1) (bank_freeze sh (child_bank sh b leader)) (hm_insert (bk_slot b) (bank_freeze sh b) (banks f)),
       working_slot = bk_slot b + 1 \<rparr>"

lemma extended_ok:
  assumes f: "forks_ok f" and b: "working_bank f = Some b"
  shows "forks_ok (extended sh b leader f)" "working_bank (extended sh b leader f) = Some (bank_freeze sh (child_bank sh b leader))"
proof -
  let ?m = "hm_insert (bk_slot b) (bank_freeze sh b) (banks f)"
    and ?c = "bank_freeze sh (child_bank sh b leader)"
  have w: "working_slot f = bk_slot b" using forks_slot [OF f] b by (simp add: working_bank_def)
  have wf: "hm_wf (banks f)" and slots: "\<forall>(s, b) \<in> set (banks f). bk_slot b = s" using f by (simp_all add: forks_ok_def)
  have slots': "\<forall>(s, b) \<in> set (hm_insert (bk_slot b + 1) ?c ?m). bk_slot b = s"
    using wf slots by (intro hm_insert_all) (auto simp: child_bank_def)
  have mx: "set (hm_keys (hm_insert (bk_slot b + 1) ?c ?m)) = insert (bk_slot b + 1) (set (hm_keys (banks f)))"
    unfolding hm_keys_insert using hm_get_key [OF b [unfolded working_bank_def w]] by (simp only: insert_absorb)
  have "Max (insert (bk_slot b + 1) (set (hm_keys (banks f)))) = bk_slot b + 1"
    using working_slot_max [OF f] w by (intro Max_eqI) (auto simp: le_Suc_eq)
  then show "forks_ok (extended sh b leader f)"
    using wf slots' mx highest_slot_keys [OF slots'] by (auto simp: forks_ok_def extended_def simp del: set_map)
  show "working_bank (extended sh b leader f) = Some ?c" by (simp add: working_bank_def extended_def)
qed

lemma execute_block_extends:
  assumes f: "forks_ok (bp_forks bp)" and b: "working_bank (bp_forks bp) = Some b" and room: "has_room b"
  shows "execute_block sh cb bp =
    Some (bp\<lparr> bp_forks := extended sh b (blk_proposer (cb_block cb)) (bp_forks bp) \<rparr>, Inr default_hash)"
proof -
  let ?f = "bp_forks bp"
  have w: "working_slot ?f = bk_slot b" using forks_slot [OF f] b by (simp add: working_bank_def)
  have ok: "forks_ok (extended sh b (blk_proposer (cb_block cb)) ?f)" by (rule extended_ok [OF f b])
  have "bk_slot b + 1 \<notin> set (hm_keys (banks ?f))" using working_slot_max [OF f] w by fastforce
  then have "hm_get (banks ?f) (bk_slot b + 1) = None" by (metis map_of_eq_None_iff set_map)
  then show ?thesis
    using ok b w new_from_parent_child [OF room]
    by (simp add: execute_block_def forks_insert_def Let_def forks_ok_def extended_def child_bank_def)
qed

text \<open>The hash of a block does not depend on the transactions the producer collected.\<close>

lemma block_hash_ignores_transactions:
  assumes "create_block wall h parent me bp = Some (bp1, Inr b1)"
    and "create_block wall h parent me (bp\<lparr> tx_receiver := queue \<rparr>) = Some (bp2, Inr b2)"
  shows "block_hash hashv b1 = block_hash hashv b2"
  using assms by (auto simp: create_block_def block_hash_def split: bind_splits prod.splits)

text \<open>Every block the producer makes passes its own check.\<close>

lemma created_block_valid:
  assumes "create_block wall h parent me bp = Some (bp', Inr block)"
  shows "validate_block bp block = Some (Inr ())"
proof -
  let ?d = "drain (max_transactions_per_block (bp_config bp)) [] (tx_receiver bp)"
  obtain b where b: "working_bank (bp_forks bp) = Some b" "transactions block = fst ?d"
    using assms by (auto simp: create_block_def split: bind_splits prod.splits)
  then show ?thesis using drain_prefix [of "[]"] by (simp add: validate_block_def)
qed

section \<open>Properties\<close>

text \<open>
  C35: A produced block holds the first transactions of the queue, as many as the limit allows,
  in their order. Of the queue, whole batches remain; when a batch is cut, the block is full and the rest of
  that batch is in neither the block nor the queue.
\<close>

theorem block_takes_queue_prefix:
  assumes "create_block wall h parent me bp = Some (bp', Inr block)"
  shows "transactions block = take (max_transactions_per_block (bp_config bp)) (concat (tx_receiver bp)) \<and>
    (\<exists>n cut. n \<le> length (tx_receiver bp) \<and> tx_receiver bp' = drop n (tx_receiver bp) \<and>
       concat (tx_receiver bp) = transactions block @ cut @ concat (tx_receiver bp') \<and>
       (cut \<noteq> [] \<longrightarrow> 0 < n \<and> length cut < length (tx_receiver bp ! (n - 1)) \<and>
          length (transactions block) = max_transactions_per_block (bp_config bp)))"
proof -
  let ?m = "max_transactions_per_block (bp_config bp)"
  let ?d = "drain ?m [] (tx_receiver bp)"
  have d: "transactions block = fst ?d" "tx_receiver bp' = snd ?d"
    using assms by (auto simp: create_block_def split: bind_splits prod.splits)
  obtain n cut where "n \<le> length (tx_receiver bp)" "snd ?d = drop n (tx_receiver bp)"
    "concat (tx_receiver bp) = fst ?d @ cut @ concat (drop n (tx_receiver bp))"
    "cut \<noteq> [] \<longrightarrow> 0 < n \<and> length cut < length (tx_receiver bp ! (n - 1)) \<and> length (fst ?d) = ?m"
    using drain_rest [of "[]" ?m "tx_receiver bp"] by auto
  then have "\<exists>n cut. n \<le> length (tx_receiver bp) \<and> snd ?d = drop n (tx_receiver bp) \<and>
     concat (tx_receiver bp) = fst ?d @ cut @ concat (snd ?d) \<and>
     (cut \<noteq> [] \<longrightarrow> 0 < n \<and> length cut < length (tx_receiver bp ! (n - 1)) \<and> length (fst ?d) = ?m)"
    by (intro exI [of _ n] exI [of _ cut]) simp
  then show ?thesis unfolding d using drain_prefix [of "[]" ?m "tx_receiver bp"] by simp
qed

definition example_bank :: Bank where
  "example_bank = \<lparr> bk_slot = 9, bk_hash = replicate 32 1, bk_blockhash = replicate 32 2, bk_parent_hash = replicate 32 3,
     bk_parent_slot = 8, bk_leader = [2], bk_block_height = 9, bk_ticks_per_slot = 64, bk_max_tick_height = 640 \<rparr>"

definition example_forks :: BankForks where
  "example_forks = \<lparr> banks = [(9, example_bank)], working_slot = 9 \<rparr>"

definition example_producer :: BlockProducer where
  "example_producer = BlockProducer_new example_forks [[[1], [2]], [[3], [4], [5]], [[6]]]
     (BlockProducerConfig_default\<lparr> max_transactions_per_block := 3 \<rparr>)"

lemma example_forks_ok [simp]: "forks_ok example_forks" "working_bank example_forks = Some example_bank"
  by (simp_all add: forks_ok_def example_forks_def example_bank_def find_highest_slot_def working_bank_def hm_wf_def)

theorem block_takes_queue_prefix_witness:
  "\<exists>bp' block. create_block 7 10 [] [1] example_producer = Some (bp', Inr block) \<and>
     transactions block = [[1], [2], [3]] \<and> tx_receiver bp' = [[[6]]]"
proof -
  obtain bp' block where c: "create_block 7 10 [] [1] example_producer = Some (bp', Inr block)" "tx_receiver bp' = [[[6]]]"
    by (simp add: create_block_def example_producer_def BlockProducer_new_def BlockProducerConfig_default_def)
  moreover from block_takes_queue_prefix [OF c(1)] have "transactions block = [[1], [2], [3]]"
    by (simp add: example_producer_def BlockProducer_new_def)
  ultimately show ?thesis by blast
qed

end
