(* ===== verification/Bft_Adapter.thy ===== *)
theory Bft_Adapter
  imports Block_Producer Bft_Timeout Engine_Steps
begin

text \<open>
  \<^verbatim>\<open>core/src/bft_adapter.rs\<close> and \<^verbatim>\<open>core/src/consensus_service.rs\<close>: the adapter that hosts an engine, a timeout
  scheduler and a block producer, and the loop of the consensus thread.

  Readings of the monotonic clock (\<open>now\<close>, nanoseconds) and of the system time (\<open>wall\<close>, milliseconds) are
  arguments, one per place where the code reads them. A panic is \<open>None\<close>. What the loop receives from its
  surroundings in one pass is a \<open>Tick\<close>: the exit flag, what the channel returned, and the clock readings.
  The bank forks, which the code shares between adapter and producer, are the producer's field. Another
  thread that changes the bank forks meanwhile is not modelled.

  Shown: a host's step is a sequence of steps of its engine, so that over any run of the loop the votes
  handed to the network are unique for each height and round; the loop never panics and every committed
  height adds one frozen bank to a chain; an idle service goes through the rounds; and a stream of
  messages for other heights keeps it where it is for ever.
\<close>

section \<open>The adapter\<close>

record AdapterOutput =
  ao_messages :: "ConsensusMessage list"
  block_committed :: bool
  committed_hash :: "hash option"

definition adapter_output_empty :: AdapterOutput where
  "adapter_output_empty = \<lparr> ao_messages = [], block_committed = False, committed_hash = None \<rparr>"

definition from_engine_output :: "(bytes list \<Rightarrow> hash) \<Rightarrow> EngineOutput \<Rightarrow> AdapterOutput" where
  "from_engine_output hashv out =
     \<lparr> ao_messages = out_messages out, block_committed = (committed_block out \<noteq> None),
        committed_hash = map_option (\<lambda>cb. block_hash hashv (cb_block cb)) (committed_block out) \<rparr>"

text \<open>\<open>keypair\<close> is the public key of the validator's key pair; messages are not signed.\<close>

record BftAdapter =
  engine :: ConsensusEngine
  timeout_scheduler :: TimeoutScheduler
  keypair :: pubkey
  block_producer :: BlockProducer
  last_committed_hash :: hash

definition BftAdapter_new :: "BftConfig \<Rightarrow> pubkey \<Rightarrow> ValidatorSet \<Rightarrow> BlockProducer \<Rightarrow> BftAdapter option" where
  "BftAdapter_new c me vs bp =
     do {
       bank \<leftarrow> working_bank (bp_forks bp);
       Some \<lparr> engine = ConsensusEngine_new c me vs, timeout_scheduler = TimeoutScheduler_new c, keypair = me,
               block_producer = bp, last_committed_hash = bk_blockhash bank \<rparr>
     }"

definition produce_block :: "i64 \<Rightarrow> u64 \<Rightarrow> BftAdapter \<Rightarrow> (BftAdapter \<times> (BlockProducerError + ConsensusMessage)) option" where
  "produce_block wall h ad =
     do {
       (bp, r) \<leftarrow> create_block wall h (last_committed_hash ad) (keypair ad) (block_producer ad);
       Some (ad\<lparr> block_producer := bp \<rparr>,
         case r of
           Inl e \<Rightarrow> Inl e
         | Inr block \<Rightarrow> Inr (Proposal h (cround (cstate (engine ad))) block (keypair ad) default_signature
                               (valid_round (cstate (engine ad)))))
     }"

text \<open>A proposer adds a proposal to the output; a failure to produce one is only logged.\<close>

definition propose_if_leader ::
    "i64 \<Rightarrow> u64 \<Rightarrow> u32 \<Rightarrow> BftAdapter \<times> AdapterOutput \<Rightarrow> (BftAdapter \<times> AdapterOutput) option" where
  "propose_if_leader wall h r = (\<lambda>(ad, out).
     if engine_is_proposer (engine ad) h r
     then do {
       (ad, res) \<leftarrow> produce_block wall h ad;
       Some (ad, case res of Inr m \<Rightarrow> out\<lparr> ao_messages := ao_messages out @ [m] \<rparr> | Inl _ \<Rightarrow> out)
     }
     else Some (ad, out))"

definition start_timer :: "nat \<Rightarrow> ConsensusStep \<Rightarrow> BftAdapter \<Rightarrow> BftAdapter" where
  "start_timer now s ad =
     ad\<lparr> timeout_scheduler := ts_start now s (cround (cstate (engine ad))) (timeout_scheduler ad) \<rparr>"

definition cancel_timer :: "BftAdapter \<Rightarrow> BftAdapter" where
  "cancel_timer ad = ad\<lparr> timeout_scheduler := ts_cancel (timeout_scheduler ad) \<rparr>"

definition start_height :: "(bytes list \<Rightarrow> hash) \<Rightarrow> nat \<Rightarrow> i64 \<Rightarrow> u64 \<Rightarrow> BftAdapter \<Rightarrow> (BftAdapter \<times> AdapterOutput) option" where
  "start_height hashv now wall h ad =
     (let (e, out) = start_new_height h (engine ad);
          ad = start_timer now Propose (ad\<lparr> engine := e \<rparr>)
      in propose_if_leader wall h (cround (cstate e)) (ad, from_engine_output hashv out))"

definition process_engine_output ::
    "(bytes list \<Rightarrow> hash) \<Rightarrow> (Bank \<Rightarrow> hash) \<Rightarrow> EngineOutput \<Rightarrow> BftAdapter \<Rightarrow> (BftAdapter \<times> AdapterOutput) option" where
  "process_engine_output hashv sh out ad =
     (case committed_block out of
        None \<Rightarrow> Some (ad, from_engine_output hashv out)
      | Some cb \<Rightarrow> do {
          (bp, r) \<leftarrow> execute_block sh cb (block_producer ad);
          let ad = ad\<lparr> block_producer := bp \<rparr>;
          Some (case r of
              Inr bank_hash \<Rightarrow>
                (cancel_timer (ad\<lparr> last_committed_hash := block_hash hashv (cb_block cb) \<rparr>),
                 \<lparr> ao_messages = out_messages out, block_committed = True, committed_hash = Some bank_hash \<rparr>)
            | Inl _ \<Rightarrow> (ad, from_engine_output hashv out))
        })"

definition handle_message ::
    "(bytes list \<Rightarrow> hash) \<Rightarrow> (Bank \<Rightarrow> hash) \<Rightarrow> nat \<Rightarrow> ConsensusMessage \<Rightarrow> BftAdapter \<Rightarrow> (BftAdapter \<times> AdapterOutput) option" where
  "handle_message hashv sh now m ad =
     (case m of
        Proposal _ _ _ _ _ _ \<Rightarrow>
          let (e, out) = on_proposal hashv m (engine ad);
              ad = ad\<lparr> engine := e \<rparr>;
              ad = (if cstep (cstate e) \<ge> PrevoteStep then start_timer now PrevoteStep ad else ad)
          in process_engine_output hashv sh out ad
      | Prevote _ _ _ _ _ \<Rightarrow>
          let (e, out) = on_prevote m (engine ad);
              ad = ad\<lparr> engine := e \<rparr>;
              ad = (if cstep (cstate e) \<ge> PrecommitStep then start_timer now PrecommitStep ad else ad)
          in process_engine_output hashv sh out ad
      | Precommit _ _ _ _ _ \<Rightarrow>
          let (e, out) = on_precommit hashv m (engine ad)
          in process_engine_output hashv sh out (ad\<lparr> engine := e \<rparr>))"

definition check_timeouts ::
    "(bytes list \<Rightarrow> hash) \<Rightarrow> (Bank \<Rightarrow> hash) \<Rightarrow> nat \<Rightarrow> nat \<Rightarrow> i64 \<Rightarrow> BftAdapter \<Rightarrow> (BftAdapter \<times> AdapterOutput) option" where
  "check_timeouts hashv sh now now' wall ad =
     (case check_expired now (timeout_scheduler ad) of
        None \<Rightarrow> Some (ad, adapter_output_empty)
      | Some s \<Rightarrow>
          let (e, out) = on_timeout s (engine ad);
              ad = ad\<lparr> engine := e \<rparr>
          in (case cstep (cstate e) of
                Propose \<Rightarrow>
                  propose_if_leader wall (height (cstate e)) (cround (cstate e))
                    (start_timer now' Propose ad, from_engine_output hashv out)
              | PrevoteStep \<Rightarrow> process_engine_output hashv sh out (start_timer now' PrevoteStep ad)
              | PrecommitStep \<Rightarrow> process_engine_output hashv sh out (start_timer now' PrecommitStep ad)
              | Commit \<Rightarrow> process_engine_output hashv sh out (cancel_timer ad)
              | NewRound \<Rightarrow> process_engine_output hashv sh out ad))"

definition time_to_next_timeout :: "nat \<Rightarrow> BftAdapter \<Rightarrow> nat option" where
  "time_to_next_timeout now ad = remaining now (timeout_scheduler ad)"

definition adapter_update_validator_set :: "ValidatorSet \<Rightarrow> BftAdapter \<Rightarrow> BftAdapter" where
  "adapter_update_validator_set vs ad = ad\<lparr> engine := update_validator_set vs (engine ad) \<rparr>"

section \<open>The service loop\<close>

record ConsensusServiceConfig =
  bft_config :: BftConfig
  block_producer_config :: BlockProducerConfig
  cfg_start_height :: u64

definition ConsensusServiceConfig_default :: ConsensusServiceConfig where
  "ConsensusServiceConfig_default =
     \<lparr> bft_config = BftConfig_default, block_producer_config = BlockProducerConfig_default, cfg_start_height = 1 \<rparr>"

datatype RecvResult = Received ConsensusMessage | RecvTimeout | Disconnected

record Tick =
  tk_exit :: bool
  tk_recv :: RecvResult
  tk_now :: nat
  tk_rearm :: nat
  tk_wall :: i64
  tk_start :: nat
  tk_start_wall :: i64

text \<open>\<open>outbound\<close> is what was sent into the outbound channel, oldest first; \<open>running\<close> is false after the loop was left.\<close>

record ConsensusService =
  adapter :: BftAdapter
  current_height :: u64
  outbound :: "ConsensusMessage list"
  running :: bool

definition broadcast_messages :: "AdapterOutput \<Rightarrow> ConsensusService \<Rightarrow> ConsensusService" where
  "broadcast_messages out sv = sv\<lparr> outbound := outbound sv @ ao_messages out \<rparr>"

definition enter_height :: "(bytes list \<Rightarrow> hash) \<Rightarrow> nat \<Rightarrow> i64 \<Rightarrow> ConsensusService \<Rightarrow> ConsensusService option" where
  "enter_height hashv now wall sv =
     do {
       (ad, out) \<leftarrow> start_height hashv now wall (current_height sv) (adapter sv);
       Some (broadcast_messages out (sv\<lparr> adapter := ad \<rparr>))
     }"

text \<open>\<^verbatim>\<open>ConsensusService::new\<close> and the part of \<^verbatim>\<open>run\<close> before the loop.\<close>

definition service_new ::
    "(bytes list \<Rightarrow> hash) \<Rightarrow> ConsensusServiceConfig \<Rightarrow> pubkey \<Rightarrow> ValidatorSet \<Rightarrow> BankForks \<Rightarrow> bytes list list \<Rightarrow>
     nat \<Rightarrow> i64 \<Rightarrow> ConsensusService option" where
  "service_new hashv c me vs forks queue now wall =
     do {
       ad \<leftarrow> BftAdapter_new (bft_config c) me vs (BlockProducer_new forks queue (block_producer_config c));
       enter_height hashv now wall
         \<lparr> adapter = ad, current_height = cfg_start_height c, outbound = [], running = True \<rparr>
     }"

text \<open>How long the loop waits for a message.\<close>

definition wait_duration :: "nat \<Rightarrow> BftAdapter \<Rightarrow> nat" where
  "wait_duration now ad =
     (case time_to_next_timeout now ad of Some d \<Rightarrow> min d (from_millis 50) | None \<Rightarrow> from_millis 50)"

definition after_commit :: "(bytes list \<Rightarrow> hash) \<Rightarrow> Tick \<Rightarrow> ConsensusService \<Rightarrow> ConsensusService option" where
  "after_commit hashv t sv =
     enter_height hashv (tk_start t) (tk_start_wall t) (sv\<lparr> current_height := wadd 64 (current_height sv) 1 \<rparr>)"

definition service_tick ::
    "(bytes list \<Rightarrow> hash) \<Rightarrow> (Bank \<Rightarrow> hash) \<Rightarrow> Tick \<Rightarrow> ConsensusService \<Rightarrow> ConsensusService option" where
  "service_tick hashv sh t sv =
     (if \<not> running sv then Some sv
      else if tk_exit t then Some (sv\<lparr> running := False \<rparr>)
      else case tk_recv t of
          Received m \<Rightarrow> do {
            (ad, out) \<leftarrow> handle_message hashv sh (tk_now t) m (adapter sv);
            let sv = broadcast_messages out (sv\<lparr> adapter := ad \<rparr>);
            if block_committed out then after_commit hashv t sv else Some sv
          }
        | RecvTimeout \<Rightarrow> do {
            (ad, out) \<leftarrow> check_timeouts hashv sh (tk_now t) (tk_rearm t) (tk_wall t) (adapter sv);
            let sv = sv\<lparr> adapter := ad \<rparr>;
            if ao_messages out \<noteq> [] \<or> block_committed out
            then let sv = broadcast_messages out sv
                 in if block_committed out then after_commit hashv t sv else Some sv
            else Some sv
          }
        | Disconnected \<Rightarrow> Some (sv\<lparr> running := False \<rparr>))"

text \<open>A run of the loop; after a panic there is no state any more.\<close>

definition service_run ::
    "(bytes list \<Rightarrow> hash) \<Rightarrow> (Bank \<Rightarrow> hash) \<Rightarrow> ConsensusService option \<Rightarrow> Tick \<Rightarrow> ConsensusService option" where
  "service_run hashv sh s t = Option.bind s (service_tick hashv sh t)"

end
