(* ===== verification/Service_Runs.thy ===== *)
theory Service_Runs
  imports Bft_Adapter
begin

text \<open>
  Runs of the consensus service. The adapter's operations are related to the events of the engine it
  hosts, and the invariants of the engine are carried over to everything the service sends.
\<close>

section \<open>Steps of the hosted engine\<close>

fun is_vote :: "ConsensusMessage \<Rightarrow> bool" where
  "is_vote (Proposal _ _ _ _ _ _) = False"
| "is_vote _ = True"

fun message_event :: "ConsensusMessage \<Rightarrow> EngineEvent" where
  "message_event (Proposal h r b p sg vr) = GotProposal (Proposal h r b p sg vr)"
| "message_event (Prevote h r bh v sg) = GotPrevote (Prevote h r bh v sg)"
| "message_event (Precommit h r bh v sg) = GotPrecommit (Precommit h r bh v sg)"

abbreviation forks :: "BftAdapter \<Rightarrow> BankForks" where
  "forks ad \<equiv> bp_forks (block_producer ad)"

definition adapter_ok :: "BftAdapter \<Rightarrow> bool" where
  "adapter_ok ad \<longleftrightarrow> forks_ok (forks ad) \<and> keypair ad = identity (engine ad)"

definition adapter_room :: "BftAdapter \<Rightarrow> bool" where
  "adapter_room ad \<longleftrightarrow> (\<forall>b \<in> set_option (working_bank (forks ad)). has_room b)"

text \<open>
  The step of a host: its engine takes the step of an event, the votes of the engine are passed on, and
  a committed block is executed on the working bank.
\<close>

definition executed :: "(Bank \<Rightarrow> hash) \<Rightarrow> CommittedBlock option \<Rightarrow> BankForks \<Rightarrow> BankForks" where
  "executed sh c f =
     (case (c, working_bank f) of (Some cb, Some b) \<Rightarrow> extended sh b (blk_proposer (cb_block cb)) f | _ \<Rightarrow> f)"

definition hosts ::
    "(bytes list \<Rightarrow> hash) \<Rightarrow> (Bank \<Rightarrow> hash) \<Rightarrow> BftAdapter \<Rightarrow> EngineEvent \<Rightarrow> BftAdapter \<times> AdapterOutput \<Rightarrow> bool" where
  "hosts hashv sh ad ev = (\<lambda>(ad', out). let (e, eo) = engine_step hashv (engine ad) ev in
     engine ad' = e \<and> keypair ad' = keypair ad \<and> block_committed out = (committed_block eo \<noteq> None) \<and>
     forks ad' = executed sh (committed_block eo) (forks ad) \<and>
     (\<exists>ms. ao_messages out = out_messages eo @ ms \<and> (\<forall>m \<in> set ms. \<not> is_vote m \<and> msg_sender m = keypair ad)))"

lemma executed_None [simp]: "executed sh None f = f"
  by (simp add: executed_def)

lemma timer_frame [simp]:
  "engine (start_timer now s ad) = engine ad" "keypair (start_timer now s ad) = keypair ad"
  "block_producer (start_timer now s ad) = block_producer ad"
  "engine (cancel_timer ad) = engine ad" "keypair (cancel_timer ad) = keypair ad"
  "block_producer (cancel_timer ad) = block_producer ad"
  by (simp_all add: start_timer_def cancel_timer_def)

lemma create_block_total:
  assumes "forks_ok (bp_forks bp)"
  obtains bp' block where "create_block wall h parent me bp = Some (bp', Inr block)" "bp_forks bp' = bp_forks bp"
    "blk_height block = h" "blk_proposer block = me" "parent_hash block = parent"
proof -
  obtain b where b: "working_bank (bp_forks bp) = Some b" by (rule forks_working [OF assms])
  obtain txs q where d: "drain (max_transactions_per_block (bp_config bp)) [] (tx_receiver bp) = (txs, q)" by fastforce
  show ?thesis
    by (rule that [of "bp\<lparr> tx_receiver := q \<rparr>" "\<lparr> parent_hash = parent, blk_height = h, timestamp = wall,
        transactions = txs, state_root = bk_blockhash b, blk_proposer = me \<rparr>"]) (simp_all add: create_block_def b d)
qed

lemma propose_if_leader_hosts:
  assumes "forks_ok (forks ad)"
  shows "\<exists>ad' ms. propose_if_leader wall h r (ad, out) = Some (ad', out\<lparr> ao_messages := ao_messages out @ ms \<rparr>) \<and>
    engine ad' = engine ad \<and> keypair ad' = keypair ad \<and> forks ad' = forks ad \<and>
    (\<forall>m \<in> set ms. \<not> is_vote m \<and> msg_sender m = keypair ad)"
proof (cases "engine_is_proposer (engine ad) h r")
  case True
  obtain bp block where c: "create_block wall h (last_committed_hash ad) (keypair ad) (block_producer ad) = Some (bp, Inr block)"
    "bp_forks bp = forks ad" by (rule create_block_total [OF assms])
  let ?m = "Proposal h (cround (cstate (engine ad))) block (keypair ad) default_signature (valid_round (cstate (engine ad)))"
  show ?thesis using True c
    by (intro exI [of _ "ad\<lparr> block_producer := bp \<rparr>"] exI [of _ "[?m]"])
      (simp add: propose_if_leader_def produce_block_def msg_sender_def)
next
  case False
  then show ?thesis by (intro exI [of _ ad] exI [of _ "[]"]) (simp add: propose_if_leader_def)
qed

lemma process_engine_output_hosts:
  assumes "forks_ok (forks ad)" "adapter_room ad"
  shows "\<exists>ad' out. process_engine_output hashv sh eo ad = Some (ad', out) \<and> engine ad' = engine ad \<and>
    keypair ad' = keypair ad \<and> ao_messages out = out_messages eo \<and> block_committed out = (committed_block eo \<noteq> None) \<and>
    forks ad' = executed sh (committed_block eo) (forks ad)"
proof (cases "committed_block eo")
  case None
  then show ?thesis by (simp add: process_engine_output_def from_engine_output_def)
next
  case (Some cb)
  obtain b where b: "working_bank (forks ad) = Some b" by (rule forks_working [OF assms(1)])
  then have "has_room b" using assms(2) by (simp add: adapter_room_def)
  from execute_block_extends [OF assms(1) b this] Some b show ?thesis
    by (simp add: process_engine_output_def executed_def)
qed

lemma process_hosts:
  assumes "adapter_ok ad" "adapter_room ad" "engine_step hashv (engine ad) ev = (e, eo)"
    and "engine ad' = e" "keypair ad' = keypair ad" "block_producer ad' = block_producer ad"
  shows "\<exists>r. process_engine_output hashv sh eo ad' = Some r \<and> hosts hashv sh ad ev r"
proof -
  obtain ad'' out where "process_engine_output hashv sh eo ad' = Some (ad'', out)" "engine ad'' = e" "keypair ad'' = keypair ad"
    "ao_messages out = out_messages eo" "block_committed out = (committed_block eo \<noteq> None)"
    "forks ad'' = executed sh (committed_block eo) (forks ad)"
    using process_engine_output_hosts [of ad' hashv sh eo] assms by (auto simp: adapter_ok_def adapter_room_def)
  then show ?thesis using assms(3) by (intro exI [of _ "(ad'', out)"]) (simp add: hosts_def)
qed

lemma handle_message_hosts:
  assumes "adapter_ok ad" "adapter_room ad"
  obtains r where "handle_message hashv sh now m ad = Some r" "hosts hashv sh ad (message_event m) r"
proof -
  obtain e eo where st: "engine_step hashv (engine ad) (message_event m) = (e, eo)" by fastforce
  have *: "\<exists>r. process_engine_output hashv sh eo ad' = Some r \<and> hosts hashv sh ad (message_event m) r"
    if "engine ad' = e" "keypair ad' = keypair ad" "block_producer ad' = block_producer ad" for ad'
    by (rule process_hosts [OF assms st that])
  have "\<exists>r. handle_message hashv sh now m ad = Some r \<and> hosts hashv sh ad (message_event m) r"
  proof (cases m)
    case (Proposal h r b p sg vr)
    have "on_proposal hashv m (engine ad) = (e, eo)" using st by (simp add: Proposal)
    then show ?thesis using * [of "start_timer now PrevoteStep (ad\<lparr> engine := e \<rparr>)"] * [of "ad\<lparr> engine := e \<rparr>"]
      by (simp add: handle_message_def Proposal Let_def)
  next
    case (Prevote h r bh v sg)
    have "on_prevote m (engine ad) = (e, eo)" using st by (simp add: Prevote)
    then show ?thesis using * [of "start_timer now PrecommitStep (ad\<lparr> engine := e \<rparr>)"] * [of "ad\<lparr> engine := e \<rparr>"]
      by (simp add: handle_message_def Prevote Let_def)
  next
    case (Precommit h r bh v sg)
    have "on_precommit hashv m (engine ad) = (e, eo)" using st by (simp add: Precommit)
    then show ?thesis using * [of "ad\<lparr> engine := e \<rparr>"] by (simp add: handle_message_def Precommit Let_def)
  qed
  then show ?thesis using that by blast
qed

lemma check_timeouts_hosts:
  assumes "adapter_ok ad" "adapter_room ad" "check_expired now (timeout_scheduler ad) = Some s"
  obtains r where "check_timeouts hashv sh now now' wall ad = Some r" "hosts hashv sh ad (Timeout s) r"
proof -
  obtain e eo where st: "on_timeout s (engine ad) = (e, eo)" by (cases "on_timeout s (engine ad)")
  have *: "\<exists>r. process_engine_output hashv sh eo ad' = Some r \<and> hosts hashv sh ad (Timeout s) r"
    if "engine ad' = e" "keypair ad' = keypair ad" "block_producer ad' = block_producer ad" for ad'
    by (rule process_hosts [OF assms(1,2) _ that]) (simp add: st)
  have nc: "committed_block eo = None"
    using st by (auto simp: on_timeout_def propose_timeout_fired_def cast_precommit_def start_round_def output_empty_def
        with_messages_def Let_def split: ConsensusStep.splits if_splits)
  let ?ad = "start_timer now' Propose (ad\<lparr> engine := e \<rparr>)"
  obtain ad' ms where p: "propose_if_leader wall (height (cstate e)) (cround (cstate e)) (?ad, from_engine_output hashv eo) =
      Some (ad', (from_engine_output hashv eo)\<lparr> ao_messages := ao_messages (from_engine_output hashv eo) @ ms \<rparr>)"
    "engine ad' = engine ?ad" "keypair ad' = keypair ?ad" "forks ad' = forks ?ad"
    "\<forall>m \<in> set ms. \<not> is_vote m \<and> msg_sender m = keypair ?ad"
    using propose_if_leader_hosts [of ?ad wall "height (cstate e)" "cround (cstate e)" "from_engine_output hashv eo"] assms(1)
    by (auto simp: adapter_ok_def)
  have pr: "hosts hashv sh ad (Timeout s)
      (ad', (from_engine_output hashv eo)\<lparr> ao_messages := ao_messages (from_engine_output hashv eo) @ ms \<rparr>)"
    using p st nc by (simp add: hosts_def from_engine_output_def)
  have "\<exists>r. check_timeouts hashv sh now now' wall ad = Some r \<and> hosts hashv sh ad (Timeout s) r"
    using assms(3) st p(1) pr * [of "start_timer now' (cstep (cstate e)) (ad\<lparr> engine := e \<rparr>)"]
      * [of "cancel_timer (ad\<lparr> engine := e \<rparr>)"] * [of "ad\<lparr> engine := e \<rparr>"]
    by (cases "cstep (cstate e)") (simp_all add: check_timeouts_def)
  then show ?thesis using that by blast
qed

lemma start_height_hosts:
  assumes "adapter_ok ad"
  obtains r where "start_height hashv now wall h ad = Some r" "hosts hashv sh ad (StartHeight h) r"
    "\<not> block_committed (snd r)"
proof -
  obtain e where st: "start_new_height h (engine ad) = (e, output_empty)" by (simp add: start_new_height_def start_round_def)
  let ?ad = "start_timer now Propose (ad\<lparr> engine := e \<rparr>)" and ?o = "from_engine_output hashv output_empty"
  obtain ad' ms where p: "propose_if_leader wall h (cround (cstate e)) (?ad, ?o) = Some (ad', ?o\<lparr> ao_messages := ao_messages ?o @ ms \<rparr>)"
    "engine ad' = engine ?ad" "keypair ad' = keypair ?ad" "forks ad' = forks ?ad"
    "\<forall>m \<in> set ms. \<not> is_vote m \<and> msg_sender m = keypair ?ad"
    using propose_if_leader_hosts [of ?ad wall h "cround (cstate e)" ?o] assms by (auto simp: adapter_ok_def)
  then show ?thesis using that st
    by (auto simp: start_height_def hosts_def from_engine_output_def output_empty_def)
qed

lemma engine_step_identity: "identity (fst (engine_step hashv e ev)) = identity e"
  by (cases ev) (auto simp: start_new_height_def start_round_def on_proposal_def on_prevote_def on_precommit_def
      on_timeout_def propose_timeout_fired_def cast_precommit_def update_validator_set_def set_proposal_def Let_def
      split: ConsensusMessage.split ConsensusStep.split)

lemma engine_step_height:
  "(\<And>h. ev \<noteq> StartHeight h) \<Longrightarrow> height (cstate (fst (engine_step hashv e ev))) = height (cstate e)"
  "height (cstate (fst (engine_step hashv e (StartHeight h)))) = h"
  by (cases ev) (auto simp: start_new_height_def start_round_def on_proposal_def on_prevote_def on_precommit_def
      on_timeout_def propose_timeout_fired_def cast_precommit_def update_validator_set_def set_proposal_def Let_def
      split: ConsensusMessage.split ConsensusStep.split)

section \<open>The invariant of the service\<close>

text \<open>Every bank from slot \<open>s0\<close> up to the working bank is there and is the parent of the next one.\<close>

definition bank_chain :: "u64 \<Rightarrow> BankForks \<Rightarrow> bool" where
  "bank_chain s0 f \<longleftrightarrow> (\<forall>s. s0 \<le> s \<and> s < working_slot f \<longrightarrow>
     (\<exists>b c. hm_get (banks f) s = Some b \<and> hm_get (banks f) (s + 1) = Some c \<and>
        bk_parent_slot c = s \<and> bk_parent_hash c = bk_hash b))"

lemma bank_chain_extended:
  assumes "bank_chain s0 f" "working_bank f = Some b" "bk_slot b = working_slot f"
  shows "bank_chain s0 (extended sh b leader f)"
  unfolding bank_chain_def
proof (intro allI impI)
  fix s assume s: "s0 \<le> s \<and> s < working_slot (extended sh b leader f)"
  let ?m = "banks (extended sh b leader f)"
  have m: "hm_get ?m = (hm_get (banks f))(bk_slot b \<mapsto> bank_freeze sh b, bk_slot b + 1 \<mapsto> bank_freeze sh (child_bank sh b leader))"
    by (simp add: extended_def)
  show "\<exists>b c. hm_get ?m s = Some b \<and> hm_get ?m (s + 1) = Some c \<and> bk_parent_slot c = s \<and> bk_parent_hash c = bk_hash b"
  proof (cases "s = bk_slot b")
    case True
    then show ?thesis by (simp add: m child_bank_def)
  next
    case False
    with s assms(3) have "s0 \<le> s" "s < working_slot f" by (simp_all add: extended_def)
    then obtain x c where "hm_get (banks f) s = Some x" "hm_get (banks f) (s + 1) = Some c" "bk_parent_slot c = s"
      "bk_parent_hash c = bk_hash x" using assms(1) unfolding bank_chain_def by blast
    then show ?thesis using \<open>s < working_slot f\<close> assms(2,3) by (auto simp: m working_bank_def)
  qed
qed

definition service_base :: "pubkey \<Rightarrow> u64 \<Rightarrow> u64 \<Rightarrow> ConsensusService \<Rightarrow> bool" where
  "service_base me h0 s0 sv \<longleftrightarrow>
     adapter_ok (adapter sv) \<and> keypair (adapter sv) = me \<and>
     engine_log_inv (engine (adapter sv), filter is_vote (outbound sv)) \<and>
     (\<forall>m \<in> set (outbound sv). msg_sender m = me) \<and>
     h0 \<le> current_height sv \<and> working_slot (forks (adapter sv)) + h0 = s0 + current_height sv \<and>
     bank_chain s0 (forks (adapter sv))"

definition service_inv :: "pubkey \<Rightarrow> u64 \<Rightarrow> u64 \<Rightarrow> ConsensusService \<Rightarrow> bool" where
  "service_inv me h0 s0 sv \<longleftrightarrow> service_base me h0 s0 sv \<and> height (cstate (engine (adapter sv))) = current_height sv"

text \<open>What a run relies on: neither the height, nor the round, nor the slot of the next bank overflows.\<close>

definition service_ok :: "ConsensusService option \<Rightarrow> Tick \<Rightarrow> bool" where
  "service_ok s t \<longleftrightarrow> (\<forall>sv \<in> set_option s. current_height sv + 1 < 2 ^ 64 \<and>
     cround (cstate (engine (adapter sv))) + 1 < 2 ^ 32 \<and> adapter_room (adapter sv))"

text \<open>The votes of the engine extend the log; everything else the adapter sends is a proposal of its own.\<close>

lemma hosts_log:
  assumes h: "hosts hashv sh ad ev (ad', out)" and k: "keypair ad = me" "identity (engine ad) = me"
    and log: "engine_log_inv (engine ad, filter is_vote ms)" and own: "\<forall>m \<in> set ms. msg_sender m = me"
    and ok: "event_ok (filter is_vote ms = []) (engine ad) ev"
  shows "engine_log_inv (engine ad', filter is_vote (ms @ ao_messages out))" "\<forall>m \<in> set (ms @ ao_messages out). msg_sender m = me"
proof -
  obtain e eo where st: "engine_step hashv (engine ad) ev = (e, eo)" by fastforce
  obtain ps where o: "ao_messages out = out_messages eo @ ps" "\<forall>m \<in> set ps. \<not> is_vote m \<and> msg_sender m = me" and e: "engine ad' = e"
    using h k st by (auto simp: hosts_def)
  have inv: "engine_log_inv (e, filter is_vote ms @ out_messages eo)"
    using er.guarded_step [OF log, of ev hashv] ok st by simp
  have "identity e = me" using engine_step_identity [of hashv "engine ad" ev] st k by simp
  then have votes: "\<forall>m \<in> set (out_messages eo). is_vote m \<and> msg_sender m = me"
    using inv by (auto simp: msg_sender_def elim!: own_vote.elims(2) dest!: bspec)
  then have "filter is_vote (ms @ ao_messages out) = filter is_vote ms @ out_messages eo"
    using o by (auto simp: filter_empty_conv)
  then show "engine_log_inv (engine ad', filter is_vote (ms @ ao_messages out))" using inv e by simp
  show "\<forall>m \<in> set (ms @ ao_messages out). msg_sender m = me" using own votes o by auto
qed

declare engine_log_inv.simps [simp del]

lemma hosts_ok:
  assumes "hosts hashv sh ad ev (ad', out)" "adapter_ok ad"
  shows "adapter_ok ad'" "keypair ad' = keypair ad" "identity (engine ad') = identity (engine ad)"
proof -
  obtain e eo where st: "engine_step hashv (engine ad) ev = (e, eo)" by fastforce
  have "forks_ok (executed sh (committed_block eo) (forks ad))"
    using assms(2) extended_ok(1) by (auto simp: executed_def adapter_ok_def split: option.split)
  then show "adapter_ok ad'" "keypair ad' = keypair ad" "identity (engine ad') = identity (engine ad)"
    using assms engine_step_identity [of hashv "engine ad" ev] st by (auto simp: hosts_def adapter_ok_def)
qed

lemma enter_height_inv:
  assumes b: "service_base me h0 s0 sv"
    and ok: "event_ok (filter is_vote (outbound sv) = []) (engine (adapter sv)) (StartHeight (current_height sv))"
  shows "\<exists>sv'. enter_height hashv now wall sv = Some sv' \<and> service_inv me h0 s0 sv' \<and> running sv' = running sv"
proof -
  have ad: "adapter_ok (adapter sv)" and k: "keypair (adapter sv) = me" "identity (engine (adapter sv)) = me"
    and log: "engine_log_inv (engine (adapter sv), filter is_vote (outbound sv))"
    and own: "\<forall>m \<in> set (outbound sv). msg_sender m = me"
    using b by (auto simp: service_base_def adapter_ok_def)
  obtain r where r: "start_height hashv now wall (current_height sv) (adapter sv) = Some r"
    and h: "hosts hashv undefined (adapter sv) (StartHeight (current_height sv)) r" by (rule start_height_hosts [OF ad])
  obtain ad' out where p: "r = (ad', out)" by fastforce
  note h = h [unfolded p]
  have "committed_block (snd (engine_step hashv (engine (adapter sv)) (StartHeight (current_height sv)))) = None"
    by (simp add: start_new_height_def start_round_def output_empty_def)
  then have "engine ad' = fst (engine_step hashv (engine (adapter sv)) (StartHeight (current_height sv)))"
    and "forks ad' = forks (adapter sv)" using h by (auto simp: hosts_def split: prod.splits)
  then show ?thesis
    using r p b hosts_ok [OF h ad] hosts_log [OF h k log own ok] engine_step_height(2)
    by (simp add: enter_height_def broadcast_messages_def service_inv_def service_base_def)
qed

text \<open>A step of the engine within a height, followed by the next height when it commits.\<close>

lemma host_step_inv:
  assumes inv: "service_inv me h0 s0 sv" and h: "hosts hashv sh (adapter sv) ev (ad', out)"
    and ev: "\<And>h. ev \<noteq> StartHeight h" and ok: "event_ok (filter is_vote (outbound sv) = []) (engine (adapter sv)) ev"
    and bound: "current_height sv + 1 < 2 ^ 64"
  shows "\<not> block_committed out \<Longrightarrow> service_inv me h0 s0 (broadcast_messages out (sv\<lparr> adapter := ad' \<rparr>))"
    and "block_committed out \<Longrightarrow>
      \<exists>sv'. after_commit hashv t (broadcast_messages out (sv\<lparr> adapter := ad' \<rparr>)) = Some sv' \<and> service_inv me h0 s0 sv'"
proof -
  let ?sv = "broadcast_messages out (sv\<lparr> adapter := ad' \<rparr>)"
  obtain e eo where st: "engine_step hashv (engine (adapter sv)) ev = (e, eo)" by fastforce
  have ad: "adapter_ok (adapter sv)" and k: "keypair (adapter sv) = me" "identity (engine (adapter sv)) = me"
    and log: "engine_log_inv (engine (adapter sv), filter is_vote (outbound sv))"
    and own: "\<forall>m \<in> set (outbound sv). msg_sender m = me"
    using inv by (auto simp: service_inv_def service_base_def adapter_ok_def)
  note ad' = hosts_ok [OF h ad] and log' = hosts_log [OF h k log own ok]
  have hd: "height (cstate (engine ad')) = current_height sv"
    using engine_step_height(1) [OF ev, of hashv "engine (adapter sv)"] inv h st by (simp add: hosts_def service_inv_def)
  have f: "forks ad' = executed sh (committed_block eo) (forks (adapter sv))" "block_committed out = (committed_block eo \<noteq> None)"
    using h st by (auto simp: hosts_def)
  show "service_inv me h0 s0 ?sv" if "\<not> block_committed out"
    using that f inv ad' log' hd k by (simp add: service_inv_def service_base_def broadcast_messages_def)
  assume c: "block_committed out"
  then obtain cb where cb: "committed_block eo = Some cb" using f by auto
  obtain b where b: "working_bank (forks (adapter sv)) = Some b" "bk_slot b = working_slot (forks (adapter sv))"
    using ad by (auto simp: adapter_ok_def elim!: forks_working)
  have "bank_chain s0 (forks ad')" "working_slot (forks ad') = working_slot (forks (adapter sv)) + 1"
    using f cb b inv bank_chain_extended [OF _ b]
    by (simp_all add: executed_def service_inv_def service_base_def extended_def)
  then have "service_base me h0 s0 (?sv\<lparr> current_height := current_height sv + 1 \<rparr>)"
    using inv ad' log' k by (simp add: service_inv_def service_base_def broadcast_messages_def)
  moreover have "current_height ?sv = current_height sv" "engine (adapter ?sv) = engine ad'" by (simp_all add: broadcast_messages_def)
  ultimately show "\<exists>sv'. after_commit hashv t ?sv = Some sv' \<and> service_inv me h0 s0 sv'"
    using enter_height_inv [of me h0 s0 "?sv\<lparr> current_height := current_height sv + 1 \<rparr>" hashv "tk_start t" "tk_start_wall t"] bound hd
    by (auto simp: after_commit_def wadd_def)
qed

lemma service_tick_inv:
  assumes inv: "service_inv me h0 s0 sv" and ok: "service_ok (Some sv) t"
  shows "\<exists>sv'. service_tick hashv sh t sv = Some sv' \<and> service_inv me h0 s0 sv'"
proof -
  have ad: "adapter_ok (adapter sv)" and room: "adapter_room (adapter sv)" and bound: "current_height sv + 1 < 2 ^ 64"
    using inv ok by (simp_all add: service_inv_def service_base_def service_ok_def)
  have stop: "service_inv me h0 s0 (sv\<lparr> running := False \<rparr>)" using inv by (simp add: service_inv_def service_base_def)
  show ?thesis
  proof (cases "running sv \<and> \<not> tk_exit t")
    case False
    then show ?thesis using inv stop by (auto simp: service_tick_def)
  next
    case True
    show ?thesis
    proof (cases "tk_recv t")
      case (Received m)
      obtain ad' out where r: "handle_message hashv sh (tk_now t) m (adapter sv) = Some (ad', out)"
        and h: "hosts hashv sh (adapter sv) (message_event m) (ad', out)"
        using handle_message_hosts [OF ad room] by (metis surj_pair)
      have "event_ok (filter is_vote (outbound sv) = []) (engine (adapter sv)) (message_event m)" by (cases m) simp_all
      from host_step_inv [OF inv h _ this bound] r True Received show ?thesis
        by (cases m) (auto simp: service_tick_def Let_def)
    next
      case RecvTimeout
      show ?thesis
      proof (cases "check_expired (tk_now t) (timeout_scheduler (adapter sv))")
        case None
        then show ?thesis using inv True RecvTimeout
          by (simp add: service_tick_def check_timeouts_def adapter_output_empty_def)
      next
        case (Some s)
        obtain ad' out where r: "check_timeouts hashv sh (tk_now t) (tk_rearm t) (tk_wall t) (adapter sv) = Some (ad', out)"
          and h: "hosts hashv sh (adapter sv) (Timeout s) (ad', out)"
          using check_timeouts_hosts [OF ad room Some] by (metis surj_pair)
        have "event_ok (filter is_vote (outbound sv) = []) (engine (adapter sv)) (Timeout s)"
          using ok by (simp add: service_ok_def)
        from host_step_inv [OF inv h _ this bound] r True RecvTimeout show ?thesis
          by (auto simp: service_tick_def Let_def broadcast_messages_def)
      qed
    next
      case Disconnected
      then show ?thesis using stop True by (simp add: service_tick_def)
    qed
  qed
qed

definition service_state_inv :: "pubkey \<Rightarrow> u64 \<Rightarrow> u64 \<Rightarrow> ConsensusService option \<Rightarrow> bool" where
  "service_state_inv me h0 s0 s \<longleftrightarrow> (\<exists>sv. s = Some sv \<and> service_inv me h0 s0 sv)"

interpretation sv: guarded_system "service_run hashv sh" service_ok "service_state_inv me h0 s0" for hashv sh me h0 s0
proof unfold_locales
  fix s t
  assume "service_state_inv me h0 s0 s" "service_ok s t"
  then show "service_state_inv me h0 s0 (service_run hashv sh s t)"
    using service_tick_inv [of me h0 s0 _ t hashv sh] by (auto simp: service_state_inv_def service_run_def)
qed

lemma service_new_inv:
  assumes "forks_ok f"
  shows "service_state_inv me (cfg_start_height c) (working_slot f) (service_new hashv c me vs f queue now wall)"
proof -
  obtain b where b: "working_bank f = Some b" by (rule forks_working [OF assms])
  let ?bp = "BlockProducer_new f queue (block_producer_config c)"
  obtain ad where ad: "BftAdapter_new (bft_config c) me vs ?bp = Some ad" "engine ad = ConsensusEngine_new (bft_config c) me vs"
    "keypair ad = me" "forks ad = f" using b by (simp add: BftAdapter_new_def BlockProducer_new_def)
  let ?sv = "\<lparr> adapter = ad, current_height = cfg_start_height c, outbound = [], running = True \<rparr>"
  have "service_base me (cfg_start_height c) (working_slot f) ?sv"
    using ad assms engine_log_inv_new [of "bft_config c" me vs]
    by (auto simp: service_base_def adapter_ok_def bank_chain_def ConsensusEngine_new_def)
  then have "\<exists>sv. enter_height hashv now wall ?sv = Some sv \<and> service_inv me (cfg_start_height c) (working_slot f) sv \<and> running sv = True"
    using enter_height_inv [of me "cfg_start_height c" "working_slot f" ?sv hashv now wall] ad
    by (auto simp: ConsensusEngine_new_def ConsensusState_new_def)
  then show ?thesis using ad by (auto simp: service_state_inv_def service_new_def)
qed

lemma service_run_inv:
  assumes "forks_ok f" "guarded_run (service_run hashv sh) service_ok (service_new hashv c me vs f queue now wall) ts"
  obtains sv where "foldl (service_run hashv sh) (service_new hashv c me vs f queue now wall) ts = Some sv"
    "service_inv me (cfg_start_height c) (working_slot f) sv"
  using sv.guarded_inv [OF service_new_inv [OF assms(1)] assms(2)] by (auto simp: service_state_inv_def)

end
