(* ===== verification/Service_Liveness.thy ===== *)
theory Service_Liveness
  imports Service_Runs
begin

text \<open>
  When the consensus service makes progress: with no messages and late clocks it goes through the rounds of
  its height, and it stands still for as long as messages of other heights keep coming.
\<close>

section \<open>Expired timeouts\<close>

text \<open>A pass of the loop in which no message came and the running timeout is over.\<close>

definition idle_ok :: "ConsensusService option \<Rightarrow> Tick \<Rightarrow> bool" where
  "idle_ok s t \<longleftrightarrow> (\<forall>sv \<in> set_option s. \<not> tk_exit t \<and> tk_recv t = RecvTimeout \<and>
     check_expired (tk_now t) (timeout_scheduler (adapter sv)) \<noteq> None)"

text \<open>A service that waits in a step of round \<open>r\<close> for the timeout of that step.\<close>

definition waits :: "ConsensusStep \<Rightarrow> u64 \<Rightarrow> u32 \<Rightarrow> pubkey \<Rightarrow> ConsensusService \<Rightarrow> bool" where
  "waits s h r me sv \<longleftrightarrow> (let e = engine (adapter sv) in
     running sv \<and> adapter_ok (adapter sv) \<and> identity e = me \<and> height (cstate e) = h \<and> cround (cstate e) = r \<and>
     cstep (cstate e) = s \<and> sent_prevote e = (s > Propose) \<and> sent_precommit e = (s > PrevoteStep) \<and>
     active_step (timeout_scheduler (adapter sv)) = Some s)"

lemma expired_active: "check_expired now ts = Some s \<Longrightarrow> active_step ts = Some s"
  by (auto simp: check_expired_def split: option.splits if_splits)

lemma late_tick:
  assumes "waits s h r me sv" "idle_ok (Some sv) t"
  shows "service_tick hashv sh t sv = do {
      (ad, out) \<leftarrow> check_timeouts hashv sh (tk_now t) (tk_rearm t) (tk_wall t) (adapter sv);
      let sv = broadcast_messages out (sv\<lparr> adapter := ad \<rparr>);
      if block_committed out then after_commit hashv t sv else Some sv }"
    and "check_expired (tk_now t) (timeout_scheduler (adapter sv)) = Some s"
proof -
  show "check_expired (tk_now t) (timeout_scheduler (adapter sv)) = Some s"
    using assms expired_active [of "tk_now t" "timeout_scheduler (adapter sv)"] by (auto simp: idle_ok_def waits_def Let_def)
  show "service_tick hashv sh t sv = do {
      (ad, out) \<leftarrow> check_timeouts hashv sh (tk_now t) (tk_rearm t) (tk_wall t) (adapter sv);
      let sv = broadcast_messages out (sv\<lparr> adapter := ad \<rparr>);
      if block_committed out then after_commit hashv t sv else Some sv }"
    using assms by (auto simp: service_tick_def idle_ok_def waits_def Let_def broadcast_messages_def
        intro!: Option.bind_cong split: if_splits)
qed

lemma propose_late:
  assumes "waits Propose h r me sv" "idle_ok (Some sv) t"
  shows "\<exists>sv'. service_tick hashv sh t sv = Some sv' \<and> waits PrevoteStep h r me sv' \<and>
    outbound sv' = outbound sv @ [Prevote h r None me default_signature]"
  using assms(1) late_tick [OF assms]
  by (auto simp: check_timeouts_def on_timeout_def propose_timeout_fired_def waits_def Let_def process_engine_output_def
      from_engine_output_def with_messages_def broadcast_messages_def make_prevote_def adapter_ok_def ts_start_def start_timer_def
      ConsensusStep_order)

lemma prevote_late:
  assumes "waits PrevoteStep h r me sv" "idle_ok (Some sv) t"
  shows "\<exists>sv'. service_tick hashv sh t sv = Some sv' \<and> waits PrecommitStep h r me sv' \<and>
    outbound sv' = outbound sv @ [Precommit h r None me default_signature]"
  using assms(1) late_tick [OF assms]
  by (auto simp: check_timeouts_def on_timeout_def waits_def Let_def process_engine_output_def cast_precommit_def output_empty_def
      from_engine_output_def broadcast_messages_def make_precommit_def adapter_ok_def ts_start_def start_timer_def
      ConsensusStep_order)

lemma precommit_late:
  assumes w: "waits PrecommitStep h r me sv" and t: "idle_ok (Some sv) t" and r: "r + 1 < 2 ^ 32"
  shows "\<exists>sv' ms. service_tick hashv sh t sv = Some sv' \<and> waits Propose h (r + 1) me sv' \<and>
    outbound sv' = outbound sv @ ms \<and> filter is_vote ms = []"
proof -
  obtain e where e: "on_timeout PrecommitStep (engine (adapter sv)) = (e, output_empty)" "height (cstate e) = h" "cround (cstate e) = r + 1"
    "cstep (cstate e) = Propose" "identity e = me" "\<not> sent_prevote e" "\<not> sent_precommit e"
    using w r by (simp add: on_timeout_def start_round_def waits_def Let_def wadd_def)
  let ?ad = "start_timer (tk_rearm t) Propose ((adapter sv)\<lparr> engine := e \<rparr>)"
  have ok: "adapter_ok (adapter sv)" using w by (simp add: waits_def Let_def)
  then obtain ad' ms where p: "propose_if_leader (tk_wall t) h (r + 1) (?ad, from_engine_output hashv output_empty) =
      Some (ad', (from_engine_output hashv output_empty)\<lparr> ao_messages := ao_messages (from_engine_output hashv output_empty) @ ms \<rparr>)"
    "engine ad' = engine ?ad" "keypair ad' = keypair ?ad" "forks ad' = forks ?ad"
    "\<forall>m \<in> set ms. \<not> is_vote m \<and> msg_sender m = keypair ?ad"
    using propose_if_leader_hosts [of ?ad "tk_wall t" h "r + 1" "from_engine_output hashv output_empty"]
    by (auto simp: adapter_ok_def)
  have ts: "timeout_scheduler ad' = timeout_scheduler ?ad"
    using p(1) by (auto simp: propose_if_leader_def produce_block_def split: if_splits bind_splits)
  have "service_tick hashv sh t sv = Some (broadcast_messages
      ((from_engine_output hashv output_empty)\<lparr> ao_messages := ao_messages (from_engine_output hashv output_empty) @ ms \<rparr>)
      (sv\<lparr> adapter := ad' \<rparr>))"
    using late_tick [OF w t] e p(1) by (simp add: check_timeouts_def from_engine_output_def output_empty_def Let_def)
  then show ?thesis using w ok e p ts
    by (auto simp: waits_def Let_def adapter_ok_def broadcast_messages_def from_engine_output_def output_empty_def
        start_timer_def ts_start_def filter_empty_conv ConsensusStep_order)
qed

definition nil_votes :: "u64 \<Rightarrow> pubkey \<Rightarrow> u32 \<Rightarrow> ConsensusMessage list" where
  "nil_votes h me r = [Prevote h r None me default_signature, Precommit h r None me default_signature]"

lemma idle_round:
  assumes w: "waits Propose h r me sv" and r: "r + 1 < 2 ^ 32"
    and g: "guarded_run (service_run hashv sh) idle_ok (Some sv) [t1, t2, t3]"
  obtains sv' where "foldl (service_run hashv sh) (Some sv) [t1, t2, t3] = Some sv'" "waits Propose h (r + 1) me sv'"
    "filter is_vote (outbound sv') = filter is_vote (outbound sv) @ nil_votes h me r"
proof -
  obtain sv1 where 1: "service_tick hashv sh t1 sv = Some sv1" "waits PrevoteStep h r me sv1"
    "outbound sv1 = outbound sv @ [Prevote h r None me default_signature]" using propose_late [OF w, of t1 hashv sh] g by auto
  obtain sv2 where 2: "service_tick hashv sh t2 sv1 = Some sv2" "waits PrecommitStep h r me sv2"
    "outbound sv2 = outbound sv1 @ [Precommit h r None me default_signature]"
    using prevote_late [OF 1(2), of t2 hashv sh] g 1(1) by (auto simp: service_run_def)
  obtain sv3 ms where 3: "service_tick hashv sh t3 sv2 = Some sv3" "waits Propose h (r + 1) me sv3"
    "outbound sv3 = outbound sv2 @ ms" "filter is_vote ms = []"
    using precommit_late [OF 2(2) _ r, of t3 hashv sh] g 1(1) 2(1) by (auto simp: service_run_def)
  show ?thesis by (rule that [of sv3]) (use 1 2 3 in \<open>simp_all add: service_run_def nil_votes_def\<close>)
qed

lemma guarded_run_append:
  "guarded_run step ok s (xs @ ys) \<longleftrightarrow> guarded_run step ok s xs \<and> guarded_run step ok (foldl step s xs) ys"
  by (induction xs arbitrary: s) auto

lemma idle_rounds:
  "waits Propose h r me sv \<Longrightarrow> r + n < 2 ^ 32 \<Longrightarrow> length ts = 3 * n \<Longrightarrow>
   guarded_run (service_run hashv sh) idle_ok (Some sv) ts \<Longrightarrow>
   \<exists>sv'. foldl (service_run hashv sh) (Some sv) ts = Some sv' \<and> waits Propose h (r + n) me sv' \<and>
     filter is_vote (outbound sv') = filter is_vote (outbound sv) @ concat (map (nil_votes h me) [r..<r + n])"
proof (induction n arbitrary: r sv ts)
  case (Suc n)
  obtain t1 t2 t3 rest where ts: "ts = [t1, t2, t3] @ rest" "length rest = 3 * n"
    using Suc.prems(3) by (auto simp: length_Suc_conv numeral_3_eq_3)
  have g: "guarded_run (service_run hashv sh) idle_ok (Some sv) [t1, t2, t3]"
    "guarded_run (service_run hashv sh) idle_ok (foldl (service_run hashv sh) (Some sv) [t1, t2, t3]) rest"
    using Suc.prems(4) unfolding ts(1) guarded_run_append by blast+
  obtain sv1 where 1: "foldl (service_run hashv sh) (Some sv) [t1, t2, t3] = Some sv1" "waits Propose h (r + 1) me sv1"
    "filter is_vote (outbound sv1) = filter is_vote (outbound sv) @ nil_votes h me r"
    by (rule idle_round [OF Suc.prems(1) _ g(1)]) (use Suc.prems(2) in simp)
  from Suc.IH [OF 1(2) _ ts(2) g(2) [unfolded 1(1)]] Suc.prems(2) obtain sv' where
    "foldl (service_run hashv sh) (Some sv1) rest = Some sv'" "waits Propose h (r + 1 + n) me sv'"
    "filter is_vote (outbound sv') = filter is_vote (outbound sv1) @ concat (map (nil_votes h me) [r + 1..<r + 1 + n])"
    by auto
  then show ?case using 1 unfolding ts(1) foldl_append by (simp add: upt_conv_Cons del: upt_Suc)
qed simp

lemma service_new_waits:
  assumes "forks_ok f"
  obtains sv where "service_new hashv c me vs f queue now wall = Some sv" "waits Propose (cfg_start_height c) 0 me sv"
    "filter is_vote (outbound sv) = []"
proof -
  obtain b where b: "working_bank f = Some b" by (rule forks_working [OF assms])
  let ?bp = "BlockProducer_new f queue (block_producer_config c)" and ?h = "cfg_start_height c"
  obtain ad where ad: "BftAdapter_new (bft_config c) me vs ?bp = Some ad" "engine ad = ConsensusEngine_new (bft_config c) me vs"
    "keypair ad = me" "forks ad = f" using b by (simp add: BftAdapter_new_def BlockProducer_new_def)
  obtain e where e: "start_new_height ?h (engine ad) = (e, output_empty)" "height (cstate e) = ?h" "cround (cstate e) = 0"
    "cstep (cstate e) = Propose" "identity e = me" "\<not> sent_prevote e" "\<not> sent_precommit e"
    using ad by (simp add: start_new_height_def start_round_def ConsensusEngine_new_def ConsensusState_new_def)
  let ?ad = "start_timer now Propose (ad\<lparr> engine := e \<rparr>)" and ?o = "from_engine_output hashv output_empty"
  obtain ad' ms where p: "propose_if_leader wall ?h 0 (?ad, ?o) = Some (ad', ?o\<lparr> ao_messages := ao_messages ?o @ ms \<rparr>)"
    "engine ad' = engine ?ad" "keypair ad' = keypair ?ad" "forks ad' = forks ?ad"
    "\<forall>m \<in> set ms. \<not> is_vote m \<and> msg_sender m = keypair ?ad"
    using propose_if_leader_hosts [of ?ad wall ?h 0 ?o] ad assms by auto
  have ts: "timeout_scheduler ad' = timeout_scheduler ?ad"
    using p(1) by (auto simp: propose_if_leader_def produce_block_def split: if_splits bind_splits)
  show ?thesis
    by (rule that [of "\<lparr> adapter = ad', current_height = ?h, outbound = ms, running = True \<rparr>"])
      (use ad e p ts assms in \<open>auto simp: service_new_def enter_height_def start_height_def Let_def waits_def adapter_ok_def
        broadcast_messages_def from_engine_output_def output_empty_def start_timer_def ts_start_def filter_empty_conv ConsensusStep_order\<close>)
qed

section \<open>Messages of other heights\<close>

lemma other_height_step: "msg_height m \<noteq> height (cstate e) \<Longrightarrow> engine_step hashv e (message_event m) = (e, output_empty)"
  by (cases m) (simp_all add: on_proposal_def on_prevote_def on_precommit_def)

lemma other_height_tick:
  assumes "running sv" "\<not> tk_exit t" "tk_recv t = Received m" "msg_height m \<noteq> height (cstate (engine (adapter sv)))"
  shows "\<exists>sv'. service_tick hashv sh t sv = Some sv' \<and> engine (adapter sv') = engine (adapter sv) \<and> outbound sv' = outbound sv \<and>
    current_height sv' = current_height sv \<and> running sv'"
  using assms other_height_step [OF assms(4), of hashv]
  by (cases m) (simp_all add: service_tick_def handle_message_def process_engine_output_def from_engine_output_def
      output_empty_def broadcast_messages_def Let_def)

end
