(* ===== verification/Service_Properties.thy ===== *)
theory Service_Properties
  imports Service_Liveness
begin

text \<open>Properties of the consensus service, with a validator that is alone as the example.\<close>

section \<open>An example: a validator of its own\<close>

definition solo_set :: ValidatorSet where
  "solo_set = ValidatorSet_new [([1], 10)]"

lemma solo_set_eval:
  "validators solo_set = [\<lparr> vi_pubkey = [1], vi_stake = 10 \<rparr>]" "total_stake solo_set = 10"
  "stake_of solo_set [1] = 10" "vs_contains solo_set [1]"
  by (simp_all add: solo_set_def ValidatorSet_new_def validator_key_def wsum_def wadd_def
      stake_of_def get_by_pubkey_def build_index_def vs_contains_def)

lemma solo_proposer: "proposer_for_round solo_set h r = Some [1]"
  by (simp add: proposer_for_round_def vs_is_empty_def solo_set_eval Let_def sat_add_def umax_def)

lemma solo_quorum: "quorum_stake solo_set (finality_threshold BftConfig_default) = 7"
  unfolding default_threshold_def [symmetric]
  by (simp add: quorum_stake_def solo_set_eval f64_of_nat_exact f64_mul_def default_threshold_value
      f64_eval rnd_mag.simps [of "15019504757280605 / 2251799813685248"] f64_ceil_def f64_to_u64_def umax_def)

abbreviation solo_new :: "ConsensusService option" where
  "solo_new \<equiv> service_new concat ConsensusServiceConfig_default [1] solo_set example_forks [[[9]]] 0 7"

definition solo_block :: ProposedBlock where
  "solo_block = \<lparr> parent_hash = replicate 32 2, blk_height = 1, timestamp = 7, transactions = [[9]],
     state_root = replicate 32 2, blk_proposer = [1] \<rparr>"

definition solo_hash :: hash where
  "solo_hash = block_hash concat solo_block"

definition tick :: "nat \<Rightarrow> RecvResult \<Rightarrow> Tick" where
  "tick now r = \<lparr> tk_exit = False, tk_recv = r, tk_now = now, tk_rearm = now, tk_wall = 8, tk_start = now, tk_start_wall = 9 \<rparr>"

lemmas solo_eval = ConsensusEngine_new_def ConsensusState_new_def on_proposal_def
  on_prevote_def on_precommit_def try_commit_def try_advance_from_prevotes_def cast_precommit_def
  enter_round_def set_proposal_def record_prevote_def determine_prevote_def find_quorum_prevote_hash_def
  find_quorum_precommit_hash_def has_any_quorum_prevotes_def engine_quorum_def solo_quorum solo_set_eval(2-)
  solo_proposer stake_by_hash_def hm_bump_def wadd_def wsum_def make_prevote_def make_precommit_def output_defs advance_round_def

text \<open>The service at its first height, by the step and the votes of its engine.\<close>

definition solo_engine :: "ConsensusStep \<Rightarrow> ProposedBlock option \<Rightarrow> bool \<Rightarrow> hash option \<Rightarrow> u32 option \<Rightarrow> ConsensusEngine" where
  "solo_engine s prop voted lock lr =
     \<lparr> eng_config = BftConfig_default, identity = [1], validator_set = solo_set,
       cstate = \<lparr> height = 1, cround = 0, cstep = s, locked_value = lock, locked_round = lr,
         valid_value = lock, valid_round = lr, prevotes = (if voted then [([1], lock)] else []),
         precommits = (if voted then [([1], lock)] else []), proposal = prop \<rparr>,
       evidence = EvidenceCollector_new, sent_prevote = voted, sent_precommit = voted \<rparr>"

definition solo_service :: "ConsensusEngine \<Rightarrow> TimeoutScheduler \<Rightarrow> ConsensusMessage list \<Rightarrow> ConsensusService" where
  "solo_service e ts ms =
     \<lparr> adapter = \<lparr> engine = e, timeout_scheduler = ts, keypair = [1],
         block_producer = \<lparr> bp_forks = example_forks, tx_receiver = [], bp_config = BlockProducerConfig_default \<rparr>,
         last_committed_hash = replicate 32 2 \<rparr>,
       current_height = 1, outbound = ms, running = True \<rparr>"

definition solo_proposal :: ConsensusMessage where
  "solo_proposal = Proposal 1 0 solo_block [1] default_signature None"

definition solo_timer :: "nat \<Rightarrow> ConsensusStep \<Rightarrow> TimeoutScheduler" where
  "solo_timer now s = ts_start now s 0 (TimeoutScheduler_new BftConfig_default)"

lemma solo_start: "solo_new = Some (solo_service (solo_engine Propose None False None None) (solo_timer 0 Propose) [solo_proposal])"
  by (simp add: service_new_def BftAdapter_new_def BlockProducer_new_def ConsensusServiceConfig_default_def
      BlockProducerConfig_default_def enter_height_def start_height_def start_new_height_def start_round_def
      propose_if_leader_def engine_is_proposer_def is_proposer_def produce_block_def create_block_def solo_eval
      start_timer_def from_engine_output_def broadcast_messages_def solo_block_def example_bank_def
      solo_service_def solo_engine_def solo_timer_def solo_proposal_def prune_def hm_retain_def EvidenceCollector_new_def)

abbreviation solo_precommit :: ConsensusMessage where
  "solo_precommit \<equiv> Precommit 1 0 (Some solo_hash) [1] default_signature"

text \<open>Its own proposal comes back and completes the prevotes.\<close>

lemma solo_prevote:
  "service_tick concat (\<lambda>_. [1]) (tick 5 (Received solo_proposal)) (solo_service (solo_engine Propose None False None None) (solo_timer 0 Propose) ms) =
     Some (solo_service (solo_engine PrecommitStep (Some solo_block) True (Some solo_hash) (Some 0)) (solo_timer 5 PrevoteStep)
       (ms @ [Prevote 1 0 (Some solo_hash) [1] default_signature, solo_precommit]))"
  by (simp add: service_tick_def tick_def solo_service_def handle_message_def solo_proposal_def solo_engine_def solo_eval Let_def
      solo_hash_def [symmetric] process_engine_output_def from_engine_output_def broadcast_messages_def start_timer_def
      solo_timer_def ts_start_def ConsensusStep_order)

text \<open>Its own precommit comes back and completes the commit; the next height begins.\<close>

lemma solo_commit:
  "\<exists>sv. service_tick concat (\<lambda>_. [1]) (tick 6 (Received solo_precommit))
       (solo_service (solo_engine PrecommitStep (Some solo_block) True (Some solo_hash) (Some 0)) ts ms) = Some sv \<and> current_height sv = 2"
proof -
  let ?cb = "\<lparr> cb_block = solo_block, commit_signatures = [([1], default_signature)], commit_round = 0 \<rparr>"
  let ?bp = "\<lparr> bp_forks = example_forks, tx_receiver = [], bp_config = BlockProducerConfig_default \<rparr>"
  let ?f = "extended (\<lambda>_. [1]) example_bank [1] example_forks"
  have ex: "execute_block (\<lambda>_. [1]) ?cb ?bp = Some (?bp\<lparr> bp_forks := ?f \<rparr>, Inr default_hash)"
    using execute_block_extends [of ?bp example_bank "\<lambda>_. [1]" ?cb]
    by (simp add: has_room_def example_bank_def solo_block_def)
  have w: "working_bank ?f = Some (bank_freeze (\<lambda>_. [1]) (child_bank (\<lambda>_. [1]) example_bank [1]))" by (rule extended_ok) simp_all
  show ?thesis
    by (simp add: service_tick_def tick_def solo_service_def handle_message_def solo_engine_def solo_eval Let_def commit_sigs_def
        solo_hash_def [symmetric] process_engine_output_def ex w broadcast_messages_def after_commit_def enter_height_def start_height_def
        start_new_height_def start_round_def propose_if_leader_def engine_is_proposer_def is_proposer_def produce_block_def create_block_def
        cancel_timer_def start_timer_def)
qed

abbreviation solo_ticks :: "Tick list" where
  "solo_ticks \<equiv> [tick 5 (Received solo_proposal), tick 6 (Received solo_precommit)]"

lemma solo_ok: "service_ok (Some (solo_service (solo_engine s prop voted lock lr) ts ms)) t"
  by (simp add: service_ok_def solo_service_def solo_engine_def adapter_room_def has_room_def example_bank_def)

lemma solo_guarded: "guarded_run (service_run concat (\<lambda>_. [1])) service_ok solo_new solo_ticks"
  by (simp add: solo_start service_run_def solo_prevote solo_ok)

lemma solo_run: "\<exists>sv. foldl (service_run concat (\<lambda>_. [1])) solo_new solo_ticks = Some sv \<and> current_height sv = 2"
  using solo_commit by (simp add: solo_start service_run_def solo_prevote)

lemma solo_first: "cfg_start_height ConsensusServiceConfig_default = 1" "working_slot example_forks = 9"
  by (simp_all add: ConsensusServiceConfig_default_def example_forks_def)

section \<open>Properties\<close>

text \<open>
  C4: Started on well-formed bank forks, whatever messages arrive at the consensus service and whenever its timeouts
  fire, as long as neither its height, nor its round, nor the slot of its next bank is about to overflow, it does not
  panic, all it sends is its own, and it never sends two different prevotes, nor two different precommits, for the
  same height and round. A round close to the largest \<^verbatim>\<open>u32\<close> can be reached at once by a proposal for it; from there on nothing is
  claimed.
\<close>

theorem service_never_double_votes:
  assumes "forks_ok f" "guarded_run (service_run hashv sh) service_ok (service_new hashv c me vs f queue now wall) ts"
  shows "\<exists>sv. foldl (service_run hashv sh) (service_new hashv c me vs f queue now wall) ts = Some sv \<and>
    votes_unique (set (outbound sv)) \<and> (\<forall>m. m \<in> set (outbound sv) \<longrightarrow> msg_sender m = me)"
proof -
  obtain sv where "foldl (service_run hashv sh) (service_new hashv c me vs f queue now wall) ts = Some sv"
    "service_inv me (cfg_start_height c) (working_slot f) sv" by (rule service_run_inv [OF assms])
  then show ?thesis by (auto simp: service_inv_def service_base_def engine_log_inv.simps votes_unique_def)
qed

text \<open>
  C8: Started on well-formed bank forks, and as long as neither height, nor round, nor slot is about to overflow, the service
  decides its heights one after the other and executes exactly one block for each: the slot of
  the working bank is ahead of the first one by as many slots as heights were decided, and the banks in
  between form a chain of parent slots and parent hashes.
\<close>

theorem service_ledger_grows:
  assumes "forks_ok f" "guarded_run (service_run hashv sh) service_ok (service_new hashv c me vs f queue now wall) ts"
  shows "\<exists>sv. foldl (service_run hashv sh) (service_new hashv c me vs f queue now wall) ts = Some sv \<and>
    height (cstate (engine (adapter sv))) = current_height sv \<and> cfg_start_height c \<le> current_height sv \<and>
    working_slot (forks (adapter sv)) = working_slot f + (current_height sv - cfg_start_height c) \<and>
    forks_ok (forks (adapter sv)) \<and> bank_chain (working_slot f) (forks (adapter sv))"
proof -
  obtain sv where "foldl (service_run hashv sh) (service_new hashv c me vs f queue now wall) ts = Some sv"
    "service_inv me (cfg_start_height c) (working_slot f) sv" by (rule service_run_inv [OF assms])
  then show ?thesis by (auto simp: service_inv_def service_base_def adapter_ok_def)
qed

theorem service_never_double_votes_witness:
  "\<exists>sv. foldl (service_run concat (\<lambda>_. [1])) solo_new solo_ticks = Some sv \<and> votes_unique (set (outbound sv))"
  using service_never_double_votes [OF example_forks_ok(1) solo_guarded] by blast

theorem service_ledger_grows_witness:
  "\<exists>sv. foldl (service_run concat (\<lambda>_. [1])) solo_new solo_ticks = Some sv \<and>
     working_slot (forks (adapter sv)) = 10 \<and> bank_chain 9 (forks (adapter sv))"
  using service_ledger_grows [OF example_forks_ok(1) solo_guarded] solo_run by (auto simp: solo_first)

section \<open>Progress\<close>

text \<open>
  C33: A service that receives no messages does not get stuck: from its start, every three timeouts
  that run out take it to the next round of its height, and what it has voted is one nil prevote and one nil
  precommit for each round it has left.
\<close>

theorem idle_service_changes_rounds:
  assumes "forks_ok f" "n < 2 ^ 32" "length ts = 3 * n"
    and "guarded_run (service_run hashv sh) idle_ok (service_new hashv c me vs f queue now wall) ts"
  shows "\<exists>sv. foldl (service_run hashv sh) (service_new hashv c me vs f queue now wall) ts = Some sv \<and>
    cround (cstate (engine (adapter sv))) = n \<and> cstep (cstate (engine (adapter sv))) = Propose \<and>
    filter is_vote (outbound sv) = concat (map (nil_votes (cfg_start_height c) me) [0..<n])"
proof -
  obtain sv where s: "service_new hashv c me vs f queue now wall = Some sv" "waits Propose (cfg_start_height c) 0 me sv"
    "filter is_vote (outbound sv) = []" by (rule service_new_waits [OF assms(1)])
  from idle_rounds [OF s(2) _ assms(3), of hashv sh] assms(2,4) s(1,3) show ?thesis
    by (auto simp: waits_def Let_def)
qed

text \<open>
  C34: The timeouts of the loop are looked at only when no message came. As long as messages of other heights
  keep coming, the service never leaves its round and never sends anything, however late the clock is.
\<close>

theorem messages_starve_timeouts:
  assumes "running sv" "\<forall>t \<in> set ts. \<not> tk_exit t \<and>
      (\<exists>m. tk_recv t = Received m \<and> msg_height m \<noteq> height (cstate (engine (adapter sv))))"
  shows "\<exists>sv'. foldl (service_run hashv sh) (Some sv) ts = Some sv' \<and> engine (adapter sv') = engine (adapter sv) \<and>
    outbound sv' = outbound sv \<and> current_height sv' = current_height sv \<and> running sv'"
  using assms
proof (induction ts arbitrary: sv)
  case (Cons t ts)
  from Cons.prems(2) obtain m where m: "\<not> tk_exit t" "tk_recv t = Received m" "msg_height m \<noteq> height (cstate (engine (adapter sv)))"
    by auto
  then obtain sv1 where 1: "service_tick hashv sh t sv = Some sv1" "engine (adapter sv1) = engine (adapter sv)"
    "outbound sv1 = outbound sv" "current_height sv1 = current_height sv" "running sv1"
    using other_height_tick [OF Cons.prems(1) m] by blast
  have rest: "\<forall>t \<in> set ts. \<not> tk_exit t \<and> (\<exists>m. tk_recv t = Received m \<and> msg_height m \<noteq> height (cstate (engine (adapter sv1))))"
    using Cons.prems(2) 1(2) by simp
  from Cons.IH [OF 1(5) rest] 1 show ?case by (simp add: service_run_def)
qed simp

abbreviation late_ticks :: "Tick list" where
  "late_ticks \<equiv> [tick 3000000000 RecvTimeout, tick 4000000000 RecvTimeout, tick 5000000000 RecvTimeout]"

lemmas solo_idle = idle_ok_def service_run_def service_tick_def tick_def check_timeouts_def check_expired_def solo_timer_def
  ts_start_def TimeoutScheduler_new_def timeout_duration_def from_millis_def default_propose_timeout on_timeout_def
  propose_timeout_fired_def process_engine_output_def from_engine_output_def broadcast_messages_def start_timer_def
  ConsensusStep_order

lemma solo_idle_guarded: "guarded_run (service_run concat (\<lambda>_. [1])) idle_ok solo_new late_ticks"
  by (simp add: solo_start solo_service_def solo_engine_def solo_idle solo_eval Let_def BftConfig_default_def propose_timeout_def wmul_def)

theorem idle_service_changes_rounds_witness:
  "\<exists>sv. foldl (service_run concat (\<lambda>_. [1])) solo_new late_ticks = Some sv \<and> cround (cstate (engine (adapter sv))) = 1"
  using idle_service_changes_rounds [OF example_forks_ok(1) _ _ solo_idle_guarded, of 1] by auto

theorem messages_starve_timeouts_witness:
  "\<exists>sv. foldl (service_run concat (\<lambda>_. [1]))
     (Some (solo_service (solo_engine Propose None False None None) (solo_timer 0 Propose) []))
     (replicate 1000 (tick (10 ^ 30) (Received (Prevote 0 0 None [5] [])))) = Some sv \<and> outbound sv = []"
proof -
  let ?sv = "solo_service (solo_engine Propose None False None None) (solo_timer 0 Propose) []"
  have "running ?sv" "outbound ?sv = []" "height (cstate (engine (adapter ?sv))) = 1"
    by (simp_all add: solo_service_def solo_engine_def)
  then show ?thesis
    using messages_starve_timeouts [of ?sv "replicate 1000 (tick (10 ^ 30) (Received (Prevote 0 0 None [5] [])))" concat "\<lambda>_. [1]"]
    by (auto simp: tick_def)
qed

end
