(* ===== verification/Service_Network.thy ===== *)
theory Service_Network
  imports Service_Liveness
begin

text \<open>
  A network in which every validator runs the consensus service, and the service receives only messages that a service
  has sent before. The example shows two services that decide different blocks for the same height, with
  no fault other than delays: a proposer that has seen a quorum of prevotes proposes a new block with the round
  of that quorum as its valid round, and engines that are locked take that claim as a reason to prevote the new block.
\<close>

section \<open>The network\<close>

type_synonym service_net = "pubkey \<Rightarrow> ConsensusService option"

definition net_start ::
    "(bytes list \<Rightarrow> hash) \<Rightarrow> ConsensusServiceConfig \<Rightarrow> ValidatorSet \<Rightarrow> BankForks \<Rightarrow> nat \<Rightarrow> i64 \<Rightarrow> service_net" where
  "net_start hashv c vs f now wall = (\<lambda>me. service_new hashv c me vs f [] now wall)"

fun net_tick :: "(bytes list \<Rightarrow> hash) \<Rightarrow> (Bank \<Rightarrow> hash) \<Rightarrow> service_net \<Rightarrow> pubkey \<times> Tick \<Rightarrow> service_net" where
  "net_tick hashv sh N (i, t) = N(i := service_run hashv sh (N i) t)"

fun net_ok :: "service_net \<Rightarrow> pubkey \<times> Tick \<Rightarrow> bool" where
  "net_ok N (i, t) \<longleftrightarrow> (\<forall>m. tk_recv t = Received m \<longrightarrow> (\<exists>j sv. N j = Some sv \<and> m \<in> set (outbound sv)))"

section \<open>An execution without faults\<close>

definition fork_set :: ValidatorSet where
  "fork_set = ValidatorSet_new [([1], 1), ([2], 2), ([3], 4), ([4], 3)]"

lemma fork_set_eval:
  "validators fork_set = [\<lparr> vi_pubkey = [3], vi_stake = 4 \<rparr>, \<lparr> vi_pubkey = [4], vi_stake = 3 \<rparr>,
     \<lparr> vi_pubkey = [2], vi_stake = 2 \<rparr>, \<lparr> vi_pubkey = [1], vi_stake = 1 \<rparr>]"
  "total_stake fork_set = 10"
  "stake_of fork_set [1] = 1" "stake_of fork_set [2] = 2" "stake_of fork_set [3] = 4" "stake_of fork_set [4] = 3"
  "vs_contains fork_set [1]" "vs_contains fork_set [2]" "vs_contains fork_set [3]" "vs_contains fork_set [4]"
  by (simp_all add: fork_set_def ValidatorSet_new_def validator_key_def wsum_def wadd_def
      stake_of_def get_by_pubkey_def build_index_def vs_contains_def)

lemma fork_proposer: "proposer_for_round fork_set 7 0 = Some [2]" "proposer_for_round fork_set 7 1 = Some [2]"
  "proposer_for_round fork_set 7 (Suc 0) = Some [2]" "proposer_for_round fork_set 8 0 = Some [2]"
  by (simp_all add: proposer_for_round_def vs_is_empty_def fork_set_eval wadd_def sat_add_def umax_def Let_def)

lemma fork_quorum: "quorum_stake fork_set (finality_threshold BftConfig_default) = 7"
  unfolding default_threshold_def [symmetric]
  by (simp add: quorum_stake_def fork_set_eval f64_of_nat_exact f64_mul_def default_threshold_value
      f64_eval rnd_mag.simps [of "15019504757280605 / 2251799813685248"] f64_ceil_def f64_to_u64_def umax_def)

definition fork_block :: "i64 \<Rightarrow> ProposedBlock" where
  "fork_block ts = \<lparr> parent_hash = replicate 32 2, blk_height = 7, timestamp = ts, transactions = [],
     state_root = replicate 32 2, blk_proposer = [2] \<rparr>"

definition fork_hash :: "i64 \<Rightarrow> hash" where
  "fork_hash ts = block_hash concat (fork_block ts)"

lemma fork_hash_eq: "block_hash concat (fork_block ts) = fork_hash ts"
  by (simp add: fork_hash_def)

lemma fork_hash_neq: "fork_hash 7 \<noteq> fork_hash 8" "fork_hash 8 \<noteq> fork_hash 7"
proof -
  show "fork_hash 7 \<noteq> fork_hash 8"
    unfolding fork_hash_def block_hash_def fork_block_def le_bytes_def by simp (rule bexI [of _ 0], simp_all)
  then show "fork_hash 8 \<noteq> fork_hash 7" by simp
qed

definition fork_config :: ConsensusServiceConfig where
  "fork_config = ConsensusServiceConfig_default\<lparr> cfg_start_height := 7 \<rparr>"

text \<open>A service in the midst of height 7, by what its engine has recorded and what it has sent.\<close>

definition fork_service ::
    "pubkey \<Rightarrow> u32 \<Rightarrow> ConsensusStep \<Rightarrow> hash option \<Rightarrow> u32 option \<Rightarrow> ProposedBlock option \<Rightarrow>
     (pubkey, hash option) hashmap \<Rightarrow> (pubkey, hash option) hashmap \<Rightarrow> bool \<Rightarrow> bool \<Rightarrow> ConsensusMessage list \<Rightarrow>
     EvidenceCollector \<Rightarrow> TimeoutScheduler \<Rightarrow> ConsensusService" where
  "fork_service me r s lock lr prop vs1 vs2 sp sc ms ec ts =
     \<lparr> adapter = \<lparr> engine =
           \<lparr> eng_config = BftConfig_default, identity = me, validator_set = fork_set,
             cstate = \<lparr> height = 7, cround = r, cstep = s, locked_value = lock, locked_round = lr,
               valid_value = lock, valid_round = lr, prevotes = vs1, precommits = vs2, proposal = prop \<rparr>,
             evidence = ec, sent_prevote = sp, sent_precommit = sc \<rparr>,
         timeout_scheduler = ts, keypair = me,
         block_producer = \<lparr> bp_forks = example_forks, tx_receiver = [], bp_config = BlockProducerConfig_default \<rparr>,
         last_committed_hash = replicate 32 2 \<rparr>,
       current_height = 7, outbound = ms, running = True \<rparr>"

definition fork_tick :: "nat \<Rightarrow> RecvResult \<Rightarrow> Tick" where
  "fork_tick now r = \<lparr> tk_exit = False, tk_recv = r, tk_now = now, tk_rearm = now, tk_wall = 8, tk_start = now, tk_start_wall = 9 \<rparr>"

abbreviation fork_got :: "ConsensusMessage \<Rightarrow> Tick" where
  "fork_got m \<equiv> fork_tick 1 (Received m)"

abbreviation fork_proposal :: "u32 \<Rightarrow> i64 \<Rightarrow> u32 option \<Rightarrow> ConsensusMessage" where
  "fork_proposal r ts vr \<equiv> Proposal 7 r (fork_block ts) [2] default_signature vr"

abbreviation fork_pv :: "u32 \<Rightarrow> i64 \<Rightarrow> pubkey \<Rightarrow> ConsensusMessage" where
  "fork_pv r ts k \<equiv> Prevote 7 r (Some (fork_hash ts)) k default_signature"

abbreviation fork_pc :: "u32 \<Rightarrow> i64 \<Rightarrow> pubkey \<Rightarrow> ConsensusMessage" where
  "fork_pc r ts k \<equiv> Precommit 7 r (Some (fork_hash ts)) k default_signature"

abbreviation fork_voted :: "i64 \<Rightarrow> pubkey \<Rightarrow> pubkey \<times> hash option" where
  "fork_voted ts k \<equiv> (k, Some (fork_hash ts))"

abbreviation fork_noted :: "ConsensusMessage \<Rightarrow> EvidenceCollector \<Rightarrow> EvidenceCollector" where
  "fork_noted m ec \<equiv> fst (check_and_record m ec)"

lemmas fork_engine_eval = on_proposal_def on_prevote_def on_precommit_def try_commit_def try_advance_from_prevotes_def
  cast_precommit_def enter_round_def set_proposal_def record_prevote_def determine_prevote_def find_quorum_prevote_hash_def
  find_quorum_precommit_hash_def has_any_quorum_prevotes_def engine_quorum_def fork_quorum fork_set_eval(2-)
  fork_proposer stake_by_hash_def hm_bump_def wadd_def wsum_def make_prevote_def make_precommit_def output_defs advance_round_def
  Let_def fork_hash_eq fork_hash_neq

lemmas fork_eval = fork_engine_eval service_tick_def fork_tick_def handle_message_def process_engine_output_def
  from_engine_output_def broadcast_messages_def start_timer_def ts_start_def ConsensusStep_order

abbreviation fork_step :: "Tick \<Rightarrow> ConsensusService \<Rightarrow> ConsensusService option" where
  "fork_step \<equiv> service_tick concat (\<lambda>_. [1])"

lemma fork_new:
  "net_start concat fork_config fork_set example_forks 0 7 me = Some (fork_service me 0 Propose None None None [] [] False False
     (if me = [2] then [fork_proposal 0 7 None] else []) (prune 0 EvidenceCollector_new) (ts_start 0 Propose 0 (TimeoutScheduler_new BftConfig_default)))"
  by (simp add: net_start_def service_new_def BftAdapter_new_def BlockProducer_new_def ConsensusServiceConfig_default_def
      enter_height_def start_height_def start_new_height_def start_round_def fork_service_def BlockProducerConfig_default_def
      propose_if_leader_def engine_is_proposer_def is_proposer_def produce_block_def create_block_def fork_eval
      fork_block_def example_bank_def fork_config_def ConsensusEngine_new_def ConsensusState_new_def)

text \<open>Round 0: the proposal, and the prevotes that complete the quorum.\<close>

lemma fork_propose:
  "k \<in> {[1], [3], [4]} \<Longrightarrow>
   fork_step (fork_got (fork_proposal 0 7 None)) (fork_service k 0 Propose None None None [] [] False False ms ec ts) =
     Some (fork_service k 0 PrevoteStep None None (Some (fork_block 7)) [fork_voted 7 k] [] True False (ms @ [fork_pv 0 7 k])
       ec (ts_start 1 PrevoteStep 0 ts))"
  by (auto simp: fork_service_def fork_eval)

lemma fork_lock:
  "(k, k') \<in> {([3], [4]), ([4], [3])} \<Longrightarrow>
   fork_step (fork_got (fork_pv 0 7 k')) (fork_service k 0 PrevoteStep None None (Some (fork_block 7)) [fork_voted 7 k] [] True False ms ec ts) =
     Some (fork_service k 0 PrecommitStep (Some (fork_hash 7)) (Some 0) (Some (fork_block 7)) [fork_voted 7 k, fork_voted 7 k'] [fork_voted 7 k]
       True True (ms @ [fork_pc 0 7 k]) (fork_noted (fork_pv 0 7 k') ec) (ts_start 1 PrecommitStep 0 ts))"
  by (auto simp: fork_service_def fork_eval)

text \<open>The smallest validator sees everything of round 0 and commits.\<close>

lemma fork_small_1:
  "fork_step (fork_got (fork_pv 0 7 [3])) (fork_service [1] 0 PrevoteStep None None (Some (fork_block 7)) [fork_voted 7 [1]] [] True False ms ec ts) =
     Some (fork_service [1] 0 PrevoteStep None None (Some (fork_block 7)) [fork_voted 7 [1], fork_voted 7 [3]] [] True False ms
       (fork_noted (fork_pv 0 7 [3]) ec) ts)"
  by (simp add: fork_service_def fork_eval)

lemma fork_small_2:
  "fork_step (fork_got (fork_pv 0 7 [4])) (fork_service [1] 0 PrevoteStep None None (Some (fork_block 7)) [fork_voted 7 [1], fork_voted 7 [3]] [] True False ms ec ts) =
     Some (fork_service [1] 0 PrecommitStep (Some (fork_hash 7)) (Some 0) (Some (fork_block 7)) [fork_voted 7 [1], fork_voted 7 [3], fork_voted 7 [4]]
       [fork_voted 7 [1]] True True (ms @ [fork_pc 0 7 [1]]) (fork_noted (fork_pv 0 7 [4]) ec) (ts_start 1 PrecommitStep 0 ts))"
  by (simp add: fork_service_def fork_eval)

lemma fork_small_3:
  "fork_step (fork_got (fork_pc 0 7 [3])) (fork_service [1] 0 PrecommitStep lock lr prop vs1 [fork_voted 7 [1]] True True ms ec ts) =
     Some (fork_service [1] 0 PrecommitStep lock lr prop vs1 [fork_voted 7 [1], fork_voted 7 [3]] True True ms (fork_noted (fork_pc 0 7 [3]) ec) ts)"
  by (simp add: fork_service_def fork_eval)

text \<open>The proposer sees the quorum of prevotes, and goes on to round 1 with a new block.\<close>

lemma fork_leader_1:
  "fork_step (fork_got (fork_pv 0 7 [3])) (fork_service [2] 0 Propose None None None [] [] False False ms ec ts) =
     Some (fork_service [2] 0 Propose None None None [fork_voted 7 [3]] [] False False ms (fork_noted (fork_pv 0 7 [3]) ec) ts)"
  by (simp add: fork_service_def fork_eval)

lemma fork_leader_2:
  "fork_step (fork_got (fork_pv 0 7 [4])) (fork_service [2] 0 Propose None None None [fork_voted 7 [3]] [] False False ms ec ts) =
     Some (fork_service [2] 0 PrecommitStep (Some (fork_hash 7)) (Some 0) None [fork_voted 7 [3], fork_voted 7 [4]] [fork_voted 7 [2]] False True
       (ms @ [fork_pc 0 7 [2]]) (fork_noted (fork_pv 0 7 [4]) ec) (ts_start 1 PrecommitStep 0 ts))"
  by (simp add: fork_service_def fork_eval)

lemma fork_leader_3:
  "fork_step (fork_tick 1000000000000 RecvTimeout) (fork_service [2] 0 PrecommitStep lock lr None vs1 vs2 False True ms ec
       (ts_start 1 PrecommitStep 0 (ts_start 0 Propose 0 (TimeoutScheduler_new BftConfig_default)))) =
     Some (fork_service [2] 1 Propose lock lr None [] [] False False (ms @ [fork_proposal 1 8 lr]) ec
       (ts_start 1000000000000 Propose 1 (ts_start 0 Propose 0 (TimeoutScheduler_new BftConfig_default))))"
  by (simp add: fork_service_def fork_eval check_timeouts_def check_expired_def TimeoutScheduler_new_def timeout_duration_def
      from_millis_def BftConfig_default_def on_timeout_def start_round_def propose_if_leader_def engine_is_proposer_def
      is_proposer_def produce_block_def create_block_def fork_block_def example_bank_def)

text \<open>Round 1: the locked validators follow the claim of the new proposal.\<close>

lemma fork_switch:
  "k \<in> {[3], [4]} \<Longrightarrow>
   fork_step (fork_got (fork_proposal 1 8 (Some 0))) (fork_service k 0 PrecommitStep (Some (fork_hash 7)) (Some 0) prop vs1 vs2 True True ms ec ts) =
     Some (fork_service k 1 PrevoteStep (Some (fork_hash 7)) (Some 0) (Some (fork_block 8)) [fork_voted 8 k] [] True False (ms @ [fork_pv 1 8 k])
       ec (ts_start 1 PrevoteStep 1 ts))"
  by (auto simp: fork_service_def fork_eval)

lemma fork_relock:
  "(k, k') \<in> {([3], [4]), ([4], [3])} \<Longrightarrow>
   fork_step (fork_got (fork_pv 1 8 k')) (fork_service k 1 PrevoteStep (Some (fork_hash 7)) (Some 0) (Some (fork_block 8)) [fork_voted 8 k] [] True False ms ec ts) =
     Some (fork_service k 1 PrecommitStep (Some (fork_hash 8)) (Some 1) (Some (fork_block 8)) [fork_voted 8 k, fork_voted 8 k'] [fork_voted 8 k]
       True True (ms @ [fork_pc 1 8 k]) (fork_noted (fork_pv 1 8 k') ec) (ts_start 1 PrecommitStep 1 ts))"
  by (auto simp: fork_service_def fork_eval)

text \<open>The two decisions.\<close>

lemma fork_decide:
  assumes "(k, r, t, vs2, k') \<in> {([1], 0, 7, [fork_voted 7 [1], fork_voted 7 [3]], [4]), ([3], 1, 8, [fork_voted 8 [3]], [4])}"
  shows "\<exists>sv. fork_step (fork_got (fork_pc r t k')) (fork_service k r PrecommitStep lock lr (Some (fork_block t)) vs1 vs2 True True ms ec ts) = Some sv \<and>
    current_height sv = 8 \<and> last_committed_hash (adapter sv) = fork_hash t"
proof -
  let ?bp = "\<lparr> bp_forks = example_forks, tx_receiver = [], bp_config = BlockProducerConfig_default \<rparr>"
  let ?f = "extended (\<lambda>_. [1]) example_bank [2] example_forks"
  have ex: "execute_block (\<lambda>_. [1]) cb ?bp = Some (?bp\<lparr> bp_forks := ?f \<rparr>, Inr default_hash)" if "cb_block cb = fork_block t" for cb
    using execute_block_extends [of ?bp example_bank "\<lambda>_. [1]" cb] that
    by (simp add: has_room_def example_bank_def fork_block_def)
  have w: "working_bank ?f = Some (bank_freeze (\<lambda>_. [1]) (child_bank (\<lambda>_. [1]) example_bank [2]))" by (rule extended_ok) simp_all
  show ?thesis using assms
    by (auto simp: fork_service_def fork_eval ex w after_commit_def enter_height_def start_height_def
        start_new_height_def start_round_def propose_if_leader_def engine_is_proposer_def is_proposer_def cancel_timer_def)
qed

section \<open>The network forks\<close>

text \<open>What happens at a validator depends only on what is delivered to it.\<close>

lemma net_at:
  "foldl (net_tick hashv sh) N es i = foldl (service_run hashv sh) (N i) (map snd (filter (\<lambda>e. fst e = i) es))"
  by (induction es arbitrary: N) auto

lemma net_ok_got:
  "list_ex (\<lambda>j. case N j of Some sv \<Rightarrow> m \<in> set (outbound sv) | None \<Rightarrow> False) [[2], [3], [4]] \<Longrightarrow> net_ok N (i, fork_got m)"
  by (auto simp: fork_tick_def split: option.splits)

lemma fork_service_outbound [simp]: "outbound (fork_service me r s lock lr prop vs1 vs2 sp sc ms ec ts) = ms"
  by (simp add: fork_service_def)

definition fork_run :: "(pubkey \<times> Tick) list" where
  "fork_run =
     [([1], fork_got (fork_proposal 0 7 None)), ([3], fork_got (fork_proposal 0 7 None)), ([4], fork_got (fork_proposal 0 7 None)),
      ([3], fork_got (fork_pv 0 7 [4])), ([4], fork_got (fork_pv 0 7 [3])),
      ([1], fork_got (fork_pv 0 7 [3])), ([1], fork_got (fork_pv 0 7 [4])), ([1], fork_got (fork_pc 0 7 [3])),
      ([2], fork_got (fork_pv 0 7 [3])), ([2], fork_got (fork_pv 0 7 [4])), ([2], fork_tick 1000000000000 RecvTimeout),
      ([3], fork_got (fork_proposal 1 8 (Some 0))), ([4], fork_got (fork_proposal 1 8 (Some 0))),
      ([3], fork_got (fork_pv 1 8 [4])), ([4], fork_got (fork_pv 1 8 [3])),
      ([3], fork_got (fork_pc 1 8 [4])), ([1], fork_got (fork_pc 0 7 [4]))]"

lemmas fork_steps = fork_new service_run_def fork_propose fork_lock fork_small_1 fork_small_2 fork_small_3 fork_leader_1 fork_leader_2
  fork_leader_3 fork_switch fork_relock

abbreviation fork_net :: service_net where
  "fork_net \<equiv> net_start concat fork_config fork_set example_forks 0 7"

text \<open>
  C5: Validators that all run the consensus service, and receive nothing but what the services have sent, can decide
  different blocks for the same height. There need not be a faulty validator: the proposer of a later round
  proposes a new block together with the valid round of the block it knows of, and that makes validators that
  are locked on the block already decided prevote, precommit and decide the new one.
\<close>

theorem honest_services_disagree:
  "guarded_run (net_tick concat (\<lambda>_. [1])) net_ok fork_net fork_run \<and>
   (\<exists>a c. foldl (net_tick concat (\<lambda>_. [1])) fork_net fork_run [1] = Some a \<and>
      foldl (net_tick concat (\<lambda>_. [1])) fork_net fork_run [3] = Some c \<and>
      current_height a = 8 \<and> current_height c = 8 \<and>
      last_committed_hash (adapter a) \<noteq> last_committed_hash (adapter c))"
proof -
  have "guarded_run (net_tick concat (\<lambda>_. [1])) net_ok fork_net fork_run"
    unfolding fork_run_def guarded_run.simps
    by (intro conjI net_ok_got) (simp_all add: fork_steps del: One_nat_def, simp add: fork_tick_def)
  moreover have "\<exists>a. foldl (net_tick concat (\<lambda>_. [1])) fork_net fork_run [1] = Some a \<and> current_height a = 8 \<and>
      last_committed_hash (adapter a) = fork_hash 7"
    unfolding net_at by (simp add: fork_run_def fork_steps fork_decide del: One_nat_def)
  moreover have "\<exists>c. foldl (net_tick concat (\<lambda>_. [1])) fork_net fork_run [3] = Some c \<and> current_height c = 8 \<and>
      last_committed_hash (adapter c) = fork_hash 8"
    unfolding net_at by (simp add: fork_run_def fork_steps fork_decide del: One_nat_def)
  ultimately show ?thesis using fork_hash_neq by auto
qed

end
