(* ===== verification/Net_Message.thy ===== *)
theory Net_Message
  imports Account_Data Float64
begin

text \<open>
  \<^verbatim>\<open>consensus-net/src/message.rs\<close>, \<^verbatim>\<open>config.rs\<close>, \<^verbatim>\<open>error.rs\<close> and \<^verbatim>\<open>transport.rs\<close>: the messages of the consensus network, their
  frames, and the reader of a connection.

  The votes and certificates of \<^verbatim>\<open>votor\<close> are type parameters. The bincode encoding is a parameter: \<open>ser\<close> and \<open>de\<close>, which
  return \<open>Inl\<close> with an error. A connection is the list of the bytes that arrive before it is closed; what becomes of
  a connection that is left open is not modelled, nor are sockets and tasks.

  Shown: whatever payloads are framed into a connection, the reader delivers those that decode, in order, each
  once, and nothing of a frame that is cut off.
\<close>

section \<open>Configuration and errors\<close>

datatype IpAddr = V4 bytes | V6 bytes

datatype SocketAddr = SocketAddr (ip: IpAddr) (port: u16)

record ConsensusNetConfig =
  bind_addr :: SocketAddr
  consensus_port :: u16
  max_peers :: nat
  message_timeout_ms :: u64
  heartbeat_interval_ms :: u64
  max_message_size :: nat
  prefer_quic :: bool
  peer_timeout_secs :: u64
  max_sync_requests :: nat
  channel_buffer_size :: nat

definition ConsensusNetConfig_default :: ConsensusNetConfig where
  "ConsensusNetConfig_default =
     \<lparr> bind_addr = SocketAddr (V4 [0, 0, 0, 0]) 8900, consensus_port = 8900, max_peers = 200,
        message_timeout_ms = 5000, heartbeat_interval_ms = 500, max_message_size = 1048576, prefer_quic = True,
        peer_timeout_secs = 30, max_sync_requests = 16, channel_buffer_size = 10000 \<rparr>"

definition net_dev_default :: ConsensusNetConfig where
  "net_dev_default =
     \<lparr> bind_addr = SocketAddr (V4 [127, 0, 0, 1]) 0, consensus_port = 0, max_peers = 10,
        message_timeout_ms = 1000, heartbeat_interval_ms = 200, max_message_size = 1048576, prefer_quic = False,
        peer_timeout_secs = 5, max_sync_requests = 4, channel_buffer_size = 1000 \<rparr>"

text \<open>The errors of bincode and of the operating system are strings.\<close>

datatype ConsensusNetError =
    Serialization string
  | MessageTooLarge nat nat
  | UnknownPeer pubkey
  | PeerAlreadyConnected pubkey
  | MaxPeersReached nat
  | Transport string
  | NetTimeout u64
  | BlockNotAvailable u64
  | ChannelClosed
  | InvalidMessage string
  | ConnectionFailed SocketAddr string

section \<open>Messages\<close>

record PeerInfo =
  pi_pubkey :: pubkey
  pi_addr :: SocketAddr
  stake_weight :: u64
  is_active_validator :: bool

record NetValidatorInfo =
  nv_pubkey :: pubkey
  nv_stake_weight :: u64
  consensus_addr :: SocketAddr

record BlockData =
  bd_slot :: u64
  bd_parent_hash :: hash
  bd_block_hash :: hash
  bd_transactions :: "bytes list"
  bd_state_root :: hash
  merkle_root :: hash
  merkle_proof :: "hash list"
  bd_proposer :: pubkey

datatype ('v, 'c) VotorMessage = VotorVote 'v | VotorCertificate 'c

datatype ('v, 'c) ConsensusNetMessage =
    Consensus "('v, 'c) VotorMessage"
  | BlockDataMsg BlockData
  | PeerAnnounce PeerInfo
  | BlockRequest u64
  | BlockResponse u64 BlockData
  | ValidatorSetUpdate u64 "NetValidatorInfo list"
  | Heartbeat pubkey u64
  | HeartbeatAck pubkey u64

definition kind :: "('v, 'c) ConsensusNetMessage \<Rightarrow> string" where
  "kind m =
     (case m of
        Consensus (VotorVote _) \<Rightarrow> ''vote''
      | Consensus (VotorCertificate _) \<Rightarrow> ''certificate''
      | BlockDataMsg _ \<Rightarrow> ''block_data''
      | PeerAnnounce _ \<Rightarrow> ''peer_announce''
      | BlockRequest _ \<Rightarrow> ''block_request''
      | BlockResponse _ _ \<Rightarrow> ''block_response''
      | ValidatorSetUpdate _ _ \<Rightarrow> ''validator_set_update''
      | Heartbeat _ _ \<Rightarrow> ''heartbeat''
      | HeartbeatAck _ _ \<Rightarrow> ''heartbeat_ack'')"

definition from_vote :: "'v \<Rightarrow> ('v, 'c) ConsensusNetMessage" where
  "from_vote v = Consensus (VotorVote v)"

definition from_certificate :: "'c \<Rightarrow> ('v, 'c) ConsensusNetMessage" where
  "from_certificate c = Consensus (VotorCertificate c)"

section \<open>Frames\<close>

definition net_serialize :: "('m \<Rightarrow> string + bytes) \<Rightarrow> 'm \<Rightarrow> ConsensusNetError + bytes" where
  "net_serialize ser m = map_sum Serialization (\<lambda>b. b) (ser m)"

definition net_deserialize :: "(bytes \<Rightarrow> string + 'm) \<Rightarrow> bytes \<Rightarrow> ConsensusNetError + 'm" where
  "net_deserialize de b = map_sum Serialization (\<lambda>m. m) (de b)"

text \<open>The length is cast to \<^verbatim>\<open>u32\<close>.\<close>

definition frame :: "bytes \<Rightarrow> bytes" where
  "frame payload = le_bytes 4 (int (length payload mod 2 ^ 32)) @ payload"

definition serialize_framed :: "('m \<Rightarrow> string + bytes) \<Rightarrow> nat \<Rightarrow> 'm \<Rightarrow> ConsensusNetError + bytes" where
  "serialize_framed ser max_size m =
     (case net_serialize ser m of
        Inl e \<Rightarrow> Inl e
      | Inr payload \<Rightarrow>
          if length payload > max_size then Inl (MessageTooLarge (length payload) max_size)
          else Inr (frame payload))"

definition read_frame_len :: "bytes \<Rightarrow> nat" where
  "read_frame_len header = u_field 0 4 header"

section \<open>The reader of a connection\<close>

text \<open>\<^verbatim>\<open>read_exact\<close>: the first \<open>n\<close> bytes and what is left, or nothing when the connection ends before.\<close>

definition read_exact :: "nat \<Rightarrow> bytes \<Rightarrow> (bytes \<times> bytes) option" where
  "read_exact n stream = (if n \<le> length stream then Some (take n stream, drop n stream) else None)"

text \<open>
  The messages handed to the router. \<open>router_gone n\<close> says that the send after \<open>n\<close> delivered messages fails because the
  router has dropped its end.
\<close>

function handle_connection ::
    "(bytes \<Rightarrow> string + 'm) \<Rightarrow> (nat \<Rightarrow> bool) \<Rightarrow> nat \<Rightarrow> 'm list \<Rightarrow> bytes \<Rightarrow> 'm list" where
  "handle_connection de router_gone max_size delivered stream =
     (case read_exact 4 stream of
        None \<Rightarrow> delivered
      | Some (header, stream) \<Rightarrow>
          let len = read_frame_len header in
          if len > max_size then delivered
          else (case read_exact len stream of
              None \<Rightarrow> delivered
            | Some (payload, stream) \<Rightarrow>
                (case net_deserialize de payload of
                   Inr message \<Rightarrow>
                     if router_gone (length delivered) then delivered
                     else handle_connection de router_gone max_size (delivered @ [message]) stream
                 | Inl _ \<Rightarrow> handle_connection de router_gone max_size delivered stream)))"
  by pat_completeness auto
termination
  by (relation "measure (\<lambda>(_, _, _, _, stream). length stream)")
    (auto simp: read_exact_def split: if_splits)

declare handle_connection.simps [simp del]

text \<open>
  Sending. \<open>connect\<close> and \<open>write\<close> say what the operating system returns, where \<open>None\<close> is success.
  The result is the frame that was written.
\<close>

definition write_frame :: "(SocketAddr \<Rightarrow> string option) \<Rightarrow> (SocketAddr \<Rightarrow> string option) \<Rightarrow> SocketAddr \<Rightarrow> string option" where
  "write_frame connect write addr = (case connect addr of Some e \<Rightarrow> Some e | None \<Rightarrow> write addr)"

definition send_message ::
    "('m \<Rightarrow> string + bytes) \<Rightarrow> (SocketAddr \<Rightarrow> string option) \<Rightarrow> (SocketAddr \<Rightarrow> string option) \<Rightarrow> SocketAddr \<Rightarrow> 'm \<Rightarrow> nat \<Rightarrow>
     ConsensusNetError + bytes" where
  "send_message ser connect write addr m max_size =
     (case serialize_framed ser max_size m of
        Inl e \<Rightarrow> Inl e
      | Inr fr \<Rightarrow> (case write_frame connect write addr of Some e \<Rightarrow> Inl (Transport e) | None \<Rightarrow> Inr fr))"

definition send_on_stream ::
    "('m \<Rightarrow> string + bytes) \<Rightarrow> string option \<Rightarrow> 'm \<Rightarrow> nat \<Rightarrow> ConsensusNetError + bytes" where
  "send_on_stream ser written m max_size =
     (case serialize_framed ser max_size m of
        Inl e \<Rightarrow> Inl e
      | Inr fr \<Rightarrow> (case written of Some e \<Rightarrow> Inl (Transport e) | None \<Rightarrow> Inr fr))"

text \<open>One task per address; the failures are listed in the order of the addresses.\<close>

definition broadcast_message ::
    "('m \<Rightarrow> string + bytes) \<Rightarrow> (ConsensusNetError \<Rightarrow> string) \<Rightarrow> (SocketAddr \<Rightarrow> string option) \<Rightarrow> (SocketAddr \<Rightarrow> string option) \<Rightarrow>
     SocketAddr list \<Rightarrow> 'm \<Rightarrow> nat \<Rightarrow> (SocketAddr \<times> ConsensusNetError) list" where
  "broadcast_message ser show_error connect write addrs m max_size =
     (case serialize_framed ser max_size m of
        Inl e \<Rightarrow> map (\<lambda>a. (a, InvalidMessage (''serialize failed: '' @ show_error e))) addrs
      | Inr _ \<Rightarrow> concat (map (\<lambda>a. case write_frame connect write a of Some e \<Rightarrow> [(a, Transport e)] | None \<Rightarrow> []) addrs))"

section \<open>Frames come out as they went in\<close>

lemma frame_read:
  assumes "length p < 2 ^ 32"
  shows "read_exact 4 (frame p @ s) = Some (le_bytes 4 (int (length p)), p @ s)"
    and "read_frame_len (le_bytes 4 (int (length p))) = length p"
  using assms u_field_take [of "length p" 4 "[]"] by (simp_all add: frame_def read_exact_def read_frame_len_def)

definition decoded :: "(bytes \<Rightarrow> string + 'm) \<Rightarrow> bytes list \<Rightarrow> 'm list" where
  "decoded de ps = concat (map (\<lambda>p. case de p of Inr m \<Rightarrow> [m] | Inl _ \<Rightarrow> []) ps)"

lemma handle_frame:
  assumes "length p < 2 ^ 32" "length p \<le> max_size"
  shows "handle_connection de (\<lambda>_. False) max_size ms (frame p @ s) =
    handle_connection de (\<lambda>_. False) max_size (ms @ decoded de [p]) s"
  unfolding handle_connection.simps [of _ _ _ _ "frame p @ s"]
  using assms frame_read [OF assms(1)]
  by (auto simp: read_exact_def [of "length p"] net_deserialize_def decoded_def split: sum.split)

lemma handle_frames:
  "\<forall>p \<in> set ps. length p < 2 ^ 32 \<and> length p \<le> max_size \<Longrightarrow>
   handle_connection de (\<lambda>_. False) max_size ms (concat (map frame ps) @ s) =
     handle_connection de (\<lambda>_. False) max_size (ms @ decoded de ps) s"
proof (induction ps arbitrary: ms)
  case (Cons p ps)
  then show ?case using handle_frame [of p max_size de ms "concat (map frame ps) @ s"] by (simp add: decoded_def)
qed (simp add: decoded_def)

lemma handle_cut_frame:
  assumes "length p < 2 ^ 32" "k < length (frame p)"
  shows "handle_connection de gone max_size ms (take k (frame p)) = ms"
proof (cases "k < 4")
  case True
  then show ?thesis by (simp add: handle_connection.simps [of _ _ _ _ "take k (frame p)"] read_exact_def)
next
  case False
  then have "take k (frame p) = le_bytes 4 (int (length p)) @ take (k - 4) p" "k - 4 < length p"
    using assms by (simp_all add: frame_def)
  then show ?thesis using frame_read(2) [OF assms(1)]
    by (simp add: handle_connection.simps [of _ _ _ _ "_ @ _"] read_exact_def Let_def)
qed

text \<open>The bytes that sending a message puts on a connection.\<close>

definition wire :: "('m \<Rightarrow> string + bytes) \<Rightarrow> nat \<Rightarrow> 'm \<Rightarrow> bytes" where
  "wire ser max_size m = (case serialize_framed ser max_size m of Inr fr \<Rightarrow> fr | Inl _ \<Rightarrow> [])"

lemma wire_frames:
  assumes "\<And>m b. ser m = Inr b \<Longrightarrow> de b = Inr m"
  shows "\<exists>ps. concat (map (wire ser max_size) ms) = concat (map frame ps) \<and> (\<forall>p \<in> set ps. length p \<le> max_size) \<and>
    decoded de ps = filter (\<lambda>m. \<not> isl (serialize_framed ser max_size m)) ms"
proof (induction ms)
  case (Cons m ms)
  then obtain ps where ps: "concat (map (wire ser max_size) ms) = concat (map frame ps)" "\<forall>p \<in> set ps. length p \<le> max_size"
    "decoded de ps = filter (\<lambda>m. \<not> isl (serialize_framed ser max_size m)) ms" by blast
  show ?case
  proof (cases "\<exists>b. ser m = Inr b \<and> length b \<le> max_size")
    case True
    then obtain b where b: "ser m = Inr b" "length b \<le> max_size" by blast
    then have "serialize_framed ser max_size m = Inr (frame b)" by (simp add: serialize_framed_def net_serialize_def)
    then show ?thesis using ps b assms [OF b(1)] by (intro exI [of _ "b # ps"]) (simp add: wire_def [of _ _ m] decoded_def)
  next
    case False
    then have "\<exists>e. serialize_framed ser max_size m = Inl e"
      by (cases "ser m") (auto simp: serialize_framed_def net_serialize_def)
    then show ?thesis using ps by (intro exI [of _ ps]) (auto simp: wire_def [of _ _ m])
  qed
next
  case Nil
  show ?case by (rule exI [of _ "[]"]) (simp add: decoded_def)
qed

section \<open>Properties\<close>

text \<open>
  C36: What is sent over a connection arrives: for any sequence of messages, the reader delivers exactly those
  that fit the size limit, in order and each once, also when the connection ends in the middle of
  a further frame. It relies on the limit fitting 32 bits, on a router that takes every
  message, and on bincode decoding what it encoded.
\<close>

theorem connection_roundtrip:
  assumes "\<And>m b. ser m = Inr b \<Longrightarrow> de b = Inr m" "max_size < 2 ^ 32" "length q < 2 ^ 32" "k < length (frame q)"
  shows "handle_connection de (\<lambda>_. False) max_size [] (concat (map (wire ser max_size) ms) @ take k (frame q)) =
    filter (\<lambda>m. \<not> isl (serialize_framed ser max_size m)) ms"
proof -
  obtain ps where ps: "concat (map (wire ser max_size) ms) = concat (map frame ps)" "\<forall>p \<in> set ps. length p \<le> max_size"
    "decoded de ps = filter (\<lambda>m. \<not> isl (serialize_framed ser max_size m)) ms" using wire_frames [where ser = ser and de = de, OF assms(1), of max_size ms] by blast
  have "\<forall>p \<in> set ps. length p < 2 ^ 32 \<and> length p \<le> max_size" using ps(2) assms(2) by auto
  from handle_frames [OF this, of de "[]" "take k (frame q)"] handle_cut_frame [OF assms(3,4), of de "\<lambda>_. False" max_size]
  show ?thesis using ps by simp
qed

definition ser_example :: "bytes \<Rightarrow> string + bytes" where
  "ser_example m = Inr m"

definition de_example :: "bytes \<Rightarrow> string + bytes" where
  "de_example b = Inr b"

theorem connection_roundtrip_witness:
  "handle_connection de_example (\<lambda>_. False) 2 [] (concat (map (wire ser_example 2) [[1], [2, 3], [4, 5, 6], [7]]) @ take 5 (frame [8, 9])) =
     [[1], [2, 3], [7]]"
  using connection_roundtrip [of ser_example de_example 2 "[8, 9]" 5 "[[1], [2, 3], [4, 5, 6], [7]]"]
  by (simp add: ser_example_def de_example_def frame_def serialize_framed_def net_serialize_def)

end
