(* ===== verification/Peer_Manager.thy ===== *)
theory Peer_Manager
  imports Net_Message
begin

text \<open>
  \<^verbatim>\<open>consensus-net/src/peer_manager.rs\<close>: the table of peers. Instants are nanoseconds and arguments \<open>now\<close>; the latency and the
  score are doubles.

  Shown: over any sequence of operations the table holds at most \<open>max_peers\<close> peers, each once and under its own
  key, and the validators offered for sending are connected peers of the active set.
\<close>

section \<open>Connections\<close>

record PeerConnection =
  pc_info :: PeerInfo
  last_seen :: nat
  messages_sent :: u64
  messages_received :: u64
  latency_ms :: f64
  is_connected :: bool
  score :: f64

definition PeerConnection_new :: "nat \<Rightarrow> PeerInfo \<Rightarrow> PeerConnection" where
  "PeerConnection_new now info =
     \<lparr> pc_info = info, last_seen = now, messages_sent = 0, messages_received = 0, latency_ms = 0,
        is_connected = False, score = 100 \<rparr>"

definition record_received :: "nat \<Rightarrow> PeerConnection \<Rightarrow> PeerConnection" where
  "record_received now c = c\<lparr> messages_received := sat_add 64 (messages_received c) 1, last_seen := now \<rparr>"

definition record_sent :: "PeerConnection \<Rightarrow> PeerConnection" where
  "record_sent c = c\<lparr> messages_sent := sat_add 64 (messages_sent c) 1 \<rparr>"

definition update_latency :: "f64 \<Rightarrow> PeerConnection \<Rightarrow> PeerConnection" where
  "update_latency sample c =
     (let alpha = f64_round (3 / 10) in
      c\<lparr> latency_ms :=
           (if latency_ms c = 0 then sample
            else f64_add (f64_mul alpha sample) (f64_mul (f64_sub 1 alpha) (latency_ms c))) \<rparr>)"

definition silence_secs :: "nat \<Rightarrow> PeerConnection \<Rightarrow> u64" where
  "silence_secs now c = (now - last_seen c) div 1000000000"

section \<open>The peer manager\<close>

record PeerManager =
  peers :: "(pubkey, PeerConnection) hashmap"
  active_validators :: "pubkey set"
  pm_config :: ConsensusNetConfig

definition PeerManager_new :: "ConsensusNetConfig \<Rightarrow> PeerManager" where
  "PeerManager_new c = \<lparr> peers = [], active_validators = {}, pm_config = c \<rparr>"

definition peer_count :: "PeerManager \<Rightarrow> nat" where
  "peer_count pm = length (peers pm)"

definition connected_count :: "PeerManager \<Rightarrow> nat" where
  "connected_count pm = length (filter (\<lambda>(_, c). is_connected c) (peers pm))"

definition add_peer :: "nat \<Rightarrow> PeerInfo \<Rightarrow> PeerManager \<Rightarrow> PeerManager \<times> (ConsensusNetError + unit)" where
  "add_peer now info pm =
     (case hm_get (peers pm) (pi_pubkey info) of
        Some existing \<Rightarrow> (pm\<lparr> peers := hm_insert (pi_pubkey info) (existing\<lparr> pc_info := info \<rparr>) (peers pm) \<rparr>, Inr ())
      | None \<Rightarrow>
          if length (peers pm) \<ge> max_peers (pm_config pm)
          then (pm, Inl (MaxPeersReached (max_peers (pm_config pm))))
          else (pm\<lparr> peers := hm_insert (pi_pubkey info) (PeerConnection_new now info) (peers pm),
                    active_validators := (if is_active_validator info then insert (pi_pubkey info) (active_validators pm)
                                          else active_validators pm) \<rparr>, Inr ()))"

definition remove_peer :: "pubkey \<Rightarrow> PeerManager \<Rightarrow> PeerManager" where
  "remove_peer k pm =
     (case hm_get (peers pm) k of
        None \<Rightarrow> pm
      | Some _ \<Rightarrow> pm\<lparr> peers := AList.delete k (peers pm), active_validators := active_validators pm - {k} \<rparr>)"

definition mark_connected :: "nat \<Rightarrow> pubkey \<Rightarrow> PeerManager \<Rightarrow> PeerManager \<times> (ConsensusNetError + unit)" where
  "mark_connected now k pm =
     (case hm_get (peers pm) k of
        None \<Rightarrow> (pm, Inl (UnknownPeer k))
      | Some c \<Rightarrow> (pm\<lparr> peers := hm_insert k (c\<lparr> is_connected := True, last_seen := now \<rparr>) (peers pm) \<rparr>, Inr ()))"

definition mark_disconnected :: "pubkey \<Rightarrow> PeerManager \<Rightarrow> PeerManager" where
  "mark_disconnected k pm =
     (case hm_get (peers pm) k of
        None \<Rightarrow> pm
      | Some c \<Rightarrow> pm\<lparr> peers := hm_insert k (c\<lparr> is_connected := False \<rparr>) (peers pm) \<rparr>)"

definition get_peer :: "PeerManager \<Rightarrow> pubkey \<Rightarrow> PeerConnection option" where
  "get_peer pm k = hm_get (peers pm) k"

text \<open>\<^verbatim>\<open>get_peer_mut\<close>, with what the caller does to the connection it is lent.\<close>

definition update_peer :: "(PeerConnection \<Rightarrow> PeerConnection) \<Rightarrow> pubkey \<Rightarrow> PeerManager \<Rightarrow> PeerManager" where
  "update_peer g k pm =
     (case hm_get (peers pm) k of None \<Rightarrow> pm | Some c \<Rightarrow> pm\<lparr> peers := hm_insert k (g c) (peers pm) \<rparr>)"

definition connected_validators :: "PeerManager \<Rightarrow> (pubkey \<times> PeerConnection) list" where
  "connected_validators pm = filter (\<lambda>(k, c). is_connected c \<and> k \<in> active_validators pm) (peers pm)"

definition connected_peers :: "PeerManager \<Rightarrow> (pubkey \<times> PeerConnection) list" where
  "connected_peers pm = filter (\<lambda>(_, c). is_connected c) (peers pm)"

definition connected_validator_keys :: "PeerManager \<Rightarrow> pubkey list" where
  "connected_validator_keys pm = map fst (connected_validators pm)"

definition update_active_validators :: "pubkey set \<Rightarrow> PeerManager \<Rightarrow> PeerManager" where
  "update_active_validators ks pm = pm\<lparr> active_validators := ks \<rparr>"

definition evict_stale_peers :: "nat \<Rightarrow> PeerManager \<Rightarrow> PeerManager \<times> pubkey list" where
  "evict_stale_peers now pm =
     (let timeout = peer_timeout_secs (pm_config pm);
          stale = map fst (filter (\<lambda>(_, c). is_connected c \<and> silence_secs now c > timeout) (peers pm))
      in (foldl (\<lambda>pm k. mark_disconnected k pm) pm stale, stale))"

section \<open>Runs\<close>

datatype PeerOp =
    AddPeer nat PeerInfo
  | RemovePeer pubkey
  | MarkConnected nat pubkey
  | MarkDisconnected pubkey
  | RecordReceived nat pubkey
  | RecordSent pubkey
  | UpdateLatency f64 pubkey
  | UpdateActive "pubkey set"
  | EvictStale nat

fun pm_step :: "PeerManager \<Rightarrow> PeerOp \<Rightarrow> PeerManager" where
  "pm_step pm (AddPeer now info) = fst (add_peer now info pm)"
| "pm_step pm (RemovePeer k) = remove_peer k pm"
| "pm_step pm (MarkConnected now k) = fst (mark_connected now k pm)"
| "pm_step pm (MarkDisconnected k) = mark_disconnected k pm"
| "pm_step pm (RecordReceived now k) = update_peer (record_received now) k pm"
| "pm_step pm (RecordSent k) = update_peer record_sent k pm"
| "pm_step pm (UpdateLatency x k) = update_peer (update_latency x) k pm"
| "pm_step pm (UpdateActive ks) = update_active_validators ks pm"
| "pm_step pm (EvictStale now) = fst (evict_stale_peers now pm)"

definition pm_inv :: "PeerManager \<Rightarrow> bool" where
  "pm_inv pm \<longleftrightarrow> hm_wf (peers pm) \<and> peer_count pm \<le> max_peers (pm_config pm) \<and>
     (\<forall>(k, c) \<in> set (peers pm). pi_pubkey (pc_info c) = k)"

lemma pm_inv_replace:
  assumes "pm_inv pm" "hm_get (peers pm) k = Some c" "pi_pubkey (pc_info c') = k"
  shows "pm_inv (pm\<lparr> peers := hm_insert k c' (peers pm) \<rparr>)"
  using assms hm_insert_all [of "peers pm" "\<lambda>k c. pi_pubkey (pc_info c) = k" k c']
  by (simp add: pm_inv_def peer_count_def hm_insert_length)

lemma pm_inv_key: "pm_inv pm \<Longrightarrow> hm_get (peers pm) k = Some c \<Longrightarrow> pi_pubkey (pc_info c) = k"
  by (auto simp: pm_inv_def dest!: map_of_SomeD)

lemma update_peer_inv:
  assumes "pm_inv pm" "\<And>c. pc_info (g c) = pc_info c" shows "pm_inv (update_peer g k pm)"
  using assms pm_inv_key [OF assms(1)] by (auto simp: update_peer_def intro: pm_inv_replace split: option.split)

lemma mark_disconnected_update: "mark_disconnected k pm = update_peer (\<lambda>c. c\<lparr> is_connected := False \<rparr>) k pm"
  by (simp add: mark_disconnected_def update_peer_def)

lemma mark_connected_update: "fst (mark_connected now k pm) = update_peer (\<lambda>c. c\<lparr> is_connected := True, last_seen := now \<rparr>) k pm"
  by (simp add: mark_connected_def update_peer_def split: option.split)

lemma add_peer_inv:
  assumes "pm_inv pm" shows "pm_inv (fst (add_peer now info pm))"
proof (cases "hm_get (peers pm) (pi_pubkey info)")
  case None
  then show ?thesis
    using assms hm_insert_all [of "peers pm" "\<lambda>k c. pi_pubkey (pc_info c) = k" "pi_pubkey info" "PeerConnection_new now info"]
    by (simp add: add_peer_def pm_inv_def peer_count_def hm_insert_length PeerConnection_new_def)
next
  case (Some c)
  with pm_inv_replace [OF assms Some] show ?thesis by (simp add: add_peer_def)
qed

lemma evict_inv: "pm_inv pm \<Longrightarrow> pm_inv (foldl (\<lambda>pm k. mark_disconnected k pm) pm ks)"
  by (induction ks arbitrary: pm) (simp_all add: mark_disconnected_update update_peer_inv)

lemma pm_step_inv: "pm_inv pm \<Longrightarrow> pm_inv (pm_step pm e)"
proof (cases e)
  case (RemovePeer k)
  assume "pm_inv pm"
  then show ?thesis using hm_delete_le [of k "peers pm"]
    by (auto simp: RemovePeer remove_peer_def pm_inv_def peer_count_def hm_wf_delete split: option.split)
next
  case (UpdateActive ks)
  assume "pm_inv pm"
  then show ?thesis by (simp add: UpdateActive update_active_validators_def pm_inv_def peer_count_def)
qed (simp_all add: add_peer_inv mark_connected_update mark_disconnected_update update_peer_inv evict_stale_peers_def
    evict_inv [unfolded mark_disconnected_update] record_received_def record_sent_def update_latency_def Let_def)

interpretation pm: invariant_system pm_step pm_inv
  by unfold_locales (rule pm_step_inv)

lemma update_peer_config: "pm_config (update_peer g k pm) = pm_config pm"
  by (simp add: update_peer_def split: option.split)

lemma evict_config: "pm_config (foldl (\<lambda>pm k. update_peer g k pm) pm ks) = pm_config pm"
  by (induction ks arbitrary: pm) (simp_all add: update_peer_config)

interpretation pmc: invariant_system pm_step "\<lambda>pm. pm_config pm = c" for c :: ConsensusNetConfig
proof
  fix pm :: PeerManager and e assume "pm_config pm = c"
  then show "pm_config (pm_step pm e) = c"
    by (cases e) (simp_all add: mark_connected_update mark_disconnected_update update_peer_config evict_config add_peer_def remove_peer_def
        update_active_validators_def evict_stale_peers_def Let_def split: option.split)
qed

lemma pm_inv_new: "pm_inv (PeerManager_new c)"
  by (simp add: pm_inv_def PeerManager_new_def peer_count_def hm_wf_def)

section \<open>Eviction\<close>

lemma disconnect_all:
  "hm_get (peers (foldl (\<lambda>pm k. mark_disconnected k pm) pm ks)) k =
     map_option (\<lambda>c. if k \<in> set ks then c\<lparr> is_connected := False \<rparr> else c) (hm_get (peers pm) k)"
proof (induction ks arbitrary: pm)
  case (Cons a ks)
  have "hm_get (peers (mark_disconnected a pm)) k =
      map_option (\<lambda>c. if k = a then c\<lparr> is_connected := False \<rparr> else c) (hm_get (peers pm) k)"
    by (cases "hm_get (peers pm) k") (auto simp: mark_disconnected_def split: option.split)
  then show ?case using Cons.IH [of "mark_disconnected a pm"] by (cases "hm_get (peers pm) k") auto
qed (simp add: option.map_ident)

text \<open>Eviction disconnects exactly the connected peers that have been silent for too long, and keeps them in the table.\<close>

lemma evict_exact:
  assumes "pm_inv pm"
  shows "get_peer (fst (evict_stale_peers now pm)) k =
      map_option (\<lambda>c. if silence_secs now c > peer_timeout_secs (pm_config pm) then c\<lparr> is_connected := False \<rparr> else c) (get_peer pm k)"
    and "k \<in> set (snd (evict_stale_peers now pm)) \<longleftrightarrow>
      (\<exists>c. get_peer pm k = Some c \<and> is_connected c \<and> silence_secs now c > peer_timeout_secs (pm_config pm))"
proof -
  have wf: "hm_wf (peers pm)" using assms by (simp add: pm_inv_def)
  have stale: "k \<in> set (snd (evict_stale_peers now pm)) \<longleftrightarrow>
      (\<exists>c. get_peer pm k = Some c \<and> is_connected c \<and> silence_secs now c > peer_timeout_secs (pm_config pm))" for k
    by (force simp: evict_stale_peers_def Let_def get_peer_def hm_get_iff [OF wf])
  show "k \<in> set (snd (evict_stale_peers now pm)) \<longleftrightarrow>
      (\<exists>c. get_peer pm k = Some c \<and> is_connected c \<and> silence_secs now c > peer_timeout_secs (pm_config pm))" by (rule stale)
  have "fst (evict_stale_peers now pm) = foldl (\<lambda>pm k. mark_disconnected k pm) pm (snd (evict_stale_peers now pm))"
    by (simp add: evict_stale_peers_def Let_def)
  then show "get_peer (fst (evict_stale_peers now pm)) k =
      map_option (\<lambda>c. if silence_secs now c > peer_timeout_secs (pm_config pm) then c\<lparr> is_connected := False \<rparr> else c) (get_peer pm k)"
    using stale [of k] disconnect_all [of pm "snd (evict_stale_peers now pm)" k]
    by (cases "get_peer pm k") (auto simp: get_peer_def)
qed

section \<open>Properties\<close>

text \<open>
  C37: After any sequence of operations the peer table is well formed: no peer occurs twice, every peer is filed
  under its own key, there are never more than the configured number, and the validators offered for
  sending are exactly the connected peers that are in the active set, each once.
\<close>

theorem peer_table_wellformed:
  assumes "pm = foldl pm_step (PeerManager_new c) ops"
  shows "distinct (hm_keys (peers pm)) \<and> peer_count pm \<le> max_peers c \<and>
    (\<forall>k x. get_peer pm k = Some x \<longrightarrow> pi_pubkey (pc_info x) = k) \<and>
    distinct (connected_validator_keys pm) \<and>
    set (connected_validator_keys pm) = {k \<in> active_validators pm. \<exists>x. get_peer pm k = Some x \<and> is_connected x}"
proof -
  have inv: "pm_inv pm" unfolding assms by (rule pm.run_inv [OF pm_inv_new])
  have cfg: "pm_config pm = c" unfolding assms by (rule pmc.run_inv) (simp add: PeerManager_new_def)
  have wf: "hm_wf (peers pm)" using inv by (simp add: pm_inv_def)
  have "set (connected_validator_keys pm) = {k \<in> active_validators pm. \<exists>x. get_peer pm k = Some x \<and> is_connected x}"
    by (force simp: connected_validator_keys_def connected_validators_def get_peer_def hm_get_iff [OF wf])
  moreover have "distinct (connected_validator_keys pm)"
    using wf by (simp add: connected_validator_keys_def connected_validators_def hm_wf_def distinct_map_filter)
  ultimately show ?thesis using inv cfg pm_inv_key [OF inv] by (simp add: pm_inv_def hm_wf_def get_peer_def)
qed

definition example_peer :: "u8 \<Rightarrow> PeerInfo" where
  "example_peer n = \<lparr> pi_pubkey = [n], pi_addr = SocketAddr (V4 [127, 0, 0, n]) 8900, stake_weight = 1000000, is_active_validator = True \<rparr>"

theorem peer_table_wellformed_witness:
  "connected_validator_keys (foldl pm_step (PeerManager_new (net_dev_default\<lparr> max_peers := 2 \<rparr>))
     [AddPeer 0 (example_peer 1), AddPeer 0 (example_peer 2), AddPeer 0 (example_peer 3), MarkConnected 1 [1], MarkConnected 1 [3]]) = [[1]] \<and>
   peer_count (foldl pm_step (PeerManager_new (net_dev_default\<lparr> max_peers := 2 \<rparr>))
     [AddPeer 0 (example_peer 1), AddPeer 0 (example_peer 2), AddPeer 0 (example_peer 3), MarkConnected 1 [1], MarkConnected 1 [3]]) \<le> 2"
  using peer_table_wellformed [OF refl, of "net_dev_default\<lparr> max_peers := 2 \<rparr>"
      "[AddPeer 0 (example_peer 1), AddPeer 0 (example_peer 2), AddPeer 0 (example_peer 3), MarkConnected 1 [1], MarkConnected 1 [3]]"]
  by (simp add: connected_validator_keys_def connected_validators_def add_peer_def mark_connected_def example_peer_def PeerManager_new_def
      PeerConnection_new_def net_dev_default_def)

text \<open>
  The active set need not consist of peers: a validator set update replaces it by any set of keys. And a peer that announces
  itself again as a validator does not enter it.
\<close>

lemma active_set_not_peers:
  "\<exists>ops. \<not> active_validators (foldl pm_step (PeerManager_new c) ops) \<subseteq> set (hm_keys (peers (foldl pm_step (PeerManager_new c) ops)))"
  by (intro exI [of _ "[UpdateActive {[1]}]"]) (simp add: update_active_validators_def PeerManager_new_def)

end
