(* ===== verification/Block_Sync.thy ===== *)
theory Block_Sync
  imports Peer_Manager
begin

text \<open>
  \<^verbatim>\<open>consensus-net/src/sync.rs\<close>: catching up with missed blocks. What the surroundings decide during a call is a record \<open>SyncEnv\<close>, by the
  height that is being requested: the nanoseconds that pick a peer, whether the message could be sent, and the
  time of the request. The lock of the peer manager may be poisoned.

  Shown: requests in flight are bounded in number and attempts and never repeat a completed height; every timed out request is
  either in flight again or reported as failed; and requests that are never answered are all given up after at
  most five passes.
\<close>

section \<open>The syncer\<close>

record PendingSyncRequest =
  ps_height :: u64
  ps_peer :: pubkey
  ps_addr :: SocketAddr
  sent_at :: nat
  attempts :: u32

record BlockSyncer =
  sy_config :: ConsensusNetConfig
  pending :: "(u64, PendingSyncRequest) hashmap"
  completed :: "u64 set"
  max_retries :: u32

record SyncEnv =
  lock_poisoned :: bool
  pick_nanos :: "u64 \<Rightarrow> nat"
  send_ok :: "u64 \<Rightarrow> SocketAddr \<Rightarrow> bool"
  request_time :: "u64 \<Rightarrow> nat"

definition BlockSyncer_new :: "ConsensusNetConfig \<Rightarrow> BlockSyncer" where
  "BlockSyncer_new c = \<lparr> sy_config = c, pending = [], completed = {}, max_retries = 5 \<rparr>"

definition in_flight :: "BlockSyncer \<Rightarrow> nat" where
  "in_flight sy = length (pending sy)"

definition is_completed :: "BlockSyncer \<Rightarrow> u64 \<Rightarrow> bool" where
  "is_completed sy h = (h \<in> completed sy)"

definition pick_peer :: "SyncEnv \<Rightarrow> u64 \<Rightarrow> PeerManager \<Rightarrow> ConsensusNetError + (pubkey \<times> SocketAddr)" where
  "pick_peer env h pm =
     (if lock_poisoned env then Inl ChannelClosed
      else let candidates = connected_validators pm in
        if candidates = []
        then let all_connected = connected_peers pm in
          if all_connected = [] then Inl (InvalidMessage ''no connected peers for sync'')
          else let (k, conn) = all_connected ! (pick_nanos env h mod length all_connected) in Inr (k, pi_addr (pc_info conn))
        else let (k, conn) = candidates ! (pick_nanos env h mod length candidates) in Inr (k, pi_addr (pc_info conn)))"

definition dispatch_request :: "SyncEnv \<Rightarrow> PeerManager \<Rightarrow> u64 \<Rightarrow> BlockSyncer \<Rightarrow> BlockSyncer \<times> bool" where
  "dispatch_request env pm h sy =
     (case pick_peer env h pm of
        Inl _ \<Rightarrow> (sy, False)
      | Inr (peer, addr) \<Rightarrow>
          if send_ok env h addr
          then (sy\<lparr> pending := hm_insert h \<lparr> ps_height = h, ps_peer = peer, ps_addr = addr, sent_at = request_time env h, attempts = 1 \<rparr>
                      (pending sy) \<rparr>, True)
          else (sy, False))"

fun request_heights :: "SyncEnv \<Rightarrow> PeerManager \<Rightarrow> u64 list \<Rightarrow> BlockSyncer \<times> nat \<Rightarrow> BlockSyncer \<times> nat" where
  "request_heights env pm [] (sy, dispatched) = (sy, dispatched)"
| "request_heights env pm (h # hs) (sy, dispatched) =
     (if h \<in> completed sy \<or> hm_get (pending sy) h \<noteq> None then request_heights env pm hs (sy, dispatched)
      else if length (pending sy) \<ge> max_sync_requests (sy_config sy) then (sy, dispatched)
      else let (sy, ok) = dispatch_request env pm h sy
           in request_heights env pm hs (sy, if ok then dispatched + 1 else dispatched))"

definition request_range :: "SyncEnv \<Rightarrow> PeerManager \<Rightarrow> u64 \<Rightarrow> u64 \<Rightarrow> BlockSyncer \<Rightarrow> BlockSyncer \<times> nat" where
  "request_range env pm from to sy = request_heights env pm [from..<Suc to] (sy, 0)"

definition handle_response :: "u64 \<Rightarrow> BlockData \<Rightarrow> BlockSyncer \<Rightarrow> BlockSyncer \<times> BlockData option" where
  "handle_response h block sy =
     (case hm_get (pending sy) h of
        Some _ \<Rightarrow> (sy\<lparr> pending := AList.delete h (pending sy), completed := insert h (completed sy) \<rparr>, Some block)
      | None \<Rightarrow> (sy, None))"

text \<open>One timed out request: what becomes of it, and whether it has failed.\<close>

definition retry_request :: "SyncEnv \<Rightarrow> PeerManager \<Rightarrow> PendingSyncRequest \<Rightarrow> BlockSyncer \<times> u64 list \<Rightarrow> BlockSyncer \<times> u64 list" where
  "retry_request env pm req = (\<lambda>(sy, failed).
     let h = ps_height req; sy = sy\<lparr> pending := AList.delete h (pending sy) \<rparr> in
     if attempts req \<ge> max_retries sy then (sy, failed @ [h])
     else (case pick_peer env h pm of
         Inr (peer, addr) \<Rightarrow>
           if send_ok env h addr
           then (sy\<lparr> pending := hm_insert h \<lparr> ps_height = h, ps_peer = peer, ps_addr = addr, sent_at = request_time env h,
                        attempts = sat_add 32 (attempts req) 1 \<rparr> (pending sy) \<rparr>, failed)
           else (sy, failed @ [h])
       | Inl _ \<Rightarrow> (sy, failed @ [h])))"

text \<open>\<^verbatim>\<open>as_millis() as u64\<close>; the clock is read once for each request, \<open>now h\<close> for the one of height \<open>h\<close>.\<close>

definition timed_out :: "(u64 \<Rightarrow> nat) \<Rightarrow> BlockSyncer \<Rightarrow> PendingSyncRequest list" where
  "timed_out now sy =
     filter (\<lambda>r. (now (ps_height r) - sent_at r) div 1000000 mod 2 ^ 64 > message_timeout_ms (sy_config sy)) (map snd (pending sy))"

definition retry_timed_out :: "SyncEnv \<Rightarrow> PeerManager \<Rightarrow> (u64 \<Rightarrow> nat) \<Rightarrow> BlockSyncer \<Rightarrow> BlockSyncer \<times> u64 list" where
  "retry_timed_out env pm now sy = foldl (\<lambda>s req. retry_request env pm req s) (sy, []) (timed_out now sy)"

definition sync_reset :: "BlockSyncer \<Rightarrow> BlockSyncer" where
  "sync_reset sy = sy\<lparr> pending := [], completed := {} \<rparr>"

section \<open>Choosing a peer\<close>

lemma pick_peer_connected:
  assumes "pick_peer env h pm = Inr (k, addr)"
  shows "\<exists>c. (k, c) \<in> set (peers pm) \<and> is_connected c \<and> addr = pi_addr (pc_info c) \<and>
    (connected_validators pm \<noteq> [] \<longrightarrow> k \<in> active_validators pm)"
proof -
  have *: "\<exists>c. (k, c) \<in> set xs \<and> addr = pi_addr (pc_info c)"
    if "(let (k, conn) = xs ! (n mod length xs) in Inr (k, pi_addr (pc_info conn))) = (Inr (k, addr) :: ConsensusNetError + _)" "xs \<noteq> []" for xs n
  proof -
    have "xs ! (n mod length xs) \<in> set xs" using that(2) by simp
    then show ?thesis using that(1) by (auto split: prod.splits)
  qed
  show ?thesis
  proof (cases "connected_validators pm = []")
    case True
    then have "\<exists>c. (k, c) \<in> set (connected_peers pm) \<and> addr = pi_addr (pc_info c)"
      using assms * [of "connected_peers pm" "pick_nanos env h"] by (auto simp: pick_peer_def Let_def split: if_splits)
    with True show ?thesis by (auto simp: connected_peers_def)
  next
    case False
    then have "\<exists>c. (k, c) \<in> set (connected_validators pm) \<and> addr = pi_addr (pc_info c)"
      using assms * [of "connected_validators pm" "pick_nanos env h"] by (auto simp: pick_peer_def Let_def split: if_splits)
    then show ?thesis by (auto simp: connected_validators_def)
  qed
qed

section \<open>The invariant\<close>

definition request_ok :: "u32 \<Rightarrow> u64 \<Rightarrow> PendingSyncRequest \<Rightarrow> bool" where
  "request_ok n h r \<longleftrightarrow> ps_height r = h \<and> 1 \<le> attempts r \<and> attempts r \<le> n"

definition sync_inv :: "ConsensusNetConfig \<Rightarrow> BlockSyncer \<Rightarrow> bool" where
  "sync_inv c sy \<longleftrightarrow> sy_config sy = c \<and> max_retries sy = 5 \<and> hm_wf (pending sy) \<and> in_flight sy \<le> max_sync_requests c \<and>
     (\<forall>(h, r) \<in> set (pending sy). request_ok 5 h r) \<and> set (hm_keys (pending sy)) \<inter> completed sy = {}"

lemma sync_inv_insert:
  assumes "sync_inv c sy" "request_ok 5 h r" "h \<notin> completed sy" "hm_get (pending sy) h = None \<Longrightarrow> in_flight sy < max_sync_requests c"
  shows "sync_inv c (sy\<lparr> pending := hm_insert h r (pending sy) \<rparr>)"
  using assms hm_insert_all [of "pending sy" "request_ok 5" h r] hm_keys_insert [of h r "pending sy"]
  by (auto simp: sync_inv_def in_flight_def hm_insert_length simp del: set_map)

lemma sync_inv_delete:
  assumes "sync_inv c sy" shows "sync_inv c (sy\<lparr> pending := AList.delete h (pending sy) \<rparr>)"
  using assms hm_delete_le [of h "pending sy"] by (force simp: sync_inv_def in_flight_def hm_wf_delete)

lemma dispatch_inv:
  assumes "sync_inv c sy" "h \<notin> completed sy" "in_flight sy < max_sync_requests c"
  shows "sync_inv c (fst (dispatch_request env pm h sy))"
  using assms by (auto simp: dispatch_request_def request_ok_def intro!: sync_inv_insert split: sum.split)

lemma request_heights_inv: "sync_inv c sy \<Longrightarrow> sync_inv c (fst (request_heights env pm hs (sy, n)))"
proof (induction hs arbitrary: sy n)
  case (Cons h hs)
  consider (skip) "h \<in> completed sy \<or> hm_get (pending sy) h \<noteq> None"
    | (full) "h \<notin> completed sy" "hm_get (pending sy) h = None" "length (pending sy) \<ge> max_sync_requests (sy_config sy)"
    | (ask) "h \<notin> completed sy" "hm_get (pending sy) h = None" "length (pending sy) < max_sync_requests (sy_config sy)" by linarith
  then show ?case
  proof cases
    case ask
    then have "sync_inv c (fst (dispatch_request env pm h sy))"
      using Cons.prems by (intro dispatch_inv) (auto simp: sync_inv_def in_flight_def)
    with ask show ?thesis using Cons.IH by (simp add: case_prod_unfold Let_def)
  qed (use Cons in auto)
qed simp

lemma retry_request_inv:
  assumes "sync_inv c sy" "hm_get (pending sy) (ps_height req) = Some req"
  shows "sync_inv c (fst (retry_request env pm req (sy, failed)))"
proof -
  let ?h = "ps_height req"
  let ?sy = "sy\<lparr> pending := AList.delete ?h (pending sy) \<rparr>"
  have inv: "sync_inv c ?sy" by (rule sync_inv_delete [OF assms(1)])
  have req: "request_ok 5 ?h req" "?h \<in> set (hm_keys (pending sy))" and five: "max_retries sy = 5"
    using assms map_of_SomeD [OF assms(2)] by (force simp: sync_inv_def)+
  have "length (AList.delete ?h (pending sy)) < length (pending sy)"
    using req(2) unfolding AList.delete_eq by (auto intro!: length_filter_less)
  then have less: "in_flight ?sy < max_sync_requests c" using assms(1) by (simp add: sync_inv_def in_flight_def)
  have nc: "?h \<notin> completed ?sy" using assms(1) req(2) by (auto simp: sync_inv_def)
  have "sync_inv c (?sy\<lparr> pending := hm_insert ?h r (pending ?sy) \<rparr>)" if "request_ok 5 ?h r" for r
    by (rule sync_inv_insert [OF inv that nc less])
  moreover have "request_ok 5 ?h \<lparr> ps_height = ?h, ps_peer = k, ps_addr = a, sent_at = t, attempts = sat_add 32 (attempts req) 1 \<rparr>"
    if "attempts req < 5" for k a t
    using that by (simp add: request_ok_def sat_add_def umax_def)
  ultimately show ?thesis using inv five by (auto simp: retry_request_def Let_def split: sum.split)
qed

section \<open>Retries\<close>

lemma retry_request_spec:
  assumes "max_retries sy = 5" "attempts req \<le> 5" "retry_request env pm req (sy, failed) = (sy', failed')"
  shows "h \<noteq> ps_height req \<Longrightarrow> hm_get (pending sy') h = hm_get (pending sy) h"
    and "hm_get (pending sy') (ps_height req) = None \<and> failed' = failed @ [ps_height req] \<or>
      (\<exists>r. hm_get (pending sy') (ps_height req) = Some r \<and> attempts r = attempts req + 1) \<and> failed' = failed"
    and "completed sy' = completed sy" "max_retries sy' = 5"
  using assms by (auto simp: retry_request_def Let_def sat_add_def umax_def delete_conv' split: sum.splits if_splits prod.splits)

text \<open>The requests that are still to be looked at are in flight, each once.\<close>

definition queued :: "BlockSyncer \<Rightarrow> PendingSyncRequest list \<Rightarrow> bool" where
  "queued sy reqs \<longleftrightarrow> distinct (map ps_height reqs) \<and> (\<forall>r \<in> set reqs. hm_get (pending sy) (ps_height r) = Some r)"

definition retried :: "BlockSyncer \<Rightarrow> u64 list \<Rightarrow> PendingSyncRequest \<Rightarrow> bool" where
  "retried sy failed req \<longleftrightarrow>
     (if ps_height req \<in> set failed then hm_get (pending sy) (ps_height req) = None
      else \<exists>r. hm_get (pending sy) (ps_height req) = Some r \<and> attempts r = attempts req + 1)"

lemma retry_fold:
  "sync_inv c sy \<Longrightarrow> queued sy reqs \<Longrightarrow> foldl (\<lambda>s req. retry_request env pm req s) (sy, failed) reqs = (sy', failed') \<Longrightarrow>
   sync_inv c sy' \<and> completed sy' = completed sy \<and> (\<exists>new. failed' = failed @ new \<and> distinct new \<and> set new \<subseteq> ps_height ` set reqs \<and>
     (\<forall>req \<in> set reqs. retried sy' new req)) \<and> (\<forall>h. h \<notin> ps_height ` set reqs \<longrightarrow> hm_get (pending sy') h = hm_get (pending sy) h)"
proof (induction reqs arbitrary: sy failed)
  case (Cons req reqs)
  obtain sy1 failed1 where r: "retry_request env pm req (sy, failed) = (sy1, failed1)" by fastforce
  have req: "hm_get (pending sy) (ps_height req) = Some req" using Cons.prems(2) by (simp add: queued_def)
  have five: "max_retries sy = 5" "attempts req \<le> 5"
    using Cons.prems(1) map_of_SomeD [OF req] by (force simp: sync_inv_def request_ok_def)+
  note spec = retry_request_spec [OF five r]
  have inv1: "sync_inv c sy1" using retry_request_inv [OF Cons.prems(1) req, of env pm failed] r by simp
  have fresh: "ps_height req \<notin> ps_height ` set reqs" and q: "distinct (map ps_height reqs)"
    "\<forall>r \<in> set reqs. hm_get (pending sy) (ps_height r) = Some r" using Cons.prems(2) by (auto simp: queued_def)
  have q1: "queued sy1 reqs" unfolding queued_def
  proof (intro conjI ballI q(1))
    fix r assume r: "r \<in> set reqs"
    then have "ps_height r \<noteq> ps_height req" using fresh by (metis imageI)
    then show "hm_get (pending sy1) (ps_height r) = Some r" using q(2) r spec(1) by simp
  qed
  from Cons.IH [OF inv1 q1, of failed1] Cons.prems(3) r obtain new where
    IH: "sync_inv c sy'" "completed sy' = completed sy1" "failed' = failed1 @ new" "distinct new" "set new \<subseteq> ps_height ` set reqs"
      "\<forall>req \<in> set reqs. retried sy' new req" "\<forall>h. h \<notin> ps_height ` set reqs \<longrightarrow> hm_get (pending sy') h = hm_get (pending sy1) h"
    by auto
  have here: "hm_get (pending sy') (ps_height req) = hm_get (pending sy1) (ps_height req)" "ps_height req \<notin> set new" using fresh IH(5,7) by auto
  define all where "all = (if failed1 = failed then new else ps_height req # new)"
  have "failed' = failed @ all" "distinct all" "set all \<subseteq> ps_height ` set (req # reqs)"
    using IH(3-5) spec(2) here(2) by (auto simp: all_def)
  moreover have "\<forall>req \<in> set (req # reqs). retried sy' all req"
  proof -
    have "retried sy' all req" using spec(2) here by (auto simp: all_def retried_def)
    moreover have "retried sy' all x" if "x \<in> set reqs" for x
    proof -
      have "ps_height x \<noteq> ps_height req" using fresh that by (metis imageI)
      then have "ps_height x \<in> set all \<longleftrightarrow> ps_height x \<in> set new" by (simp add: all_def)
      then show ?thesis using bspec [OF IH(6) that] by (simp add: retried_def)
    qed
    ultimately show ?thesis by simp
  qed
  moreover have "hm_get (pending sy') h = hm_get (pending sy) h" if "h \<notin> ps_height ` set (req # reqs)" for h
    using IH(7) spec(1) [of h] that by auto
  ultimately show ?case using IH(1,2) spec(3) by (intro conjI exI [of _ all]) auto
qed (auto simp: queued_def)

lemma timed_out_queued:
  assumes "sync_inv c sy" shows "queued sy (timed_out now sy)"
proof -
  have ok: "hm_wf (pending sy)" "\<forall>(h, r) \<in> set (pending sy). ps_height r = h" using assms by (auto simp: sync_inv_def request_ok_def)
  then have "map ps_height (map snd (pending sy)) = hm_keys (pending sy)" by auto
  then have "distinct (map ps_height (map snd (pending sy)))" using ok(1) by (metis hm_wf_def)
  then have "distinct (map ps_height (timed_out now sy))" unfolding timed_out_def by (rule distinct_map_filter)
  moreover have "hm_get (pending sy) (ps_height r) = Some r" if "r \<in> set (timed_out now sy)" for r
    using that ok by (auto simp: timed_out_def hm_get_iff)
  ultimately show ?thesis by (simp add: queued_def)
qed

section \<open>Runs\<close>

datatype SyncOp =
    RequestRange SyncEnv PeerManager u64 u64
  | Response u64 BlockData
  | Retry SyncEnv PeerManager "u64 \<Rightarrow> nat"
  | Reset

fun sync_step :: "BlockSyncer \<Rightarrow> SyncOp \<Rightarrow> BlockSyncer" where
  "sync_step sy (RequestRange env pm from to) = fst (request_range env pm from to sy)"
| "sync_step sy (Response h block) = fst (handle_response h block sy)"
| "sync_step sy (Retry env pm now) = fst (retry_timed_out env pm now sy)"
| "sync_step sy Reset = sync_reset sy"

lemma retry_spec:
  assumes "sync_inv c sy" "retry_timed_out env pm now sy = (sy', failed)"
  shows "sync_inv c sy'" "completed sy' = completed sy" "distinct failed" "set failed \<subseteq> ps_height ` set (timed_out now sy)"
    "\<forall>req \<in> set (timed_out now sy). retried sy' failed req"
    "h \<notin> ps_height ` set (timed_out now sy) \<Longrightarrow> hm_get (pending sy') h = hm_get (pending sy) h"
  using retry_fold [OF assms(1) timed_out_queued [OF assms(1)] assms(2) [unfolded retry_timed_out_def]] by auto

lemma retry_timed_out_inv: "sync_inv c sy \<Longrightarrow> sync_inv c (fst (retry_timed_out env pm now sy))"
  by (metis prod.collapse retry_spec(1))

lemma response_inv: "sync_inv c sy \<Longrightarrow> sync_inv c (fst (handle_response h block sy))"
  using sync_inv_delete [of c sy h]
  by (auto simp: handle_response_def sync_inv_def in_flight_def AList.delete_eq split: option.split)

interpretation sync: invariant_system sync_step "sync_inv c" for c
proof
  fix sy e assume "sync_inv c sy"
  then show "sync_inv c (sync_step sy e)"
    by (cases e) (simp_all add: request_range_def request_heights_inv response_inv retry_timed_out_inv,
        simp add: sync_reset_def sync_inv_def in_flight_def hm_wf_def)
qed

lemma sync_inv_new: "sync_inv c (BlockSyncer_new c)"
  by (simp add: sync_inv_def BlockSyncer_new_def in_flight_def hm_wf_def)

text \<open>What became of a request after a pass.\<close>

lemma retry_fate:
  assumes inv: "sync_inv c sy" and "retry_timed_out env pm now sy = (sy', failed)" and r: "hm_get (pending sy) h = Some r"
  shows "(h \<in> set failed \<longleftrightarrow> hm_get (pending sy') h = None) \<and>
    (\<forall>r'. hm_get (pending sy') h = Some r' \<longrightarrow> (if r \<in> set (timed_out now sy) then attempts r' = attempts r + 1 else r' = r))"
proof (cases "r \<in> set (timed_out now sy)")
  case True
  then have "ps_height r = h" using inv map_of_SomeD [OF r] by (force simp: sync_inv_def request_ok_def)
  then show ?thesis using bspec [OF retry_spec(5) [OF assms(1,2)] True] True by (auto simp: retried_def split: if_splits)
next
  case False
  have "hm_get (pending sy) (ps_height r) = Some r" if "r \<in> set (timed_out now sy)" for r
    using timed_out_queued [OF inv] that by (simp add: queued_def)
  then have "h \<notin> ps_height ` set (timed_out now sy)" using r False by force
  then show ?thesis using retry_spec(4,6) [OF assms(1,2)] r False by auto
qed

lemma retry_none:
  assumes inv: "sync_inv c sy" and "retry_timed_out env pm now sy = (sy', failed)" and "hm_get (pending sy) h = None"
  shows "hm_get (pending sy') h = None"
proof -
  have "hm_get (pending sy) (ps_height r) = Some r" if "r \<in> set (timed_out now sy)" for r
    using timed_out_queued [OF inv] that by (simp add: queued_def)
  then have "h \<notin> ps_height ` set (timed_out now sy)" using assms(3) by force
  then show ?thesis using retry_spec(6) [OF assms(1,2)] assms(3) by simp
qed

section \<open>Requests that are never answered\<close>

fun retry_pass :: "BlockSyncer \<Rightarrow> SyncEnv \<times> PeerManager \<times> (u64 \<Rightarrow> nat) \<Rightarrow> BlockSyncer" where
  "retry_pass sy (env, pm, now) = fst (retry_timed_out env pm now sy)"

fun pass_late :: "BlockSyncer \<Rightarrow> SyncEnv \<times> PeerManager \<times> (u64 \<Rightarrow> nat) \<Rightarrow> bool" where
  "pass_late sy (env, pm, now) \<longleftrightarrow> timed_out now sy = map snd (pending sy)"

definition tried :: "ConsensusNetConfig \<Rightarrow> nat \<Rightarrow> BlockSyncer \<Rightarrow> bool" where
  "tried c n sy \<longleftrightarrow> sync_inv c sy \<and> (\<forall>h r. hm_get (pending sy) h = Some r \<longrightarrow> n \<le> attempts r)"

lemma retry_pass_tried:
  assumes "tried c n sy" "pass_late sy p" shows "tried c (Suc n) (retry_pass sy p)"
proof -
  obtain env pm now where p: "p = (env, pm, now)" by (cases p)
  obtain sy' failed where r: "retry_timed_out env pm now sy = (sy', failed)" by fastforce
  have inv: "sync_inv c sy" using assms(1) by (simp add: tried_def)
  have "Suc n \<le> attempts x'" if x': "hm_get (pending sy') h = Some x'" for h x'
  proof -
    obtain x where x: "hm_get (pending sy) h = Some x" using retry_none [OF inv r, of h] x' by (cases "hm_get (pending sy) h") auto
    then have "x \<in> set (timed_out now sy)" using assms(2) map_of_SomeD [OF x] by (force simp: p)
    then have "attempts x' = attempts x + 1" using retry_fate [OF inv r x] x' by simp
    then show ?thesis using assms(1) x by (simp add: tried_def)
  qed
  then show ?thesis using retry_spec(1) [OF inv r] r by (simp add: tried_def p)
qed

lemma retry_passes_tried:
  "tried c n sy \<Longrightarrow> guarded_run retry_pass pass_late sy ps \<Longrightarrow> tried c (n + length ps) (foldl retry_pass sy ps)"
proof (induction ps arbitrary: n sy)
  case (Cons p ps)
  then show ?case using Cons.IH [OF retry_pass_tried [OF Cons.prems(1)]] by simp
qed simp

section \<open>Properties\<close>

text \<open>
  C38: Whatever is requested, answered, retried or reset in whatever order, a syncer has at most the
  configured number of requests in flight, has tried none of them more than five times, and never has a request in flight
  for a height it has completed.
\<close>

theorem sync_requests_bounded:
  assumes "sy = foldl sync_step (BlockSyncer_new c) ops"
  shows "in_flight sy \<le> max_sync_requests c \<and> distinct (hm_keys (pending sy)) \<and>
    (\<forall>h r. hm_get (pending sy) h = Some r \<longrightarrow> \<not> is_completed sy h \<and> ps_height r = h \<and> 1 \<le> attempts r \<and> attempts r \<le> 5)"
proof -
  have inv: "sync_inv c sy" unfolding assms by (rule sync.run_inv [OF sync_inv_new])
  have "\<not> is_completed sy h \<and> ps_height r = h \<and> 1 \<le> attempts r \<and> attempts r \<le> 5" if r: "hm_get (pending sy) h = Some r" for h r
    using inv hm_get_key [OF r] map_of_SomeD [OF r] by (fastforce simp: sync_inv_def request_ok_def is_completed_def)
  then show ?thesis using inv by (simp add: sync_inv_def hm_wf_def)
qed

definition sync_env :: SyncEnv where
  "sync_env = \<lparr> lock_poisoned = False, pick_nanos = (\<lambda>_. 0), send_ok = (\<lambda>_ _. True), request_time = (\<lambda>_. 0) \<rparr>"

definition sync_peers :: PeerManager where
  "sync_peers = foldl pm_step (PeerManager_new net_dev_default) [AddPeer 0 (example_peer 1), MarkConnected 0 [1]]"

lemma sync_pick: "pick_peer sync_env h sync_peers = Inr ([1], SocketAddr (V4 [127, 0, 0, 1]) 8900)"
  by (simp add: pick_peer_def sync_env_def sync_peers_def connected_validators_def add_peer_def mark_connected_def example_peer_def
      PeerManager_new_def PeerConnection_new_def net_dev_default_def)

theorem sync_requests_bounded_witness:
  "in_flight (foldl sync_step (BlockSyncer_new net_dev_default) [RequestRange sync_env sync_peers 5 20]) \<le> 4"
  using sync_requests_bounded [OF refl, of net_dev_default "[RequestRange sync_env sync_peers 5 20]"]
  by (simp add: net_dev_default_def)

text \<open>
  C39: A pass over the timed out requests loses none: every height that was in flight is afterwards either still in flight
  or reported as failed, and not both; a request that is sent again counts one attempt more, and the others
  are left as they were.
\<close>

theorem retry_loses_nothing:
  assumes "sy = foldl sync_step (BlockSyncer_new c) ops" "retry_timed_out env pm now sy = (sy', failed)"
  shows "set (hm_keys (pending sy)) = set (hm_keys (pending sy')) \<union> set failed \<and> set (hm_keys (pending sy')) \<inter> set failed = {} \<and>
    distinct failed \<and> completed sy' = completed sy \<and>
    (\<forall>h r. hm_get (pending sy) h = Some r \<longrightarrow> h \<notin> set failed \<longrightarrow>
       (\<exists>r'. hm_get (pending sy') h = Some r' \<and> (if r \<in> set (timed_out now sy) then attempts r' = attempts r + 1 else r' = r)))"
proof -
  have inv: "sync_inv c sy" unfolding assms(1) by (rule sync.run_inv [OF sync_inv_new])
  note fate = retry_fate [OF inv assms(2)] and none = retry_none [OF inv assms(2)] and spec = retry_spec [OF inv assms(2)]
  have q: "hm_get (pending sy) (ps_height r) = Some r" if "r \<in> set (timed_out now sy)" for r
    using timed_out_queued [OF inv] that by (simp add: queued_def)
  have failed_in: "hm_get (pending sy) h \<noteq> None" if "h \<in> set failed" for h using spec(4) q that by force
  have keys: "h \<in> set (hm_keys m) \<longleftrightarrow> hm_get m h \<noteq> None" for h and m :: "(u64, PendingSyncRequest) hashmap"
    by (metis map_of_eq_None_iff set_map)
  have "set (hm_keys (pending sy)) = set (hm_keys (pending sy')) \<union> set failed" "set (hm_keys (pending sy')) \<inter> set failed = {}"
    unfolding set_eq_iff Un_iff Int_iff keys using fate none failed_in by (metis option.exhaust empty_iff)+
  moreover have "\<exists>r'. hm_get (pending sy') h = Some r' \<and> (if r \<in> set (timed_out now sy) then attempts r' = attempts r + 1 else r' = r)"
    if "hm_get (pending sy) h = Some r" "h \<notin> set failed" for h r
    using fate [OF that(1)] that(2) by (metis option.exhaust)
  ultimately show ?thesis using spec(2,3) by blast
qed

text \<open>
  C40: A syncer does not retry for ever. Once all its requests in flight have timed out in each of five passes over
  them, whatever peers it chose and whether or not the messages could be sent, nothing is in flight any more.
\<close>

theorem unanswered_requests_end:
  assumes "sy = foldl sync_step (BlockSyncer_new c) ops" "length ps = 5" "guarded_run retry_pass pass_late sy ps"
  shows "pending (foldl retry_pass sy ps) = []"
proof -
  have inv: "sync_inv c sy" unfolding assms(1) by (rule sync.run_inv [OF sync_inv_new])
  then have "tried c 1 sy" by (fastforce simp: tried_def sync_inv_def request_ok_def dest!: map_of_SomeD)
  from retry_passes_tried [OF this assms(3)] assms(2) have t: "tried c 6 (foldl retry_pass sy ps)" by simp
  show ?thesis
  proof (rule ccontr)
    assume "pending (foldl retry_pass sy ps) \<noteq> []"
    then obtain h r where hr: "(h, r) \<in> set (pending (foldl retry_pass sy ps))" by (metis last_in_set surj_pair)
    then have "hm_get (pending (foldl retry_pass sy ps)) h = Some r" using t by (simp add: tried_def sync_inv_def hm_get_iff)
    then have "6 \<le> attempts r" using t by (simp add: tried_def)
    moreover have "attempts r \<le> 5" using t hr by (auto simp: tried_def sync_inv_def request_ok_def)
    ultimately show False by simp
  qed
qed

definition sync_at :: "u32 \<Rightarrow> BlockSyncer" where
  "sync_at n = (BlockSyncer_new net_dev_default)\<lparr> pending :=
     [(7, \<lparr> ps_height = 7, ps_peer = [1], ps_addr = SocketAddr (V4 [127, 0, 0, 1]) 8900, sent_at = 0, attempts = n \<rparr>)] \<rparr>"

lemma sync_start: "foldl sync_step (BlockSyncer_new net_dev_default) [RequestRange sync_env sync_peers 7 7] = sync_at 1"
  by (simp add: sync_at_def request_range_def dispatch_request_def sync_pick BlockSyncer_new_def net_dev_default_def)
    (simp add: sync_env_def)

lemma sync_late: "timed_out (\<lambda>_. 2000000000) (sync_at n) = map snd (pending (sync_at n))"
  by (simp add: timed_out_def sync_at_def BlockSyncer_new_def net_dev_default_def)

lemma sync_retry:
  "retry_timed_out sync_env sync_peers (\<lambda>_. 2000000000) (sync_at n) =
     (if n \<ge> 5 then (BlockSyncer_new net_dev_default, [7]) else (sync_at (n + 1), []))"
  by (simp add: retry_timed_out_def sync_late, simp add: retry_request_def sync_pick sync_at_def BlockSyncer_new_def)
    (simp add: sync_env_def sat_add_def umax_def)

definition late_pass :: "SyncEnv \<times> PeerManager \<times> (u64 \<Rightarrow> nat)" where
  "late_pass = (sync_env, sync_peers, (\<lambda>_. 2000000000))"

lemma late_passes:
  "pass_late (sync_at n) late_pass" "retry_pass (sync_at n) late_pass = (if n \<ge> 5 then BlockSyncer_new net_dev_default else sync_at (n + 1))"
  by (simp_all add: late_pass_def sync_late sync_retry)

theorem unanswered_requests_end_witness:
  "pending (foldl retry_pass (foldl sync_step (BlockSyncer_new net_dev_default) [RequestRange sync_env sync_peers 7 7])
     [late_pass, late_pass, late_pass, late_pass, late_pass]) = []"
proof (rule unanswered_requests_end [OF refl])
  show "guarded_run retry_pass pass_late (foldl sync_step (BlockSyncer_new net_dev_default) [RequestRange sync_env sync_peers 7 7])
     [late_pass, late_pass, late_pass, late_pass, late_pass]"
    unfolding sync_start by (simp add: late_passes del: One_nat_def)
qed simp

theorem retry_loses_nothing_witness:
  "set (hm_keys (pending (foldl sync_step (BlockSyncer_new net_dev_default) [RequestRange sync_env sync_peers 7 7]))) =
     set (hm_keys (pending (sync_at 2)))"
proof -
  have "retry_timed_out sync_env sync_peers (\<lambda>_. 2000000000) (sync_at 1) = (sync_at 2, [])" using sync_retry [of 1] by (simp del: One_nat_def)
  from retry_loses_nothing [OF sync_start [symmetric] this] show ?thesis unfolding sync_start by simp
qed

end
