(* ===== verification/Spec2Isabelle.thy ===== *)
theory Spec2Isabelle
  imports Bft_Timeout Bft_Executions Fee_Market Fee_Distribution Active_Set Passive_Stake Treasury
    Governance_Protocol Revenue_Rules Storage_Adapter Maintenance Service_Properties Service_Network Block_Sync
begin

text \<open>
  A verification library for TRv1, a proof-of-stake chain forked from Agave. It models what TRv1 adds
  to the fork and the runtime interfaces those parts rest on: the BFT consensus, the fee market and the
  distribution of fees, slashing and the active validator set, the rules under which programs change
  accounts, on-chain programs, the storage tiers, and the service and the network layer around the consensus.

  \<^bold>\<open>How the parts interact.\<close> A validator runs a consensus engine (\<^verbatim>\<open>consensus-bft\<close>) that is driven by
  messages and timeouts and commits blocks; the consensus service (\<^verbatim>\<open>core/src\<close>) feeds it, produces blocks
  from pending transactions and executes committed ones on the bank forks; the network layer
  (\<^verbatim>\<open>consensus-net\<close>) keeps the peers, frames messages and fetches missed blocks. Conflicting votes become evidence, evidence leads to
  slashing (\<^verbatim>\<open>runtime/src/slashing.rs\<close>), and jailed validators are kept out of the active set
  (\<^verbatim>\<open>runtime/src/trv1_active_set.rs\<close>) from which leaders are drawn. Each block carries a base fee
  (\<^verbatim>\<open>fee-market\<close>, \<^verbatim>\<open>runtime/src/bank/trv1_fee_integration.rs\<close>); the fees of a block are split and paid
  out or burned (\<^verbatim>\<open>runtime/src/bank/fee_distribution.rs\<close>). Transactions run programs, which change
  accounts only through \<^verbatim>\<open>transaction-context\<close>; the passive-stake program (\<^verbatim>\<open>programs/passive-stake\<close>)
  keeps stake positions in accounts, which give voting power to the governance program
  (\<^verbatim>\<open>programs/governance\<close>); the treasury program (\<^verbatim>\<open>programs/treasury\<close>) keeps its configuration, the
  developer-rewards program (\<^verbatim>\<open>programs/developer-rewards\<close>) who receives the fee share of a program.
  Accounts are kept in tiers (\<^verbatim>\<open>accounts-db/src\<close>): a cache of recently used accounts in memory and an
  archive on disk for inactive ones.

  \<^bold>\<open>Conventions\<close> (\<open>Trv1_Prelude\<close>, \<open>Float64\<close>). Unsigned integers are natural numbers with the width at
  every operation that can leave it (\<open>wadd\<close>, \<open>sat_add\<close>, \<open>checked_add\<close> and so on); signed ones are
  integers. A \<^verbatim>\<open>Result\<close> is a sum whose left side is the error, \<open>res_bind\<close> is the question mark. A hash
  map is an association list in iteration order; lemmas about maps go through the locale \<open>finite_map\<close>.
  A double is the rational it denotes and \<open>f64_round\<close> is round-to-nearest-even; the error of a
  rounding is bounded by a relative \<open>2 ^ -53\<close>. The locales \<open>invariant_system\<close> and \<open>guarded_system\<close>
  are the induction over runs of a component; they are interpreted on the evidence collector, the
  timeout scheduler, the engine, the chain of fee states, the slashing state and the on-chain programs.

  \<^bold>\<open>Consensus.\<close>
  \<^item> \<open>Bft_Types\<close>: \<^verbatim>\<open>config.rs\<close> and \<^verbatim>\<open>types.rs\<close>; the SHA-256 of a block is the parameter \<open>hashv\<close>.
  \<^item> \<open>Validator_Set\<close>: \<^verbatim>\<open>validator_set.rs\<close> and \<^verbatim>\<open>proposer.rs\<close>. The floating-point quorum lies above two
    thirds of the stake and is reachable, so two quorums share an honest validator (locale
    \<open>weighted_quorum\<close>); proposers are drawn in proportion to stake; the set does not depend on the
    order of its input and \<^verbatim>\<open>upsert\<close> refines the update of a stake map.
  \<^item> \<open>Evidence\<close>: \<^verbatim>\<open>evidence.rs\<close>. Evidence is held exactly for conflicting votes.
  \<^item> \<open>Bft_Timeout\<close>: \<^verbatim>\<open>timeout.rs\<close>, with the time as an argument.
  \<^item> \<open>Consensus_Engine\<close>: \<^verbatim>\<open>engine.rs\<close>, one definition per handler and tally. \<open>Engine_Steps\<close>: the step
    relation of an engine; commits and precommits are backed by quorums, an engine whose heights go up and
    whose round does not overflow never votes twice in a round and is never accused, whatever happens to the validator
    set, and a locked engine prevotes against its lock only on a claimed
    later valid round.
  \<^item> \<open>Bft_Safety\<close> and \<open>Bft_Executions\<close>: a network of engines with dishonest validators that hold at most
    a third of the stake. If proposals claim valid rounds only when prevotes back them, engines never
    disagree on a height; without that hypothesis, which \<^verbatim>\<open>determine_prevote\<close> does not check, an
    explicit execution makes two honest engines commit different blocks.

  \<^bold>\<open>Service and network.\<close>
  \<^item> \<open>Block_Producer\<close>: \<^verbatim>\<open>core/src/block_producer.rs\<close> and the part of \<^verbatim>\<open>runtime/src/bank.rs\<close> and \<^verbatim>\<open>bank_forks.rs\<close> it calls. A
    block is a prefix of the queue; executing a block adds one frozen bank. A bank is its slot, its hashes and the link to
    its parent; what freezing and the creation of a child do to accounts, sysvars and the base fee is left out.
  \<^item> \<open>Bft_Adapter\<close>: \<^verbatim>\<open>bft_adapter.rs\<close> and the loop of \<^verbatim>\<open>consensus_service.rs\<close>, one pass per \<open>Tick\<close>. \<open>Service_Runs\<close> relates every
    operation of the host to an event of the engine (\<open>hosts\<close>) and carries the engine's invariant over to the service;
    \<open>Service_Liveness\<close> follows its timeouts. \<open>Service_Properties\<close>: as long as heights, rounds and slots do not
    overflow the service never panics, never votes twice and executes one block per height; it changes rounds when idle and
    stands still under a stream of messages of other heights.
  \<^item> \<open>Service_Network\<close>: a network of services without faults in which two of them decide different blocks.
  \<^item> \<open>Net_Message\<close>, \<open>Peer_Manager\<close>, \<open>Block_Sync\<close>: \<^verbatim>\<open>consensus-net/src\<close>. What is framed into a connection comes out of its reader; the
    peer table is well formed; the requests of the block syncer are bounded, none is lost, and they end.

  \<^bold>\<open>Fees.\<close>
  \<^item> \<open>Fee_Market\<close>: \<^verbatim>\<open>fee-market/src\<close> and \<^verbatim>\<open>trv1_fee_integration.rs\<close>. The machine-integer update is the
    EIP-1559 formula for every accepted configuration; with a target above zero it moves by at most one part in the denominator, is monotone, reaches its limits
    under sustained load and stays in range along every chain; the base fee lags one block.
  \<^item> \<open>Accounts_Rent\<close>: the account record and \<^verbatim>\<open>svm/src/rent_calculator.rs\<close>; \<^verbatim>\<open>Rent::is_exempt\<close> is a
    parameter.
  \<^item> \<open>Fee_Distribution\<close>: \<^verbatim>\<open>trv1_constants.rs\<close> and \<^verbatim>\<open>fee_distribution.rs\<close>. For up to \<open>2 ^ 49\<close> lamports in
    a block with transaction fees the four double-precision shares add up exactly; the bound leaves the accumulated rounding
    errors below one lamport. What is not credited to the leader leaves the capitalization. The priority fees of a block
    without transaction fees are neither credited nor burned.

  \<^bold>\<open>Validators.\<close>
  \<^item> \<open>Slashing\<close>: \<^verbatim>\<open>slashing.rs\<close>. Three slashes ban for good, a slash takes at most the own stake, terms
    are served.
  \<^item> \<open>Active_Set\<close>: \<^verbatim>\<open>trv1_active_set.rs\<close>; the node identity of a vote account is a parameter. The active
    set is the top of the ranking, the same on every node, and never holds a banned validator.

  \<^bold>\<open>Programs.\<close>
  \<^item> \<open>Transaction_Context\<close>: accounts of a transaction, borrowed accounts and the balance check. The
    locale \<open>account_program\<close> is the contract of a program (its success has an \<open>allowed_effect\<close>); it is
    interpreted on arbitrary sequences of operations and on each program below, which gives all of
    them the conservation of lamports and the protection of foreign and read-only accounts.
  \<^item> \<open>Account_Data\<close>: the discriminator-and-Borsh layout of stored state; Borsh is a parameter with the
    laws of the locales \<open>state_codec\<close> and \<open>exact_codec\<close>, interpreted on the documented layouts.
  \<^item> \<open>Passive_Stake\<close>: \<^verbatim>\<open>programs/passive-stake/src\<close>. Positions keep their terms and can be closed only
    by the rules; rewards are exact; no system-owned wallet can open a position.
  \<^item> \<open>Treasury\<close>: \<^verbatim>\<open>programs/treasury/src\<close>. Only the current authority changes the configuration, the switch
    to governance is one-way, and a disbursement moves exactly its amount. The program does not compare
    the source account with the configured treasury account.
  \<^item> \<open>Governance_State\<close>, \<open>Governance\<close>, \<open>Governance_Protocol\<close>: \<^verbatim>\<open>programs/governance/src\<close> (stored state and
    voting power; the eight handlers; the life cycle of a proposal as the inductive relation \<open>life\<close>).
    As long as their accounts are passed in no other role, stored proposals follow the life cycle, an emergency unlock needs
    a supermajority and the configuration is controlled by its authority. The accounts of a vote are not checked, so in
    another role they can be overwritten. The life cycle of the code has no quorum, although the documentation has one.
  \<^item> \<open>Developer_Rewards\<close>, \<open>Revenue_Rules\<close>: \<^verbatim>\<open>programs/developer-rewards/src\<close>. A revenue configuration is
    changed only by its update authority; the fee cap lets no fee ever be credited.

  \<^bold>\<open>Storage.\<close>
  \<^item> \<open>Storage_Config\<close>: \<^verbatim>\<open>tiered_storage_config.rs\<close>. \<open>Account_Cache\<close>: \<^verbatim>\<open>account_cache.rs\<close>, the arena of linked
    nodes with its free list; a panic is \<open>None\<close>. \<open>Cache_Refinement\<close> relates the arena to a plain list of
    entries (locale \<open>budgeted_simulation\<close>, interpreted on the cache and on the adapter);
    \<open>Cache_Properties\<close>: the cache is that list, lookups are never stale, evictions end and take the oldest.
  \<^item> \<open>Cold_Storage\<close>: \<^verbatim>\<open>state_rent_expiry.rs\<close>; SHA-256 and base 58 are parameters, failures of the file
    system arguments. A revival returns the archived account or a collision; Merkle proofs of full
    length are sound and complete up to collisions; the length is not checked, so shorter ones are accepted for inner nodes.
  \<^item> \<open>Storage_Adapter\<close>: \<^verbatim>\<open>trv1_storage_adapter.rs\<close>. No sequence of whole operations panics, archived accounts stay
    revivable; interleavings within an archival are not modelled. \<open>Maintenance\<close>: \<^verbatim>\<open>trv1_maintenance.rs\<close>; the loop ends after the exit signal.

  \<^bold>\<open>Bounds and fuel.\<close> No definition uses fuel: loops are recursion over the lists they iterate, and the
  scaling loop of \<open>rnd_mag\<close> has a termination proof. The scaling of small magnitudes counts down the
  1074 exponents of a double. The eviction loops count up to the batch size, the
  maintenance loop is a partial function that is shown to return. Hypotheses on sizes (\<open>2 ^ 49\<close> lamports,
  \<open>2 ^ 64\<close> bytes cached, heights and rounds below the wrap-around) are stated with each theorem.

  \<^bold>\<open>Not modelled.\<close> Sockets, threads and channels appear as what they deliver; spawning and accepting are left out. The
  code inherited from Agave is modelled only where the parts above call it. Logging, metrics,
  the compute budget, serialization derived by external crates and the instruction trace are left out.
\<close>

end
